(* ===== verification/Prelude.thy ===== *)
theory Prelude
  imports
    Main
    "HOL-Library.List_Lexorder"
    "HOL-Library.Char_ord"
    "HOL-Library.Monad_Syntax"
begin

text \<open>
  Shared vocabulary of the development.

  \<^item> \<open>fault\<close>: the abnormal ends the modelled code could run into. A definition that would
    dereference a null or dangling pointer, index past an array or call \<open>front()\<close> or \<open>back()\<close> on
    an empty vector returns the fault as a value; so does one that calls an empty
    \<open>std::function\<close>, throws, or leaves the process through \<open>ErrorIf\<close> (\<open>src/network/util.cpp\<close>).
  \<^item> \<open>'a outcome\<close>: \<open>None\<close> is a computation that does not return (an endless loop, a self-deadlock),
    \<open>Some (Inl f)\<close> is the abnormal end \<open>f\<close>, \<open>Some (Inr x)\<close> is a normal return of \<open>x\<close>.
  \<^item> generic lemmas on \<open>takeWhile\<close>, sorted association lists and maps that several components use.

  \<open>std::string\<close> is \<open>string\<close> (a list of bytes); its \<open>operator<\<close> is the lexicographic order of
  the library theories \<open>List_Lexorder\<close> and \<open>Char_ord\<close>, which compare bytes as unsigned numbers
  as \<open>std::char_traits<char>::compare\<close> does.
\<close>

section \<open>Outcomes\<close>

datatype fault =
    Null_pointer     \<comment> \<open>dereference of a null pointer\<close>
  | Bad_pointer      \<comment> \<open>dereference of an address that is not allocated\<close>
  | Out_of_range     \<comment> \<open>an index past the end of an array or vector\<close>
  | Empty_vector     \<comment> \<open>\<open>front()\<close> or \<open>back()\<close> of an empty vector\<close>
  | Division_by_zero \<comment> \<open>an integer \<open>%\<close> or \<open>/\<close> by zero\<close>
  | Assertion        \<comment> \<open>a failed \<open>assert\<close>\<close>
  | Bad_function     \<comment> \<open>\<open>std::bad_function_call\<close>: a call of an empty \<open>std::function\<close>\<close>
  | Runtime_error string \<comment> \<open>\<open>throw std::runtime_error(...)\<close>\<close>
  | Exit string      \<comment> \<open>\<open>exit(EXIT_FAILURE)\<close> after \<open>perror\<close> with this message\<close>

type_synonym 'a outcome = "(fault + 'a) option"

definition ret :: "'a \<Rightarrow> 'a outcome" where
  "ret x = Some (Inr x)"

definition fail :: "fault \<Rightarrow> 'a outcome" where
  "fail f = Some (Inl f)"

definition obind :: "'a outcome \<Rightarrow> ('a \<Rightarrow> 'b outcome) \<Rightarrow> 'b outcome" where
  "obind m f = (case m of None \<Rightarrow> None | Some (Inl e) \<Rightarrow> Some (Inl e) | Some (Inr x) \<Rightarrow> f x)"

text \<open>Facts that run a closed or half-closed computation.\<close>

named_theorems outcome_simps

lemma obind_ret [simp, outcome_simps]: "obind (ret x) f = f x"
  by (simp add: obind_def ret_def)

lemma obind_fail [simp, outcome_simps]: "obind (fail e) f = fail e"
  by (simp add: obind_def fail_def)

lemma obind_None [simp, outcome_simps]: "obind None f = None"
  by (simp add: obind_def)

lemma obind_assoc: "obind (obind m f) g = obind m (\<lambda>x. obind (f x) g)"
  by (cases m) (auto simp: obind_def split: sum.splits)

lemma obind_cong: "m = m' \<Longrightarrow> (\<And>x. m' = ret x \<Longrightarrow> f x = g x) \<Longrightarrow> obind m f = obind m' g"
  by (auto simp: obind_def ret_def split: option.splits sum.splits)

lemma ret_inject [simp]: "ret x = ret y \<longleftrightarrow> x = y"
  by (simp add: ret_def)

lemma ret_not_fail [simp]: "ret x \<noteq> fail e" "fail e \<noteq> ret x"
  by (simp_all add: ret_def fail_def)

lemma ret_not_None [simp]: "ret x \<noteq> None" "None \<noteq> ret x"
  by (simp_all add: ret_def)

lemma fail_not_None [simp]: "fail e \<noteq> None" "None \<noteq> fail e"
  by (simp_all add: fail_def)

lemma obind_eq_retE:
  assumes "obind m f = ret y"
  obtains x where "m = ret x" and "f x = ret y"
  using assms by (auto simp: obind_def ret_def split: option.splits sum.splits)

text \<open>
  \<open>yields E P m\<close>: \<open>m\<close> does not return, ends abnormally in one of the ways \<open>E\<close>, or returns a value with \<open>P\<close>.
\<close>

definition yields :: "fault set \<Rightarrow> ('a \<Rightarrow> bool) \<Rightarrow> 'a outcome \<Rightarrow> bool" where
  "yields E P m \<longleftrightarrow> m = None \<or> (\<exists>f \<in> E. m = fail f) \<or> (\<exists>x. m = ret x \<and> P x)"

lemma yields_simps [simp]:
  "yields E P None" "yields E P (ret x) \<longleftrightarrow> P x" "yields E P (fail f) \<longleftrightarrow> f \<in> E"
  by (auto simp: yields_def fail_def ret_def)

lemma yields_bind:
  assumes "yields E P m" and "\<And>x. m = ret x \<Longrightarrow> P x \<Longrightarrow> yields E Q (f x)"
  shows "yields E Q (obind m f)"
proof -
  consider "m = None" | e where "e \<in> E" "m = fail e" | x where "m = ret x" "P x"
    using assms(1) by (auto simp only: yields_def)
  then show ?thesis by cases (simp_all add: assms(2))
qed

lemma yields_mono:
  "yields E P m \<Longrightarrow> E \<subseteq> E' \<Longrightarrow> (\<And>x. m = ret x \<Longrightarrow> P x \<Longrightarrow> Q x) \<Longrightarrow> yields E' Q m"
  unfolding yields_def by blast

lemma yields_retD: "yields E P m \<Longrightarrow> m = ret x \<Longrightarrow> P x"
  by simp

lemma yields_failD: "yields E P m \<Longrightarrow> m = fail f \<Longrightarrow> f \<in> E"
  by simp

section \<open>Lists\<close>

text \<open>
  In a list sorted by \<open>f\<close> the elements below a bound are a prefix, so taking them while the
  bound holds commutes with a filter.
\<close>

lemma takeWhile_filter_below:
  assumes "sorted_wrt (\<lambda>a b. f a < (f b :: 'k::linorder)) xs"
  shows "takeWhile (\<lambda>a. f a < k) (filter Q xs) = filter Q (takeWhile (\<lambda>a. f a < k) xs)"
  using assms
proof (induction xs)
  case Nil
  then show ?case by simp
next
  case (Cons x xs)
  have none: "takeWhile (\<lambda>a. f a < k) (filter Q xs) = []" if "\<not> f x < k"
  proof -
    have "\<forall>a \<in> set xs. \<not> f a < k"
      using Cons.prems that by (auto dest: less_trans)
    then show ?thesis by (cases "filter Q xs") (auto simp: filter_eq_Cons_iff takeWhile_eq_Nil_iff)
  qed
  show ?case using Cons none by auto
qed

lemma dropWhile_filter_below:
  assumes "sorted_wrt (\<lambda>a b. f a < (f b :: 'k::linorder)) xs"
  shows "dropWhile (\<lambda>a. f a < k) (filter Q xs) = filter Q (dropWhile (\<lambda>a. f a < k) xs)"
proof -
  have "filter Q xs = filter Q (takeWhile (\<lambda>a. f a < k) xs) @ filter Q (dropWhile (\<lambda>a. f a < k) xs)"
    by (metis filter_append takeWhile_dropWhile_id)
  moreover have "filter Q xs = takeWhile (\<lambda>a. f a < k) (filter Q xs) @ dropWhile (\<lambda>a. f a < k) (filter Q xs)"
    by simp
  ultimately show ?thesis
    using takeWhile_filter_below [OF assms] by (metis same_append_eq)
qed

lemma last_takeWhile_split:
  assumes "b # L = us @ c # vs" and "us \<noteq> [] \<longrightarrow> (\<forall>a \<in> set (tl us) \<union> {c}. P a)"
  shows "last (c # takeWhile P vs) = last (b # takeWhile P L)"
proof (cases us)
  case Nil
  with assms show ?thesis by simp
next
  case (Cons u us')
  with assms have "takeWhile P L = us' @ c # takeWhile P vs" by auto
  then show ?thesis by simp
qed

lemma dropWhile_head: "dropWhile p xs = y # ys \<Longrightarrow> \<not> p y"
  by (induction xs) (auto split: if_splits)

section \<open>Bytes and strings\<close>

text \<open>
  \<open>find_char c s\<close> is the position of the first \<open>c\<close> in \<open>s\<close>, \<open>None\<close> being \<open>std::string::npos\<close>;
  \<open>std_find c s\<close> is \<open>std::find\<close> on a range of bytes, which returns the end of the range on a miss.
\<close>

definition std_find :: "char \<Rightarrow> string \<Rightarrow> nat" where
  "std_find c s = length (takeWhile (\<lambda>x. x \<noteq> c) s)"

definition find_char :: "char \<Rightarrow> string \<Rightarrow> nat option" where
  "find_char c s = (if c \<in> set s then Some (std_find c s) else None)"

text \<open>\<open>subrange s i j\<close> is the range of bytes between the pointers \<open>begin + i\<close> and \<open>begin + j\<close>.\<close>

definition subrange :: "string \<Rightarrow> nat \<Rightarrow> nat \<Rightarrow> string" where
  "subrange s i j = take (j - i) (drop i s)"

text \<open>What is left of a byte string that passes through \<open>const char *\<close>: it ends at the first NUL.\<close>

definition c_string :: "string \<Rightarrow> string" where
  "c_string s = takeWhile (\<lambda>c. c \<noteq> CHR 0x00) s"

text \<open>\<open>isspace\<close> in the C locale: space, tab, newline, vertical tab, form feed, carriage return.\<close>

definition isspace :: "char \<Rightarrow> bool" where
  "isspace c = (let n = of_char c :: nat in n = 32 \<or> 9 \<le> n \<and> n \<le> 13)"

definition newline :: char where
  "newline = CHR 0x0A"

text \<open>Decimal digits of a number, as \<open>std::ostream\<close> and \<open>%d\<close> print it.\<close>

definition digit_char :: "nat \<Rightarrow> char" where
  "digit_char d = char_of (48 + d)"

fun decimal :: "nat \<Rightarrow> string" where
  "decimal n = (if n < 10 then [digit_char n] else decimal (n div 10) @ [digit_char (n mod 10)])"

declare decimal.simps [simp del]

lemma c_string_id [simp]: "CHR 0x00 \<notin> set s \<Longrightarrow> c_string s = s"
  unfolding c_string_def by (subst takeWhile_eq_all_conv) auto

lemma c_string_idem [simp]: "c_string (c_string s) = c_string s"
  by (simp add: c_string_def)

lemma c_string_append: "c_string (s @ t) = (if CHR 0x00 \<in> set s then c_string s else s @ c_string t)"
  by (induction s) (auto simp: c_string_def)

lemma subrange_append [simp]: "subrange (u @ v @ w) (length u) (length u + length v) = v"
  by (simp add: subrange_def)

lemma std_find_le: "std_find c s \<le> length s"
  by (simp add: std_find_def length_takeWhile_le)

lemma std_find_miss: "std_find c s = length s \<longleftrightarrow> c \<notin> set s"
proof
  assume "std_find c s = length s"
  then have "takeWhile (\<lambda>x. x \<noteq> c) s = s"
    by (metis std_find_def append_Nil2 append_eq_append_conv takeWhile_dropWhile_id)
  then show "c \<notin> set s" by (metis (full_types) set_takeWhileD)
next
  assume "c \<notin> set s"
  then have "takeWhile (\<lambda>x. x \<noteq> c) s = s" by (subst takeWhile_eq_all_conv) auto
  then show "std_find c s = length s" unfolding std_find_def by (rule arg_cong)
qed

lemma std_find_append [simp]: "c \<notin> set u \<Longrightarrow> std_find c (u @ c # v) = length u"
  by (induction u) (auto simp: std_find_def)

lemma find_char_append [simp]: "c \<notin> set u \<Longrightarrow> find_char c (u @ c # v) = Some (length u)"
  by (simp add: find_char_def)

lemma find_char_None [simp]: "find_char c s = None \<longleftrightarrow> c \<notin> set s"
  by (simp add: find_char_def)

lemma decimal_length: "n < 10 ^ d \<Longrightarrow> 0 < d \<Longrightarrow> length (decimal n) \<le> d"
proof (induction d arbitrary: n)
  case (Suc d)
  show ?case
  proof (cases "n < 10")
    case False
    then have "0 < d" using Suc.prems by (cases d) auto
    moreover have "n div 10 < 10 ^ d" using Suc.prems by auto
    ultimately show ?thesis using Suc.IH [of "n div 10"] False by (simp add: decimal.simps [of n])
  qed (simp add: decimal.simps)
qed simp

end
