(* ===== verification/Node.thy ===== *)
theory Node
  imports Prelude
begin

text \<open>
  The nodes of the skip list and the heap they live in (\<open>src/storage/Node.h\<close>).

  An address is a number; a heap maps the allocated addresses to nodes. \<open>_forward\<close> is the
  array of next pointers, one per level, \<open>None\<close> being \<open>nullptr\<close>. Reading or writing a pointer of
  a node checks that the node is allocated and that the index is inside its array. The lemmas
  describe a level of the list as a chain of addresses (\<open>linked\<close>) and say what inserting a node
  into a chain and unlinking one from it do to that chain.
\<close>

section \<open>Nodes and the heap\<close>

type_synonym addr = nat

record ('k, 'v) node =
  node_key :: 'k
  node_value :: 'v
  node_level :: nat
  node_forward :: "addr option list"

type_synonym ('k, 'v) heap = "addr \<rightharpoonup> ('k, 'v) node"

definition Node :: "'k \<Rightarrow> 'v \<Rightarrow> nat \<Rightarrow> ('k, 'v) node" where
  "Node k v level =
     \<lparr>node_key = k, node_value = v, node_level = level, node_forward = replicate (level + 1) None\<rparr>"

definition deref :: "('k, 'v) heap \<Rightarrow> addr \<Rightarrow> ('k, 'v) node outcome" where
  "deref h a = (case h a of None \<Rightarrow> fail Bad_pointer | Some n \<Rightarrow> ret n)"

definition deref_ptr :: "addr option \<Rightarrow> addr outcome" where
  "deref_ptr p = (case p of None \<Rightarrow> fail Null_pointer | Some a \<Rightarrow> ret a)"

definition getKey :: "('k, 'v) heap \<Rightarrow> addr \<Rightarrow> 'k outcome" where
  "getKey h a = obind (deref h a) (\<lambda>n. ret (node_key n))"

definition getValue :: "('k, 'v) heap \<Rightarrow> addr \<Rightarrow> 'v outcome" where
  "getValue h a = obind (deref h a) (\<lambda>n. ret (node_value n))"

definition setValue :: "('k, 'v) heap \<Rightarrow> addr \<Rightarrow> 'v \<Rightarrow> ('k, 'v) heap outcome" where
  "setValue h a v = obind (deref h a) (\<lambda>n. ret (h(a \<mapsto> n\<lparr>node_value := v\<rparr>)))"

definition get_forward :: "('k, 'v) heap \<Rightarrow> addr \<Rightarrow> nat \<Rightarrow> addr option outcome" where
  "get_forward h a i =
     obind (deref h a) (\<lambda>n.
       if i < length (node_forward n) then ret (node_forward n ! i) else fail Out_of_range)"

definition set_forward ::
  "('k, 'v) heap \<Rightarrow> addr \<Rightarrow> nat \<Rightarrow> addr option \<Rightarrow> ('k, 'v) heap outcome" where
  "set_forward h a i p =
     obind (deref h a) (\<lambda>n.
       if i < length (node_forward n)
       then ret (h(a \<mapsto> n\<lparr>node_forward := (node_forward n)[i := p]\<rparr>))
       else fail Out_of_range)"

section \<open>Total views of a heap\<close>

text \<open>
  \<open>nxt\<close> is the next pointer of a node at a level (null where the node or the level does not
  exist), \<open>shape\<close> is all a heap says of a node apart from its pointers.
\<close>

definition nxt :: "('k, 'v) heap \<Rightarrow> nat \<Rightarrow> addr \<Rightarrow> addr option" where
  "nxt h i a = (case h a of None \<Rightarrow> None
     | Some n \<Rightarrow> if i < length (node_forward n) then node_forward n ! i else None)"

definition shape :: "('k, 'v) heap \<Rightarrow> addr \<Rightarrow> ('k \<times> 'v \<times> nat \<times> nat) option" where
  "shape h a =
     map_option (\<lambda>n. (node_key n, node_value n, node_level n, length (node_forward n))) (h a)"

definition key_at :: "('k, 'v) heap \<Rightarrow> addr \<Rightarrow> 'k" where
  "key_at h a = fst (the (shape h a))"

definition val_at :: "('k, 'v) heap \<Rightarrow> addr \<Rightarrow> 'v" where
  "val_at h a = fst (snd (the (shape h a)))"

definition level_at :: "('k, 'v) heap \<Rightarrow> addr \<Rightarrow> nat" where
  "level_at h a = fst (snd (snd (the (shape h a))))"

text \<open>A node whose pointer array has one slot per level, levels \<open>0\<close> to \<open>_nodeLevel\<close>.\<close>

definition node_ok :: "('k, 'v) heap \<Rightarrow> addr \<Rightarrow> bool" where
  "node_ok h a = (case h a of None \<Rightarrow> False | Some n \<Rightarrow> length (node_forward n) = node_level n + 1)"

lemma shape_dom: "shape h' = shape h \<Longrightarrow> dom h' = dom h"
  unfolding shape_def fun_eq_iff dom_def by (metis (no_types, lifting) option.map_disc_iff)

lemma shape_cong:
  assumes "shape h' = shape h"
  shows "key_at h' = key_at h" and "val_at h' = val_at h" and "level_at h' = level_at h"
  using assms by (simp_all add: fun_eq_iff key_at_def val_at_def level_at_def)

lemma node_ok_shape:
  "node_ok h a \<longleftrightarrow> (\<exists>k v l. shape h a = Some (k, v, l, l + 1))"
  by (cases "h a") (auto simp: node_ok_def shape_def)

lemma node_ok_allocated: "node_ok h a \<Longrightarrow> a \<in> dom h"
  by (auto simp: node_ok_def split: option.splits)

lemma shape_update: "shape (h(a \<mapsto> n)) =
    (shape h)(a \<mapsto> (node_key n, node_value n, node_level n, length (node_forward n)))"
  by (auto simp: shape_def fun_eq_iff)

lemma shape_delete: "shape (h(a := None)) = (shape h)(a := None)"
  by (auto simp: shape_def fun_eq_iff)

lemma nxt_delete: "nxt (h(a := None)) i = (nxt h i)(a := None)"
  by (auto simp: nxt_def fun_eq_iff)

lemma nxt_new: "nxt (h(a \<mapsto> Node k v l)) i = (nxt h i)(a := None)"
  by (auto simp: nxt_def fun_eq_iff Node_def nth_Cons split: nat.splits)

lemma shape_new: "shape (h(a \<mapsto> Node k v l)) = (shape h)(a \<mapsto> (k, v, l, l + 1))"
  by (simp add: shape_update Node_def)

section \<open>The accessors on well-formed nodes\<close>

lemma getKey_ok: "node_ok h a \<Longrightarrow> getKey h a = ret (key_at h a)"
  by (auto simp: getKey_def deref_def node_ok_def key_at_def shape_def split: option.splits)

lemma getValue_ok: "node_ok h a \<Longrightarrow> getValue h a = ret (val_at h a)"
  by (auto simp: getValue_def deref_def node_ok_def val_at_def shape_def split: option.splits)

lemma get_forward_ok:
  "node_ok h a \<Longrightarrow> i \<le> level_at h a \<Longrightarrow> get_forward h a i = ret (nxt h i a)"
  by (auto simp: get_forward_def deref_def node_ok_def level_at_def shape_def nxt_def
      split: option.splits)

lemma set_forward_ok:
  assumes "node_ok h a" and "i \<le> level_at h a"
  obtains h' where "set_forward h a i p = ret h'" and "shape h' = shape h"
    and "\<And>j. nxt h' j = (if j = i then (nxt h i)(a := p) else nxt h j)"
proof -
  from assms(1) obtain n where n: "h a = Some n" "length (node_forward n) = node_level n + 1"
    by (auto simp: node_ok_def split: option.splits)
  with assms(2) have i: "i < length (node_forward n)"
    by (simp add: level_at_def shape_def)
  let ?h = "h(a \<mapsto> n\<lparr>node_forward := (node_forward n)[i := p]\<rparr>)"
  show thesis
  proof (rule that)
    show "set_forward h a i p = ret ?h"
      using n i by (simp add: set_forward_def deref_def)
    show "shape ?h = shape h"
      using n by (auto simp: shape_def fun_eq_iff)
    show "nxt ?h j = (if j = i then (nxt h i)(a := p) else nxt h j)" for j
      using n i by (auto simp: nxt_def fun_eq_iff nth_list_update)
  qed
qed

lemma setValue_ok:
  assumes "node_ok h a"
  obtains h' where "setValue h a v = ret h'"
    and "\<And>i. nxt h' i = nxt h i"
    and "shape h' = (shape h)(a \<mapsto> (key_at h a, v, level_at h a, level_at h a + 1))"
proof -
  from assms obtain n where n: "h a = Some n" "length (node_forward n) = node_level n + 1"
    by (auto simp: node_ok_def split: option.splits)
  let ?h = "h(a \<mapsto> n\<lparr>node_value := v\<rparr>)"
  show thesis
  proof (rule that)
    show "setValue h a v = ret ?h" using n by (simp add: setValue_def deref_def)
    show "nxt ?h i = nxt h i" for i using n by (auto simp: nxt_def fun_eq_iff)
    show "shape ?h = (shape h)(a \<mapsto> (key_at h a, v, level_at h a, level_at h a + 1))"
      using n by (auto simp: shape_def fun_eq_iff key_at_def level_at_def)
  qed
qed

section \<open>Chains\<close>

text \<open>
  \<open>linked f (a # as)\<close>: following \<open>f\<close> from \<open>a\<close> visits \<open>as\<close> in order and ends in a null pointer.
\<close>

fun linked :: "(addr \<Rightarrow> addr option) \<Rightarrow> addr list \<Rightarrow> bool" where
  "linked f [] = True"
| "linked f [a] = (f a = None)"
| "linked f (a # b # as) = (f a = Some b \<and> linked f (b # as))"

lemma linked_Cons:
  "linked f (a # as) \<longleftrightarrow> (case as of [] \<Rightarrow> f a = None | b # _ \<Rightarrow> f a = Some b) \<and> linked f as"
  by (cases as) auto

lemma linked_suffix: "linked f (us @ vs) \<Longrightarrow> linked f vs"
  by (induction us) (auto simp: linked_Cons)

lemma linked_next:
  "linked f (us @ a # vs) \<Longrightarrow> f a = (case vs of [] \<Rightarrow> None | b # _ \<Rightarrow> Some b)"
  by (drule linked_suffix) (auto simp: linked_Cons split: list.splits)

lemma linked_cong: "(\<And>a. a \<in> set as \<Longrightarrow> f a = g a) \<Longrightarrow> linked f as = linked g as"
  by (induction f as rule: linked.induct) auto

lemma linked_fun_upd [simp]: "a \<notin> set as \<Longrightarrow> linked (f(a := p)) as = linked f as"
  by (rule linked_cong) auto

lemma linked_insert:
  assumes "linked f (us @ p # vs)" and "distinct (us @ p # vs)" and "x \<notin> set (us @ p # vs)"
  shows "linked (f(x := f p, p := Some x)) (us @ p # x # vs)"
  using assms
proof (induction us)
  case Nil
  then have "linked (f(x := f p, p := Some x)) vs = linked f vs"
    by (intro linked_cong) auto
  with Nil show ?case by (cases vs) (simp_all add: fun_upd_def del: linked_fun_upd)
next
  case (Cons u us)
  then show ?case by (cases us) (auto simp: linked_Cons)
qed

lemma linked_remove:
  assumes "linked f (us @ p # x # vs)" and "distinct (us @ p # x # vs)"
  shows "linked (f(p := f x)) (us @ p # vs)"
  using assms
proof (induction us)
  case Nil
  then have "linked (f(p := f x)) vs = linked f vs"
    by (intro linked_cong) auto
  with Nil show ?case by (cases vs) (simp_all add: fun_upd_def del: linked_fun_upd)
next
  case (Cons u us)
  then show ?case by (cases us) (auto simp: linked_Cons)
qed

end
