(* ===== verification/SkipList.thy ===== *)
theory SkipList
  imports Node
begin

text \<open>
  The in-memory skip list (\<open>src/storage/SkipList.h\<close>): its state, \<open>insertElement\<close>,
  \<open>deleteElement\<close>, \<open>searchElement\<close>, \<open>size\<close>, \<open>getRandomLevel\<close>, the constructor and the
  destructor, over the heap of theory \<open>Node\<close>.

  The \<open>for\<close> loops over levels are recursions over the list of the loop's indices, the walk along
  one level is a \<open>partial_function\<close> (a cyclic chain would not return). \<open>rand()\<close> is the list of the
  values its next calls return; a call with no value left is one whose loop has not ended. The
  global mutex \<open>mtx\<close> is a flag: locking it while it is held does not return.
\<close>

section \<open>State\<close>

record ('k, 'v) skiplist =
  maxLevel :: nat
  curLevel :: nat
  headerNode :: addr
  elementCount :: int
  mem :: "('k, 'v) heap"
  brk :: addr              \<comment> \<open>the next address the allocator hands out\<close>
  mtx_held :: bool
  rands :: "int list"

definition SkipList :: "nat \<Rightarrow> 'k \<Rightarrow> 'v \<Rightarrow> int list \<Rightarrow> ('k, 'v) skiplist" where
  "SkipList max_level k v rs =
     \<lparr>maxLevel = max_level, curLevel = 0, headerNode = 0, elementCount = 0,
      mem = [0 \<mapsto> Node k v max_level], brk = 1, mtx_held = False, rands = rs\<rparr>"

definition destroy :: "('k, 'v) skiplist \<Rightarrow> ('k, 'v) skiplist" where
  "destroy s = s\<lparr>mem := (mem s)(headerNode s := None)\<rparr>"

definition sl_size :: "('k, 'v) skiplist \<Rightarrow> int" where
  "sl_size s = elementCount s"

definition createNode :: "'k \<Rightarrow> 'v \<Rightarrow> nat \<Rightarrow> ('k, 'v) skiplist \<Rightarrow> addr \<times> ('k, 'v) skiplist" where
  "createNode k v level s = (brk s, s\<lparr>mem := (mem s)(brk s \<mapsto> Node k v level), brk := Suc (brk s)\<rparr>)"

definition lock_mtx :: "('k, 'v) skiplist \<Rightarrow> ('k, 'v) skiplist outcome" where
  "lock_mtx s = (if mtx_held s then None else ret (s\<lparr>mtx_held := True\<rparr>))"

definition unlock_mtx :: "('k, 'v) skiplist \<Rightarrow> ('k, 'v) skiplist" where
  "unlock_mtx s = s\<lparr>mtx_held := False\<rparr>"

section \<open>Random levels\<close>

fun random_loop :: "int list \<Rightarrow> nat \<Rightarrow> (nat \<times> int list) outcome" where
  "random_loop [] k = None"
| "random_loop (r # rs) k = (if r mod 2 \<noteq> 0 then random_loop rs (Suc k) else ret (k, rs))"

definition getRandomLevel :: "('k, 'v) skiplist \<Rightarrow> (nat \<times> ('k, 'v) skiplist) outcome" where
  "getRandomLevel s =
     obind (random_loop (rands s) 0) (\<lambda>(k, rs).
       ret (if k < maxLevel s then k else maxLevel s, s\<lparr>rands := rs\<rparr>))"

section \<open>Walking down the levels\<close>

partial_function (option) walk ::
  "('k::linorder, 'v) heap \<Rightarrow> 'k \<Rightarrow> nat \<Rightarrow> addr \<Rightarrow> addr outcome" where
  "walk h key i current =
     (case get_forward h current i of
        None \<Rightarrow> None
      | Some (Inl e) \<Rightarrow> fail e
      | Some (Inr None) \<Rightarrow> ret current
      | Some (Inr (Some b)) \<Rightarrow>
          (case getKey h b of
             None \<Rightarrow> None
           | Some (Inl e) \<Rightarrow> fail e
           | Some (Inr k) \<Rightarrow> if k < key then walk h key i b else ret current))"

declare walk.simps [code]

definition read_update :: "addr option list \<Rightarrow> nat \<Rightarrow> addr outcome" where
  "read_update update i = (if i < length update then deref_ptr (update ! i) else fail Out_of_range)"

definition write_update :: "addr option list \<Rightarrow> nat \<Rightarrow> addr \<Rightarrow> addr option list outcome" where
  "write_update update i a =
     (if i < length update then ret (update[i := Some a]) else fail Out_of_range)"

text \<open>
  \<open>descend h key n current update\<close> runs the outer loop of \<open>insertElement\<close> and \<open>deleteElement\<close> for
  \<open>i = n - 1\<close> down to \<open>0\<close>; \<open>descend_search\<close> is the loop of \<open>searchElement\<close>, which records nothing.
\<close>

fun descend :: "('k::linorder, 'v) heap \<Rightarrow> 'k \<Rightarrow> nat \<Rightarrow> addr \<Rightarrow> addr option list
    \<Rightarrow> (addr \<times> addr option list) outcome" where
  "descend h key 0 current update = ret (current, update)"
| "descend h key (Suc i) current update =
     obind (walk h key i current) (\<lambda>c.
     obind (write_update update i c) (\<lambda>u. descend h key i c u))"

fun descend_search :: "('k::linorder, 'v) heap \<Rightarrow> 'k \<Rightarrow> nat \<Rightarrow> addr \<Rightarrow> addr outcome" where
  "descend_search h key 0 current = ret current"
| "descend_search h key (Suc i) current =
     obind (walk h key i current) (\<lambda>c. descend_search h key i c)"

text \<open>\<open>current != nullptr && current->getKey() == key\<close>\<close>

definition has_key :: "('k, 'v) heap \<Rightarrow> addr option \<Rightarrow> 'k \<Rightarrow> bool outcome" where
  "has_key h p key = (case p of None \<Rightarrow> ret False | Some a \<Rightarrow> obind (getKey h a) (\<lambda>k. ret (k = key)))"

section \<open>Insertion\<close>

fun fill_update :: "addr \<Rightarrow> nat list \<Rightarrow> addr option list \<Rightarrow> addr option list outcome" where
  "fill_update hdr [] update = ret update"
| "fill_update hdr (i # is) update = obind (write_update update i hdr) (fill_update hdr is)"

fun link :: "('k, 'v) heap \<Rightarrow> addr \<Rightarrow> addr option list \<Rightarrow> nat list \<Rightarrow> ('k, 'v) heap outcome" where
  "link h x update [] = ret h"
| "link h x update (i # is) =
     obind (read_update update i) (\<lambda>u.
     obind (get_forward h u i) (\<lambda>p.
     obind (set_forward h x i p) (\<lambda>h1.
     obind (set_forward h1 u i (Some x)) (\<lambda>h2. link h2 x update is))))"

definition insertElement ::
  "'k::linorder \<Rightarrow> 'v \<Rightarrow> ('k, 'v) skiplist \<Rightarrow> (int \<times> ('k, 'v) skiplist) outcome" where
  "insertElement key value s0 =
     obind (lock_mtx s0) (\<lambda>s.
     obind (descend (mem s) key (curLevel s + 1) (headerNode s) (replicate (maxLevel s + 1) None))
       (\<lambda>(current, update).
     obind (get_forward (mem s) current 0) (\<lambda>p.
     obind (has_key (mem s) p key) (\<lambda>exists.
     if exists then
       obind (deref_ptr p) (\<lambda>a.
       obind (setValue (mem s) a value) (\<lambda>h. ret (1, unlock_mtx (s\<lparr>mem := h\<rparr>))))
     else
       obind (getRandomLevel s) (\<lambda>(random_level, s1).
       obind (if random_level > curLevel s1
              then obind (fill_update (headerNode s1) [curLevel s1 + 1 ..< random_level + 1] update)
                     (\<lambda>u. ret (u, s1\<lparr>curLevel := random_level\<rparr>))
              else ret (update, s1)) (\<lambda>(update, s2).
       let (insert_node, s3) = createNode key value random_level s2 in
       obind (link (mem s3) insert_node update [0 ..< random_level + 1]) (\<lambda>h.
       ret (0, unlock_mtx (s3\<lparr>mem := h, elementCount := elementCount s3 + 1\<rparr>)))))))))"

section \<open>Deletion\<close>

fun unlink :: "('k, 'v) heap \<Rightarrow> addr \<Rightarrow> addr option list \<Rightarrow> nat list \<Rightarrow> ('k, 'v) heap outcome" where
  "unlink h x update [] = ret h"
| "unlink h x update (i # is) =
     obind (read_update update i) (\<lambda>u.
     obind (get_forward h u i) (\<lambda>p.
     if p \<noteq> Some x then ret h
     else
       obind (get_forward h x i) (\<lambda>q.
       obind (set_forward h u i q) (\<lambda>h'. unlink h' x update is))))"

fun shrink :: "('k, 'v) heap \<Rightarrow> addr \<Rightarrow> nat \<Rightarrow> nat outcome" where
  "shrink h hdr 0 = ret 0"
| "shrink h hdr (Suc l) =
     obind (get_forward h hdr (Suc l)) (\<lambda>p. if p = None then shrink h hdr l else ret (Suc l))"

definition deleteElement ::
  "'k::linorder \<Rightarrow> ('k, 'v) skiplist \<Rightarrow> (bool \<times> ('k, 'v) skiplist) outcome" where
  "deleteElement key s0 =
     obind (lock_mtx s0) (\<lambda>s.
     obind (descend (mem s) key (curLevel s + 1) (headerNode s) (replicate (maxLevel s + 1) None))
       (\<lambda>(current, update).
     obind (get_forward (mem s) current 0) (\<lambda>p.
     obind (has_key (mem s) p key) (\<lambda>exists.
     if exists then
       obind (deref_ptr p) (\<lambda>x.
       obind (unlink (mem s) x update [0 ..< curLevel s + 1]) (\<lambda>h.
       let h' = h(x := None) in
       obind (shrink h' (headerNode s) (curLevel s)) (\<lambda>l.
       ret (True, unlock_mtx (s\<lparr>mem := h', curLevel := l, elementCount := elementCount s - 1\<rparr>)))))
     else ret (False, unlock_mtx s)))))"

section \<open>Search\<close>

text \<open>The reference parameter \<open>value\<close> is passed in and returned: a miss leaves it as it was.\<close>

definition searchElement ::
  "'k::linorder \<Rightarrow> 'v \<Rightarrow> ('k, 'v) skiplist \<Rightarrow> (bool \<times> 'v) outcome" where
  "searchElement key value s =
     obind (descend_search (mem s) key (curLevel s + 1) (headerNode s)) (\<lambda>c.
     obind (get_forward (mem s) c 0) (\<lambda>p.
     obind (has_key (mem s) p key) (\<lambda>exists.
     if exists then
       obind (deref_ptr p) (\<lambda>a. obind (getValue (mem s) a) (\<lambda>v. ret (True, v)))
     else ret (False, value))))"

end
