(* ===== verification/SkipList_Levels.thy ===== *)
theory SkipList_Levels
  imports SkipList
begin

text \<open>
  The levels of a well-formed skip list and what the loops of \<open>SkipList.h\<close> do on them.

  \<open>chains h hdr m as\<close> says that the addresses \<open>as\<close> are strictly sorted by key and that, at every
  level up to \<open>m\<close>, following the forward pointers from the header visits exactly the addresses of
  \<open>as\<close> whose node reaches that level. Under it, \<open>pred\<close> names the last node of a level below a
  key, and \<open>descend\<close>, \<open>link\<close>, \<open>unlink\<close> and \<open>shrink\<close> return without a fault what the proofs of the
  operations need.
\<close>

section \<open>Chains of all levels\<close>

definition level_list :: "('k, 'v) heap \<Rightarrow> addr list \<Rightarrow> nat \<Rightarrow> addr list" where
  "level_list h as i = filter (\<lambda>a. i \<le> level_at h a) as"

definition chains :: "('k::linorder, 'v) heap \<Rightarrow> addr \<Rightarrow> nat \<Rightarrow> addr list \<Rightarrow> bool" where
  "chains h hdr m as \<longleftrightarrow>
     hdr \<notin> set as \<and> (\<forall>a \<in> insert hdr (set as). node_ok h a) \<and> level_at h hdr = m \<and>
     (\<forall>a \<in> set as. level_at h a \<le> m) \<and>
     sorted_wrt (\<lambda>a b. key_at h a < key_at h b) as \<and>
     (\<forall>i \<le> m. linked (nxt h i) (hdr # level_list h as i))"

definition pred :: "('k::linorder, 'v) heap \<Rightarrow> addr \<Rightarrow> addr list \<Rightarrow> 'k \<Rightarrow> nat \<Rightarrow> addr" where
  "pred h hdr as key i = last (hdr # takeWhile (\<lambda>a. key_at h a < key) (level_list h as i))"

definition rest :: "('k::linorder, 'v) heap \<Rightarrow> addr list \<Rightarrow> 'k \<Rightarrow> nat \<Rightarrow> addr list" where
  "rest h as key i = dropWhile (\<lambda>a. key_at h a < key) (level_list h as i)"

lemma level_list_0 [simp]: "level_list h as 0 = as"
  by (simp add: level_list_def)

lemma set_level_list: "set (level_list h as i) = {a \<in> set as. i \<le> level_at h a}"
  by (auto simp: level_list_def)

lemma level_list_sorted:
  "chains h hdr m as \<Longrightarrow> sorted_wrt (\<lambda>a b. key_at h a < key_at h b) (level_list h as i)"
  by (simp add: chains_def level_list_def sorted_wrt_filter)

lemma sorted_key_distinct:
  "sorted_wrt (\<lambda>a b. f a < (f b :: 'k::linorder)) as \<Longrightarrow> distinct as"
  by (induction as) auto

lemma sorted_key_inj:
  assumes "sorted_wrt (\<lambda>a b. f a < (f b :: 'k::linorder)) as"
    and "a \<in> set as" and "b \<in> set as" and "f a = f b"
  shows "a = b"
proof -
  have "sorted_wrt (<) (map f as)" using assms(1) by (simp add: sorted_wrt_map)
  then have "distinct (map f as)" by (simp add: strict_sorted_iff)
  then show ?thesis using assms(2-) by (auto simp: distinct_map dest: inj_onD)
qed

lemma chains_distinct: "chains h hdr m as \<Longrightarrow> distinct (hdr # level_list h as i)"
  by (auto simp: chains_def level_list_def dest: sorted_key_distinct)

lemma chains_node:
  assumes "chains h hdr m as" and "i \<le> m" and "a \<in> insert hdr (set (level_list h as i))"
  shows "node_ok h a" and "i \<le> level_at h a"
  using assms by (auto simp: chains_def level_list_def)

lemma pred_in: "pred h hdr as key i \<in> insert hdr (set (level_list h as i))"
proof -
  have "pred h hdr as key i \<in> set (hdr # takeWhile (\<lambda>a. key_at h a < key) (level_list h as i))"
    unfolding pred_def by (rule last_in_set) simp
  then show ?thesis by (auto dest: set_takeWhileD)
qed

lemma pred_below: "pred h hdr as key i \<noteq> hdr \<Longrightarrow> key_at h (pred h hdr as key i) < key"
proof -
  assume "pred h hdr as key i \<noteq> hdr"
  moreover have "pred h hdr as key i \<in> set (hdr # takeWhile (\<lambda>a. key_at h a < key) (level_list h as i))"
    unfolding pred_def by (rule last_in_set) simp
  ultimately show ?thesis by (auto dest: set_takeWhileD)
qed

text \<open>The chain of a level, split at the predecessor of a key.\<close>

lemma level_split:
  obtains us where "hdr # level_list h as i = us @ pred h hdr as key i # rest h as key i"
    and "us @ [pred h hdr as key i] = hdr # takeWhile (\<lambda>a. key_at h a < key) (level_list h as i)"
proof
  let ?T = "hdr # takeWhile (\<lambda>a. key_at h a < key) (level_list h as i)"
  show eq: "butlast ?T @ [pred h hdr as key i] = ?T"
    unfolding pred_def by (rule append_butlast_last_id) simp
  have "hdr # level_list h as i = ?T @ rest h as key i"
    by (simp add: rest_def)
  then show "hdr # level_list h as i = butlast ?T @ pred h hdr as key i # rest h as key i"
    by (metis append.assoc append_Cons append_Nil eq)
qed

lemma pred_next:
  assumes "chains h hdr m as" and "i \<le> m"
  shows "nxt h i (pred h hdr as key i) = (case rest h as key i of [] \<Rightarrow> None | b # _ \<Rightarrow> Some b)"
proof -
  from assms have "linked (nxt h i) (hdr # level_list h as i)" by (simp add: chains_def)
  then show ?thesis by (metis level_split linked_next)
qed

lemma pred_forward:
  assumes "chains h hdr m as" and "i \<le> m"
  shows "get_forward h (pred h hdr as key i) i =
           ret (case rest h as key i of [] \<Rightarrow> None | b # _ \<Rightarrow> Some b)"
  using chains_node [OF assms pred_in] by (simp add: get_forward_ok pred_next [OF assms])

section \<open>Walking\<close>

lemma walk_linked:
  assumes "linked (nxt h i) (c # as)" and "\<forall>a \<in> set (c # as). node_ok h a \<and> i \<le> level_at h a"
  shows "walk h key i c = ret (last (c # takeWhile (\<lambda>a. key_at h a < key) as))"
  using assms
proof (induction as arbitrary: c)
  case Nil
  then have "get_forward h c i = ret None" by (simp add: get_forward_ok)
  then show ?case by (subst walk.simps) (simp add: ret_def)
next
  case (Cons b as)
  then have "get_forward h c i = ret (Some b)" and "getKey h b = ret (key_at h b)"
    by (simp_all add: get_forward_ok getKey_ok)
  with Cons show ?case by (subst walk.simps) (auto simp: ret_def)
qed

lemma walk_level:
  assumes ch: "chains h hdr m as" and i: "i \<le> m"
    and c: "c \<in> insert hdr (set (level_list h as i))" and below: "c \<noteq> hdr \<Longrightarrow> key_at h c < key"
  shows "walk h key i c = ret (pred h hdr as key i)"
proof -
  let ?L = "level_list h as i"
  from c have "c \<in> set (hdr # ?L)" by simp
  then obtain us vs where eq: "hdr # ?L = us @ c # vs" by (meson split_list)
  have lt: "us \<noteq> [] \<longrightarrow> (\<forall>a \<in> set (tl us) \<union> {c}. key_at h a < key)"
  proof
    assume "us \<noteq> []"
    then obtain us' where us: "us = hdr # us'" using eq by (cases us) auto
    with eq have L: "?L = us' @ c # vs" by simp
    then have "c \<noteq> hdr" using chains_distinct [OF ch, of i] by auto
    moreover have "\<forall>a \<in> set us'. key_at h a < key_at h c"
      using level_list_sorted [OF ch, of i] by (simp add: L sorted_wrt_append)
    ultimately show "\<forall>a \<in> set (tl us) \<union> {c}. key_at h a < key"
      using below us by auto
  qed
  have "linked (nxt h i) (us @ c # vs)" using ch i eq by (auto simp: chains_def)
  then have "linked (nxt h i) (c # vs)" by (rule linked_suffix)
  moreover have "\<forall>a \<in> set (c # vs). node_ok h a \<and> i \<le> level_at h a"
  proof
    fix a assume "a \<in> set (c # vs)"
    then have "a \<in> set (hdr # ?L)" unfolding eq by auto
    then show "node_ok h a \<and> i \<le> level_at h a" using chains_node [OF ch i] by simp
  qed
  ultimately have "walk h key i c = ret (last (c # takeWhile (\<lambda>a. key_at h a < key) vs))"
    by (rule walk_linked)
  then show ?thesis
    unfolding pred_def using last_takeWhile_split [OF eq lt] by simp
qed

lemma level_list_mono: "a \<in> set (level_list h as (Suc i)) \<Longrightarrow> a \<in> set (level_list h as i)"
  by (auto simp: level_list_def)

text \<open>The position a walk may start from at level \<open>n - 1\<close>: the header or a smaller node of level \<open>n\<close>.\<close>

definition start_ok :: "('k::linorder, 'v) heap \<Rightarrow> addr \<Rightarrow> addr list \<Rightarrow> 'k \<Rightarrow> nat \<Rightarrow> addr \<Rightarrow> bool" where
  "start_ok h hdr as key n c \<longleftrightarrow>
     c \<in> insert hdr (set (level_list h as n)) \<and> (c \<noteq> hdr \<longrightarrow> key_at h c < key)"

lemma start_ok_header [simp]: "start_ok h hdr as key n hdr"
  by (simp add: start_ok_def)

lemma start_ok_pred [simp]: "start_ok h hdr as key n (pred h hdr as key n)"
  using pred_in [of h hdr as key n] pred_below [of h hdr as key n] by (auto simp: start_ok_def)

lemma walk_start:
  assumes "chains h hdr m as" and "i \<le> m" and "start_ok h hdr as key (Suc i) c"
  shows "walk h key i c = ret (pred h hdr as key i)"
  using assms by (intro walk_level) (auto simp: start_ok_def dest: level_list_mono)

lemma descend_chains:
  assumes "chains h hdr m as" and "n \<le> Suc m" and "length up = Suc m" and "start_ok h hdr as key n c"
  shows "descend h key n c up =
     ret (if n = 0 then c else pred h hdr as key 0,
          map (\<lambda>j. if j < n then Some (pred h hdr as key j) else up ! j) [0 ..< Suc m])"
  using assms(2-)
proof (induction n arbitrary: c up)
  case 0
  then show ?case by (simp add: map_nth del: upt_Suc) (metis map_nth)
next
  case (Suc n)
  let ?up = "up[n := Some (pred h hdr as key n)]"
  have w: "walk h key n c = ret (pred h hdr as key n)"
    using Suc.prems by (intro walk_start [OF assms(1)]) auto
  have "descend h key (Suc n) c up = descend h key n (pred h hdr as key n) ?up"
    using Suc.prems by (simp add: w write_update_def)
  also have "\<dots> = ret (pred h hdr as key 0,
      map (\<lambda>j. if j < n then Some (pred h hdr as key j) else ?up ! j) [0 ..< Suc m])"
    using Suc.prems by (subst Suc.IH) auto
  also have "map (\<lambda>j. if j < n then Some (pred h hdr as key j) else ?up ! j) [0 ..< Suc m] =
      map (\<lambda>j. if j < Suc n then Some (pred h hdr as key j) else up ! j) [0 ..< Suc m]"
    using Suc.prems by (auto simp: nth_list_update less_Suc_eq simp del: upt_Suc)
  finally show ?case by simp
qed

lemma descend_search_chains:
  assumes "chains h hdr m as" and "n \<le> Suc m" and "start_ok h hdr as key n c"
  shows "descend_search h key n c = ret (if n = 0 then c else pred h hdr as key 0)"
  using assms(2-)
proof (induction n arbitrary: c)
  case 0
  then show ?case by simp
next
  case (Suc n)
  then have "walk h key n c = ret (pred h hdr as key n)"
    by (intro walk_start [OF assms(1)]) auto
  with Suc show ?case by simp
qed

section \<open>The key test at level 0\<close>

lemma rest_key:
  assumes "chains h hdr m as"
  shows "(case rest h as key 0 of [] \<Rightarrow> False | b # _ \<Rightarrow> key_at h b = key) \<longleftrightarrow> key \<in> key_at h ` set as"
proof (cases "rest h as key 0")
  case Nil
  then have "\<forall>a \<in> set as. key_at h a < key" by (simp add: rest_def dropWhile_eq_Nil_conv)
  with Nil show ?thesis by auto
next
  case (Cons b bs)
  let ?P = "\<lambda>a. key_at h a < key"
  have as: "as = takeWhile ?P as @ b # bs"
    using Cons by (metis level_list_0 rest_def takeWhile_dropWhile_id)
  have b: "\<not> key_at h b < key"
    using Cons by (metis dropWhile_eq_Cons_conv rest_def)
  have "sorted_wrt (\<lambda>a b. key_at h a < key_at h b) (takeWhile ?P as @ b # bs)"
    using assms by (simp add: chains_def flip: as)
  then have "\<forall>a \<in> set bs. key_at h b < key_at h a"
    by (simp add: sorted_wrt_append)
  then have "\<forall>a \<in> set bs. key_at h a \<noteq> key" using b by auto
  moreover have "\<forall>a \<in> set (takeWhile ?P as). key_at h a \<noteq> key" by (auto dest: set_takeWhileD)
  moreover have "set as = set (takeWhile ?P as) \<union> insert b (set bs)"
    by (metis as set_append list.set(2))
  ultimately have "key \<in> key_at h ` set as \<longleftrightarrow> key_at h b = key" by auto
  with Cons show ?thesis by simp
qed

lemma has_key_chains:
  assumes "chains h hdr m as"
  shows "has_key h (case rest h as key 0 of [] \<Rightarrow> None | b # _ \<Rightarrow> Some b) key =
           ret (key \<in> key_at h ` set as)"
proof (cases "rest h as key 0")
  case Nil
  with rest_key [OF assms, of key] show ?thesis by (simp add: has_key_def)
next
  case (Cons b bs)
  then have "b \<in> set as"
    by (metis level_list_0 list.set_intros(1) rest_def set_dropWhileD)
  then have "getKey h b = ret (key_at h b)"
    using assms by (simp add: chains_def getKey_ok)
  with Cons rest_key [OF assms, of key] show ?thesis by (simp add: has_key_def)
qed

section \<open>The loops that change pointers\<close>

lemma fill_update_ok:
  assumes "\<forall>i \<in> set is. i < length up"
  shows "fill_update hdr is up =
           ret (map (\<lambda>j. if j \<in> set is then Some hdr else up ! j) [0 ..< length up])"
  using assms
proof (induction "is" arbitrary: up)
  case Nil
  then show ?case by (simp add: map_nth)
next
  case (Cons i "is")
  then have "fill_update hdr (i # is) up = fill_update hdr is (up[i := Some hdr])"
    by (simp add: write_update_def)
  also have "\<dots> = ret (map (\<lambda>j. if j \<in> set is then Some hdr else up[i := Some hdr] ! j) [0 ..< length up])"
    using Cons by simp
  finally show ?case
    by (auto simp: nth_list_update intro!: map_cong)
qed

text \<open>Linking a node \<open>x\<close> behind \<open>q i\<close> at each level \<open>i\<close> of a list of levels.\<close>

definition link_ready ::
  "('k, 'v) heap \<Rightarrow> addr \<Rightarrow> (nat \<Rightarrow> addr) \<Rightarrow> addr option list \<Rightarrow> nat \<Rightarrow> bool" where
  "link_ready h x q up i \<longleftrightarrow>
     i < length up \<and> up ! i = Some (q i) \<and> q i \<noteq> x \<and>
     node_ok h (q i) \<and> i \<le> level_at h (q i) \<and> node_ok h x"

lemma link_ready_shape:
  assumes "shape h' = shape h"
  shows "link_ready h' x q up i = link_ready h x q up i"
  by (simp add: link_ready_def node_ok_shape shape_cong [OF assms] assms)

lemma link_ok:
  assumes "distinct is" and "\<forall>i \<in> set is. link_ready h x q up i \<and> i \<le> level_at h x"
  obtains h' where "link h x up is = ret h'" and "shape h' = shape h"
    and "\<And>j. nxt h' j =
           (if j \<in> set is then (nxt h j)(x := nxt h j (q j), q j := Some x) else nxt h j)"
  using assms
proof (induction "is" arbitrary: h thesis)
  case Nil
  then show ?case by simp
next
  case (Cons i "is")
  then have ready: "link_ready h x q up i" and ix: "i \<le> level_at h x" by auto
  then have x: "node_ok h x" and q: "node_ok h (q i)" "i \<le> level_at h (q i)" "q i \<noteq> x"
    and up: "read_update up i = ret (q i)"
    by (simp_all add: link_ready_def read_update_def deref_ptr_def)
  obtain h1 where h1: "set_forward h x i (nxt h i (q i)) = ret h1" "shape h1 = shape h"
    "\<And>j. nxt h1 j = (if j = i then (nxt h i)(x := nxt h i (q i)) else nxt h j)"
    using set_forward_ok [OF x ix] by metis
  have "node_ok h1 (q i)" and "i \<le> level_at h1 (q i)"
    using q h1(2) by (simp_all add: node_ok_shape shape_cong [OF h1(2)])
  then obtain h2 where h2: "set_forward h1 (q i) i (Some x) = ret h2" "shape h2 = shape h1"
    "\<And>j. nxt h2 j = (if j = i then (nxt h1 i)(q i := Some x) else nxt h1 j)"
    using set_forward_ok by metis
  have sh: "shape h2 = shape h" using h1 h2 by simp
  have ready2: "\<forall>j \<in> set is. link_ready h2 x q up j \<and> j \<le> level_at h2 x"
    using Cons.prems(3) by (simp add: link_ready_shape [OF sh] shape_cong [OF sh])
  have dist: "distinct is" and new: "i \<notin> set is" using Cons.prems(2) by simp_all
  obtain h3 where h3: "link h2 x up is = ret h3" "shape h3 = shape h2"
    "\<And>j. nxt h3 j =
       (if j \<in> set is then (nxt h2 j)(x := nxt h2 j (q j), q j := Some x) else nxt h2 j)"
    by (rule Cons.IH [OF _ dist ready2]) (rule that)
  show ?case
  proof (rule Cons.prems(1))
    show "link h x up (i # is) = ret h3"
      using up q h1(1) h2(1) h3(1) by (simp add: get_forward_ok)
    show "shape h3 = shape h" using sh h3(2) by simp
    show "nxt h3 j = (if j \<in> set (i # is) then (nxt h j)(x := nxt h j (q j), q j := Some x) else nxt h j)"
      for j using new by (cases "j = i") (simp_all add: h3(3) h2(3) h1(3))
  qed
qed

text \<open>
  Unlinking \<open>x\<close>, level by level, until the first level whose predecessor does not point to it; the
  levels that do are those up to \<open>l\<close>.
\<close>

lemma unlink_ok:
  assumes "sorted is" and "distinct is" and "\<forall>i \<in> set is. link_ready h x q up i"
    and "\<forall>i \<in> set is. nxt h i (q i) = Some x \<longleftrightarrow> i \<le> l" and "l \<le> level_at h x"
  obtains h' where "unlink h x up is = ret h'" and "shape h' = shape h"
    and "\<And>j. nxt h' j = (if j \<in> set is \<and> j \<le> l then (nxt h j)(q j := nxt h j x) else nxt h j)"
  using assms
proof (induction "is" arbitrary: h thesis)
  case Nil
  then show ?case by simp
next
  case (Cons i "is")
  then have "link_ready h x q up i" by simp
  then have x: "node_ok h x" and q: "node_ok h (q i)" "i \<le> level_at h (q i)"
    and up: "read_update up i = ret (q i)"
    by (simp_all add: link_ready_def read_update_def deref_ptr_def)
  have iff: "nxt h i (q i) = Some x \<longleftrightarrow> i \<le> l" using Cons.prems(5) by simp
  show ?case
  proof (cases "i \<le> l")
    case False
    then have above: "\<forall>j \<in> set (i # is). \<not> j \<le> l" using Cons.prems(2) by auto
    show ?thesis
    proof (rule Cons.prems(1))
      show "unlink h x up (i # is) = ret h"
        using False iff up q by (simp add: get_forward_ok)
    qed (use above in auto)
  next
    case True
    obtain h1 where h1: "set_forward h (q i) i (nxt h i x) = ret h1" "shape h1 = shape h"
      "\<And>j. nxt h1 j = (if j = i then (nxt h i)(q i := nxt h i x) else nxt h j)"
      using set_forward_ok [OF q] by metis
    have "\<forall>j \<in> set is. link_ready h1 x q up j"
      using Cons.prems(4) by (simp add: link_ready_shape [OF h1(2)])
    moreover have "\<forall>j \<in> set is. nxt h1 j (q j) = Some x \<longleftrightarrow> j \<le> l"
      using Cons.prems(3,5) by (auto simp: h1(3))
    ultimately obtain h2 where h2: "unlink h1 x up is = ret h2" "shape h2 = shape h1"
      "\<And>j. nxt h2 j = (if j \<in> set is \<and> j \<le> l then (nxt h1 j)(q j := nxt h1 j x) else nxt h1 j)"
      using Cons.IH [of h1] Cons.prems(2,3,6) by (auto simp: shape_cong [OF h1(2)])
    show ?thesis
    proof (rule Cons.prems(1))
      show "unlink h x up (i # is) = ret h2"
        using True iff up q x h1(1) h2(1) Cons.prems(6) by (simp add: get_forward_ok)
      show "shape h2 = shape h" using h1(2) h2(2) by simp
      show "nxt h2 j = (if j \<in> set (i # is) \<and> j \<le> l then (nxt h j)(q j := nxt h j x) else nxt h j)"
        for j using Cons.prems(3) True by (cases "j = i") (simp_all add: h2(3) h1(3))
    qed
  qed
qed

text \<open>The top level goes down to the highest level that is not empty, or to \<open>0\<close>.\<close>

lemma shrink_ok:
  assumes "node_ok h hdr" and "l \<le> level_at h hdr"
  obtains l' where "shrink h hdr l = ret l'" and "l' \<le> l" and "l' = 0 \<or> nxt h l' hdr \<noteq> None"
    and "\<And>j. l' < j \<Longrightarrow> j \<le> l \<Longrightarrow> nxt h j hdr = None"
  using assms
proof (induction l arbitrary: thesis)
  case 0
  then show ?case by simp
next
  case (Suc l)
  have f: "get_forward h hdr (Suc l) = ret (nxt h (Suc l) hdr)"
    using Suc.prems by (simp add: get_forward_ok)
  show ?case
  proof (cases "nxt h (Suc l) hdr")
    case None
    obtain l' where l': "shrink h hdr l = ret l'" "l' \<le> l" "l' = 0 \<or> nxt h l' hdr \<noteq> None"
      "\<And>j. l' < j \<Longrightarrow> j \<le> l \<Longrightarrow> nxt h j hdr = None"
      using Suc.IH Suc.prems by (metis Suc_leD)
    show ?thesis
      by (rule Suc.prems(1) [of l']) (use f None l' in \<open>auto simp: le_Suc_eq\<close>)
  next
    case (Some b)
    then show ?thesis
      by (intro Suc.prems(1) [of "Suc l"]) (use f in auto)
  qed
qed

end
