(* ===== verification/KV_Contract.thy ===== *)
theory KV_Contract
  imports Prelude
begin

text \<open>
  The contract of a key/value store, which the skip list promises and the file loader and the
  command worker rely on: its contents are a list of pairs sorted by key, \<open>put\<close> and \<open>del\<close> are the
  abstract insertion and deletion on such lists, and the locale \<open>kv_store\<close> states what the three
  operations of a store do to the contents it represents.
\<close>

section \<open>Abstract contents\<close>

fun put :: "'k::linorder \<Rightarrow> 'v \<Rightarrow> ('k \<times> 'v) list \<Rightarrow> ('k \<times> 'v) list" where
  "put k v [] = [(k, v)]"
| "put k v (p # ps) =
     (if fst p < k then p # put k v ps else if fst p = k then (k, v) # ps else (k, v) # p # ps)"

fun del :: "'k::linorder \<Rightarrow> ('k \<times> 'v) list \<Rightarrow> ('k \<times> 'v) list" where
  "del k [] = []"
| "del k (p # ps) = (if fst p < k then p # del k ps else if fst p = k then ps else p # ps)"

abbreviation keys_sorted :: "('k::linorder \<times> 'v) list \<Rightarrow> bool" where
  "keys_sorted \<equiv> sorted_wrt (\<lambda>p q. fst p < fst q)"

lemma set_put_subset: "p \<in> set (put k v xs) \<Longrightarrow> p = (k, v) \<or> p \<in> set xs"
  by (induction xs) (auto split: if_splits)

lemma set_del_subset: "p \<in> set (del k xs) \<Longrightarrow> p \<in> set xs"
  by (induction xs) (auto split: if_splits)

lemma keys_sorted_put [simp]: "keys_sorted xs \<Longrightarrow> keys_sorted (put k v xs)"
  by (induction xs) (auto dest!: set_put_subset dest: less_trans)

lemma keys_sorted_del [simp]: "keys_sorted xs \<Longrightarrow> keys_sorted (del k xs)"
  by (induction xs) (auto dest!: set_del_subset)

lemma keys_above: "keys_sorted (p # xs) \<Longrightarrow> k \<le> fst p \<Longrightarrow> map_of xs k = None"
  by (auto simp: map_of_eq_None_iff)

lemma map_of_put [simp]: "keys_sorted xs \<Longrightarrow> map_of (put k v xs) = (map_of xs)(k \<mapsto> v)"
  by (induction xs) (auto simp: fun_eq_iff)

lemma map_of_del [simp]: "keys_sorted xs \<Longrightarrow> map_of (del k xs) = (map_of xs)(k := None)"
proof (induction xs)
  case (Cons p xs)
  then show ?case using keys_above [OF Cons.prems, of k] by (auto simp: fun_eq_iff)
qed simp

lemma put_sorted_split:
  assumes "\<forall>p \<in> set us. fst p < k" and "\<forall>p \<in> set vs. k < fst p"
  shows "put k v (us @ vs) = us @ (k, v) # vs" and "put k v (us @ (k, w) # vs) = us @ (k, v) # vs"
    and "del k (us @ (k, w) # vs) = us @ vs" and "del k (us @ vs) = us @ vs"
  using assms by (induction us) (cases vs; force)+

lemma map_of_keys: "map_of xs k \<noteq> None \<longleftrightarrow> k \<in> fst ` set xs"
  by (metis map_of_eq_None_iff)

lemma put_put_same [simp]: "keys_sorted xs \<Longrightarrow> put k v (put k v xs) = put k v xs"
  by (induction xs) auto

lemma put_last: "\<forall>p \<in> set xs. fst p < k \<Longrightarrow> put k v xs = xs @ [(k, v)]"
  by (induction xs) auto

lemma fst_set_put [simp]: "fst ` set (put k v xs) = insert k (fst ` set xs)"
  by (induction xs) auto

text \<open>Storing the pairs of a list one after the other.\<close>

definition puts :: "('k::linorder \<times> 'v) list \<Rightarrow> ('k \<times> 'v) list \<Rightarrow> ('k \<times> 'v) list" where
  "puts ps xs = fold (\<lambda>(k, v). put k v) ps xs"

lemma puts_simps [simp]:
  "puts [] xs = xs" "puts ((k, v) # ps) xs = puts ps (put k v xs)"
  by (simp_all add: puts_def)

lemma keys_sorted_puts: "keys_sorted xs \<Longrightarrow> keys_sorted (puts ps xs)"
  by (induction ps arbitrary: xs) auto

lemma map_of_puts: "keys_sorted xs \<Longrightarrow> map_of (puts ps xs) = map_of xs ++ map_of (rev ps)"
  by (induction ps arbitrary: xs) (auto simp: fun_eq_iff map_add_def split: option.splits)

lemma puts_sorted_append: "keys_sorted (xs @ ps) \<Longrightarrow> puts ps xs = xs @ ps"
proof (induction ps arbitrary: xs)
  case (Cons p ps)
  then have "\<forall>q \<in> set xs. fst q < fst p" by (simp add: sorted_wrt_append)
  then have "put (fst p) (snd p) xs = xs @ [p]" by (simp add: put_last)
  then show ?case using Cons by (cases p) simp
qed simp

section \<open>The interface\<close>

text \<open>
  \<open>rep s xs\<close>: the store \<open>s\<close> is well formed and holds \<open>xs\<close>. \<open>ready n s\<close>: the store can serve \<open>n\<close> more
  insertions (for the skip list, random numbers are left for their levels). An insertion into a store
  that is not ready may not return; it never ends abnormally.
\<close>

locale kv_store =
  fixes insert_op :: "'k::linorder \<Rightarrow> 'v \<Rightarrow> 's \<Rightarrow> (int \<times> 's) outcome"
    and delete_op :: "'k \<Rightarrow> 's \<Rightarrow> (bool \<times> 's) outcome"
    and search_op :: "'k \<Rightarrow> 'v \<Rightarrow> 's \<Rightarrow> (bool \<times> 'v) outcome"
    and rep :: "'s \<Rightarrow> ('k \<times> 'v) list \<Rightarrow> bool"
    and ready :: "nat \<Rightarrow> 's \<Rightarrow> bool"
  assumes insert_law: "rep s xs \<Longrightarrow> ready (Suc n) s \<Longrightarrow>
      \<exists>s'. insert_op k v s = ret (if k \<in> fst ` set xs then 1 else 0, s') \<and>
           rep s' (put k v xs) \<and> ready n s'"
    and insert_safe: "rep s xs \<Longrightarrow>
      yields {} (\<lambda>(r, s'). r = (if k \<in> fst ` set xs then 1 else 0) \<and> rep s' (put k v xs)) (insert_op k v s)"
    and delete_law: "rep s xs \<Longrightarrow> ready n s \<Longrightarrow>
      \<exists>s'. delete_op k s = ret (k \<in> fst ` set xs, s') \<and> rep s' (del k xs) \<and> ready n s'"
    and search_law: "rep s xs \<Longrightarrow>
      search_op k w s = ret (case map_of xs k of None \<Rightarrow> (False, w) | Some v \<Rightarrow> (True, v))"
    and rep_sorted: "rep s xs \<Longrightarrow> keys_sorted xs"
    and ready_less: "ready (Suc n) s \<Longrightarrow> ready n s"
begin

lemma insert_then_search:
  assumes "rep s xs" and "ready (Suc n) s"
  obtains r s' where "insert_op k v s = ret (r, s')" and "search_op k w s' = ret (True, v)"
    and "\<And>k'. k' \<noteq> k \<Longrightarrow> search_op k' w s' = search_op k' w s"
proof -
  obtain r s' where s': "insert_op k v s = ret (r, s')" "rep s' (put k v xs)"
    using insert_law [OF assms] by blast
  then show thesis
    using rep_sorted [OF assms(1)]
    by (intro that [of r s']) (simp_all add: search_law [OF s'(2)] search_law [OF assms(1)])
qed

lemma delete_then_search:
  assumes "rep s xs" and "ready n s"
  obtains r s' where "delete_op k s = ret (r, s')" and "search_op k w s' = ret (False, w)"
    and "\<And>k'. k' \<noteq> k \<Longrightarrow> search_op k' w s' = search_op k' w s"
proof -
  obtain r s' where s': "delete_op k s = ret (r, s')" "rep s' (del k xs)"
    using delete_law [OF assms] by blast
  then show thesis
    using rep_sorted [OF assms(1)]
    by (intro that [of r s']) (simp_all add: search_law [OF s'(2)] search_law [OF assms(1)])
qed

end

end
