(* ===== verification/SkipList_Correct.thy ===== *)
theory SkipList_Correct
  imports SkipList_Levels KV_Contract
begin

text \<open>
  The skip list implements a sorted association list.

  \<open>sl_chain s as\<close> is the well-formedness invariant of the whole object for the level-0 addresses
  \<open>as\<close>; \<open>sl_rep s xs\<close> says that the object is well formed and holds exactly the sorted key/value
  list \<open>xs\<close>. The lemmas of this theory show that every operation started in a represented state
  returns without a fault in a represented state, and which list that state holds.
\<close>

section \<open>The invariant\<close>

definition sl_chain :: "('k::linorder, 'v) skiplist \<Rightarrow> addr list \<Rightarrow> bool" where
  "sl_chain s as \<longleftrightarrow>
     chains (mem s) (headerNode s) (maxLevel s) as \<and>
     dom (mem s) = insert (headerNode s) (set as) \<and> (\<forall>a \<in> dom (mem s). a < brk s) \<and>
     curLevel s \<le> maxLevel s \<and> (\<forall>a \<in> set as. level_at (mem s) a \<le> curLevel s) \<and>
     (curLevel s = 0 \<or> (\<exists>a \<in> set as. level_at (mem s) a = curLevel s)) \<and>
     elementCount s = int (length as) \<and> \<not> mtx_held s"

definition contents :: "('k, 'v) heap \<Rightarrow> addr list \<Rightarrow> ('k \<times> 'v) list" where
  "contents h as = map (\<lambda>a. (key_at h a, val_at h a)) as"

definition sl_rep :: "('k::linorder, 'v) skiplist \<Rightarrow> ('k \<times> 'v) list \<Rightarrow> bool" where
  "sl_rep s xs \<longleftrightarrow> (\<exists>as. sl_chain s as \<and> xs = contents (mem s) as)"

lemma sl_repI: "sl_chain s as \<Longrightarrow> contents (mem s) as = xs \<Longrightarrow> sl_rep s xs"
  by (auto simp: sl_rep_def)

lemma sl_chain_simps [simp]:
  "sl_chain (s\<lparr>rands := rs\<rparr>) as = sl_chain s as"
  by (simp add: sl_chain_def)

lemma contents_keys: "fst ` set (contents h as) = key_at h ` set as"
  by (auto simp: contents_def image_image)

lemma sl_rep_sorted: "sl_rep s xs \<Longrightarrow> keys_sorted xs"
  by (auto simp: sl_rep_def sl_chain_def chains_def contents_def sorted_wrt_map)

lemma sl_rep_size: "sl_rep s xs \<Longrightarrow> sl_size s = int (length xs)"
  by (auto simp: sl_rep_def sl_chain_def contents_def sl_size_def)

lemma SkipList_chain: "sl_chain (SkipList m k v rs) []"
proof -
  have "shape [0 \<mapsto> Node k v m] = [0 \<mapsto> (k, v, m, m + 1)]"
    using shape_new [of Map.empty 0 k v m] by (simp add: shape_def fun_eq_iff)
  moreover have "nxt [0 \<mapsto> Node k v m] i = (\<lambda>_. None)" for i
    using nxt_new [of Map.empty 0 k v m i] by (simp add: nxt_def fun_eq_iff)
  ultimately show ?thesis
    by (simp add: sl_chain_def SkipList_def chains_def level_list_def node_ok_shape level_at_def)
qed

lemma SkipList_rep: "sl_rep (SkipList m k v rs) []"
  by (rule sl_repI [OF SkipList_chain]) (simp add: contents_def)

section \<open>Where a key belongs\<close>

text \<open>What the common first half of the operations computes; \<open>update_array\<close> is the array it fills.\<close>

definition update_array :: "('k::linorder, 'v) skiplist \<Rightarrow> addr list \<Rightarrow> 'k \<Rightarrow> addr option list" where
  "update_array s as key =
     map (\<lambda>j. if j \<le> curLevel s then Some (pred (mem s) (headerNode s) as key j) else None)
       [0 ..< maxLevel s + 1]"

lemma locate:
  assumes "sl_chain s as"
  defines "h \<equiv> mem s"
  shows "descend h key (curLevel s + 1) (headerNode s) (replicate (maxLevel s + 1) None) =
           ret (pred h (headerNode s) as key 0, update_array s as key)"
    and "descend_search h key (curLevel s + 1) (headerNode s) = ret (pred h (headerNode s) as key 0)"
    and "get_forward h (pred h (headerNode s) as key 0) 0 =
           ret (case rest h as key 0 of [] \<Rightarrow> None | b # _ \<Rightarrow> Some b)"
    and "has_key h (case rest h as key 0 of [] \<Rightarrow> None | b # _ \<Rightarrow> Some b) key =
           ret (key \<in> key_at h ` set as)"
proof -
  have ch: "chains h (headerNode s) (maxLevel s) as" and le: "curLevel s \<le> maxLevel s"
    using assms by (simp_all add: sl_chain_def)
  show "descend h key (curLevel s + 1) (headerNode s) (replicate (maxLevel s + 1) None) =
      ret (pred h (headerNode s) as key 0, update_array s as key)"
    using le by (subst descend_chains [OF ch]) (auto simp: less_Suc_eq_le update_array_def h_def simp del: upt_Suc replicate_Suc)
  show "descend_search h key (curLevel s + 1) (headerNode s) = ret (pred h (headerNode s) as key 0)"
    using le by (subst descend_search_chains [OF ch]) auto
qed (use assms in \<open>auto simp: sl_chain_def pred_forward has_key_chains\<close>)

text \<open>A present key sits right behind its predecessor; an absent one has a gap there.\<close>

lemma present_split:
  assumes "chains h hdr m as" and "key \<in> key_at h ` set as"
  obtains x bs where "rest h as key 0 = x # bs" and "key_at h x = key"
    and "as = takeWhile (\<lambda>a. key_at h a < key) as @ x # bs" and "\<forall>b \<in> set bs. key < key_at h b"
proof -
  from rest_key [OF assms(1), of key] assms(2)
  obtain x bs where r: "rest h as key 0 = x # bs" "key_at h x = key"
    by (auto split: list.splits)
  then have as: "as = takeWhile (\<lambda>a. key_at h a < key) as @ x # bs"
    by (metis level_list_0 rest_def takeWhile_dropWhile_id)
  have "sorted_wrt (\<lambda>a b. key_at h a < key_at h b) (takeWhile (\<lambda>a. key_at h a < key) as @ x # bs)"
    using assms(1) by (simp add: chains_def flip: as)
  then have "\<forall>b \<in> set bs. key < key_at h b" using r(2) by (simp add: sorted_wrt_append)
  with r as show thesis by (rule that)
qed

lemma absent_above:
  assumes "chains h hdr m as" and "key \<notin> key_at h ` set as"
  shows "\<forall>b \<in> set (dropWhile (\<lambda>a. key_at h a < key) as). key < key_at h b"
proof (cases "dropWhile (\<lambda>a. key_at h a < key) as")
  case (Cons b bs)
  have as: "as = takeWhile (\<lambda>a. key_at h a < key) as @ b # bs"
    using Cons by (metis takeWhile_dropWhile_id)
  have "\<not> key_at h b < key" using Cons by (metis dropWhile_eq_Cons_conv)
  moreover have "b \<in> set as" by (subst as) simp
  ultimately have "key < key_at h b" using assms(2) by (metis image_eqI linorder_less_linear)
  moreover have "sorted_wrt (\<lambda>a b. key_at h a < key_at h b)
      (takeWhile (\<lambda>a. key_at h a < key) as @ b # bs)"
    using assms(1) by (simp add: chains_def flip: as)
  ultimately show ?thesis using Cons by (auto simp: sorted_wrt_append)
next
  case Nil
  then show ?thesis by (simp only: list.set ball_empty)
qed

section \<open>Changing the chains\<close>

lemma chains_pred_not:
  assumes "chains h hdr m as" and "x \<notin> insert hdr (set as)"
  shows "pred h hdr as key i \<noteq> x"
  using assms pred_in [of h hdr as key i] by (auto simp: set_level_list)

lemma chains_insert:
  assumes ch: "chains h hdr m as" and new: "x \<notin> insert hdr (set as)" and r: "r \<le> m"
    and absent: "key \<notin> key_at h ` set as"
    and sh: "shape h' = (shape h)(x \<mapsto> (key, v, r, r + 1))"
    and nx: "\<And>i. nxt h' i =
      (if i \<le> r then (nxt h i)(x := nxt h i (pred h hdr as key i), pred h hdr as key i := Some x)
       else (nxt h i)(x := None))"
  defines "us \<equiv> takeWhile (\<lambda>a. key_at h a < key) as"
    and "vs \<equiv> dropWhile (\<lambda>a. key_at h a < key) as"
  shows "chains h' hdr m (us @ x # vs)"
proof -
  let ?P = "\<lambda>a. key_at h a < key"
  have as: "as = us @ vs" by (simp add: us_def vs_def)
  have old: "key_at h' a = key_at h a" "level_at h' a = level_at h a" "node_ok h' a = node_ok h a"
    if "a \<noteq> x" for a
    using that by (simp_all add: key_at_def level_at_def node_ok_shape sh)
  have x: "key_at h' x = key" "level_at h' x = r" "node_ok h' x"
    by (simp_all add: key_at_def level_at_def node_ok_shape sh)
  have x_us: "x \<notin> set us" "x \<notin> set vs" using new by (simp_all add: as)
  have lv: "level_at h' a = level_at h a" and kv: "key_at h' a = key_at h a"
    and nv: "node_ok h' a = node_ok h a" if "a \<in> set us \<union> set vs" for a
    using that x_us by (auto intro!: old)
  have ll: "level_list h' (us @ x # vs) i =
      takeWhile ?P (level_list h as i) @ (if i \<le> r then [x] else []) @ rest h as key i" for i
  proof -
    have "sorted_wrt (\<lambda>a b. key_at h a < key_at h b) as" using ch by (simp add: chains_def)
    then have "takeWhile ?P (level_list h as i) = filter (\<lambda>a. i \<le> level_at h a) us"
      and "rest h as key i = filter (\<lambda>a. i \<le> level_at h a) vs"
      by (simp_all add: level_list_def rest_def us_def vs_def
          takeWhile_filter_below dropWhile_filter_below)
    moreover have "filter (\<lambda>a. i \<le> level_at h' a) us = filter (\<lambda>a. i \<le> level_at h a) us"
      and "filter (\<lambda>a. i \<le> level_at h' a) vs = filter (\<lambda>a. i \<le> level_at h a) vs"
      by (auto intro!: filter_cong simp: lv)
    ultimately show ?thesis by (simp add: level_list_def x)
  qed
  have linked: "linked (nxt h' i) (hdr # level_list h' (us @ x # vs) i)" if i: "i \<le> m" for i
  proof -
    obtain ws where ws: "hdr # level_list h as i = ws @ pred h hdr as key i # rest h as key i"
      and ws': "ws @ [pred h hdr as key i] = hdr # takeWhile ?P (level_list h as i)"
      by (rule level_split)
    have lk: "linked (nxt h i) (ws @ pred h hdr as key i # rest h as key i)"
      using ch i by (simp add: chains_def flip: ws)
    have d: "distinct (ws @ pred h hdr as key i # rest h as key i)"
      using chains_distinct [OF ch, of i] by (simp only: ws)
    have "x \<notin> set (hdr # level_list h as i)" using new by (auto simp: set_level_list)
    then have nx_in: "x \<notin> set (ws @ pred h hdr as key i # rest h as key i)" unfolding ws .
    have eq: "hdr # level_list h' (us @ x # vs) i =
        ws @ pred h hdr as key i # (if i \<le> r then [x] else []) @ rest h as key i"
    proof -
      have "hdr # level_list h' (us @ x # vs) i = (hdr # takeWhile ?P (level_list h as i)) @
          (if i \<le> r then [x] else []) @ rest h as key i" by (simp add: ll)
      then show ?thesis unfolding ws' [symmetric] by simp
    qed
    show ?thesis
    proof (cases "i \<le> r")
      case True
      then show ?thesis using linked_insert [OF lk d nx_in] by (simp add: eq nx)
    next
      case False
      then show ?thesis using lk nx_in by (simp add: eq nx)
    qed
  qed
  have "sorted_wrt (\<lambda>a b. key_at h' a < key_at h' b) (us @ x # vs)"
  proof -
    have "sorted_wrt (\<lambda>a b. key_at h a < key_at h b) (us @ vs)" using ch by (simp add: chains_def as)
    then have "sorted_wrt (\<lambda>a b. key_at h' a < key_at h' b) (us @ vs)"
      by (rule sorted_wrt_mono_rel [rotated]) (auto simp: kv)
    moreover have "\<forall>a \<in> set us. key_at h' a < key"
      by (auto simp: kv us_def dest: set_takeWhileD)
    moreover have "\<forall>b \<in> set vs. key < key_at h' b"
      using absent_above [OF ch absent] by (auto simp: kv vs_def)
    ultimately show ?thesis by (simp add: sorted_wrt_append x)
  qed
  moreover have "\<forall>a \<in> set (us @ vs). node_ok h' a \<and> level_at h' a \<le> m"
    using ch by (auto simp: chains_def lv nv as)
  moreover have "node_ok h' hdr" and "level_at h' hdr = m" and "hdr \<notin> set us \<union> set vs"
    using ch new by (auto simp: chains_def old as)
  ultimately show ?thesis
    using linked new x r unfolding chains_def by (simp add: ball_Un)
qed

lemma chains_delete:
  assumes ch: "chains h hdr m as" and as: "as = us @ x # vs"
    and us: "us = takeWhile (\<lambda>a. key_at h a < key) as" and key: "key_at h x = key"
    and sh: "shape h' = (shape h)(x := None)"
    and nx: "\<And>i. nxt h' i =
      (if i \<le> level_at h x then (nxt h i)(pred h hdr as key i := nxt h i x) else nxt h i)(x := None)"
  shows "chains h' hdr m (us @ vs)"
proof -
  let ?P = "\<lambda>a. key_at h a < key"
  have old: "key_at h' a = key_at h a" "level_at h' a = level_at h a" "node_ok h' a = node_ok h a"
    if "a \<noteq> x" for a
    using that by (simp_all add: key_at_def level_at_def node_ok_shape sh)
  have dist: "distinct as" and hdr: "hdr \<notin> set as"
    using chains_distinct [OF ch, of 0] by simp_all
  then have x_us: "x \<notin> set us \<union> set vs" "hdr \<noteq> x" by (auto simp: as)
  have sorted: "sorted_wrt (\<lambda>a b. key_at h a < key_at h b) as" using ch by (simp add: chains_def)
  have dropP: "dropWhile ?P as = x # vs"
    using us as by (metis same_append_eq takeWhile_dropWhile_id)
  have tl: "takeWhile ?P (level_list h as i) = filter (\<lambda>a. i \<le> level_at h a) us"
    and rl: "rest h as key i = filter (\<lambda>a. i \<le> level_at h a) (x # vs)" for i
    using takeWhile_filter_below [OF sorted, of key "\<lambda>a. i \<le> level_at h a"]
      dropWhile_filter_below [OF sorted, of key "\<lambda>a. i \<le> level_at h a"]
    unfolding level_list_def rest_def dropP by (simp_all flip: us)
  have lv: "level_at h' a = level_at h a" and kv: "key_at h' a = key_at h a"
    and nv: "node_ok h' a = node_ok h a" if "a \<in> set us \<union> set vs" for a
    using that x_us by (auto intro!: old)
  have ll: "level_list h' (us @ vs) i =
      takeWhile ?P (level_list h as i) @ filter (\<lambda>a. i \<le> level_at h a) vs" for i
    unfolding tl by (auto simp: level_list_def lv intro!: arg_cong2 [where f = append] filter_cong)
  have linked: "linked (nxt h' i) (hdr # level_list h' (us @ vs) i)" if i: "i \<le> m" for i
  proof -
    let ?v = "filter (\<lambda>a. i \<le> level_at h a) vs"
    obtain ws where ws: "hdr # level_list h as i = ws @ pred h hdr as key i # rest h as key i"
      and ws': "ws @ [pred h hdr as key i] = hdr # takeWhile ?P (level_list h as i)"
      by (rule level_split)
    have lk: "linked (nxt h i) (ws @ pred h hdr as key i # rest h as key i)"
      using ch i by (simp add: chains_def flip: ws)
    have d: "distinct (ws @ pred h hdr as key i # rest h as key i)"
      using chains_distinct [OF ch, of i] by (simp only: ws)
    have eq: "hdr # level_list h' (us @ vs) i = ws @ pred h hdr as key i # ?v"
    proof -
      have "hdr # level_list h' (us @ vs) i = (hdr # takeWhile ?P (level_list h as i)) @ ?v"
        by (simp add: ll)
      then show ?thesis unfolding ws' [symmetric] by simp
    qed
    have "x \<notin> set (hdr # level_list h' (us @ vs) i)" using x_us by (auto simp: set_level_list)
    then have nx_in: "x \<notin> set (ws @ pred h hdr as key i # ?v)" unfolding eq .
    show ?thesis
    proof (cases "i \<le> level_at h x")
      case True
      then have "rest h as key i = x # ?v" by (simp add: rl)
      then have "linked ((nxt h i)(pred h hdr as key i := nxt h i x)) (ws @ pred h hdr as key i # ?v)"
        using lk d by (metis linked_remove)
      then show ?thesis using nx_in True by (simp add: eq nx)
    next
      case False
      then have "rest h as key i = ?v" by (simp add: rl)
      then show ?thesis using lk nx_in False by (simp add: eq nx)
    qed
  qed
  have "sorted_wrt (\<lambda>a b. key_at h a < key_at h b) (us @ vs)"
    using sorted by (simp add: as sorted_wrt_append)
  then have "sorted_wrt (\<lambda>a b. key_at h' a < key_at h' b) (us @ vs)"
    by (rule sorted_wrt_mono_rel [rotated]) (auto simp: kv)
  moreover have "\<forall>a \<in> set (us @ vs). node_ok h' a \<and> level_at h' a \<le> m"
    using ch by (auto simp: chains_def lv nv as)
  moreover have "node_ok h' hdr" and "level_at h' hdr = m" and "hdr \<notin> set us \<union> set vs"
    using ch x_us hdr by (auto simp: chains_def old as)
  ultimately show ?thesis
    using linked unfolding chains_def by (simp add: ball_Un)
qed

lemma chains_set_value:
  assumes ch: "chains h hdr m as" and a: "a \<in> insert hdr (set as)"
    and nx: "\<And>i. nxt h' i = nxt h i"
    and sh: "shape h' = (shape h)(a \<mapsto> (key_at h a, v, level_at h a, level_at h a + 1))"
  shows "chains h' hdr m as"
proof -
  have eq: "key_at h' = key_at h" "level_at h' = level_at h"
    by (auto simp: fun_eq_iff key_at_def level_at_def sh)
  have "node_ok h' b = node_ok h b" if "b \<in> insert hdr (set as)" for b
    using that ch a by (auto simp: node_ok_shape sh chains_def)
  then show ?thesis using ch by (simp add: chains_def level_list_def eq nx)
qed

section \<open>The operations refine the sorted list\<close>

lemma random_loop_ends:
  assumes "\<exists>r \<in> set rs. even r"
  shows "random_loop rs k = ret (k + length (takeWhile odd rs), tl (dropWhile odd rs))"
  using assms
proof (induction rs arbitrary: k)
  case (Cons r rs)
  then show ?case by (cases "even r") (simp_all flip: even_iff_mod_2_eq_zero)
qed simp

lemma random_loop_open:
  assumes "\<forall>r \<in> set rs. odd r"
  shows "random_loop rs k = None"
  using assms by (induction rs arbitrary: k) (auto simp flip: even_iff_mod_2_eq_zero)

lemma getRandomLevel_ends:
  assumes "\<exists>r \<in> set (rands s). even r"
  shows "getRandomLevel s = ret (min (length (takeWhile odd (rands s))) (maxLevel s),
           s\<lparr>rands := tl (dropWhile odd (rands s))\<rparr>)"
  using assms by (simp add: getRandomLevel_def random_loop_ends min_def)

lemma contents_split:
  assumes "chains h hdr m as" and "as = takeWhile (\<lambda>a. key_at h a < key) as @ bs"
  shows "\<forall>p \<in> set (contents h (takeWhile (\<lambda>a. key_at h a < key) as)). fst p < key"
  by (auto simp: contents_def dest: set_takeWhileD)

lemma contents_append [simp]: "contents h (as @ bs) = contents h as @ contents h bs"
  and contents_Cons [simp]: "contents h (a # as) = (key_at h a, val_at h a) # contents h as"
  and contents_Nil [simp]: "contents h [] = []"
  by (simp_all add: contents_def)

lemma contents_frame:
  assumes "\<And>a. a \<in> set as \<Longrightarrow> shape h' a = shape h a"
  shows "contents h' as = contents h as"
  using assms by (auto simp: contents_def key_at_def val_at_def)

lemma insertElement_existing:
  assumes sl: "sl_chain s as" and present: "key \<in> key_at (mem s) ` set as"
  obtains s' where "insertElement key v s = ret (1, s')" and "sl_chain s' as"
    and "contents (mem s') as = put key v (contents (mem s) as)" and "rands s' = rands s"
proof -
  let ?h = "mem s" and ?u = "takeWhile (\<lambda>a. key_at (mem s) a < key) as"
  have ch: "chains ?h (headerNode s) (maxLevel s) as" using sl by (simp add: sl_chain_def)
  obtain x bs where r: "rest ?h as key 0 = x # bs" and key: "key_at ?h x = key"
    and as: "as = ?u @ x # bs" and above: "\<forall>b \<in> set bs. key < key_at ?h b"
    by (rule present_split [OF ch present])
  have x: "x \<in> set as" by (subst as) simp
  then have "node_ok ?h x" using ch by (simp add: chains_def)
  then obtain h' where h': "setValue ?h x v = ret h'" and nx: "\<And>i. nxt h' i = nxt ?h i"
    and sh: "shape h' = (shape ?h)(x \<mapsto> (key_at ?h x, v, level_at ?h x, level_at ?h x + 1))"
    by (rule setValue_ok [where v = v]) (rule that)
  let ?s' = "s\<lparr>mem := h', mtx_held := False\<rparr>"
  have eq: "key_at h' = key_at ?h" "level_at h' = level_at ?h"
    by (auto simp: fun_eq_iff key_at_def level_at_def sh)
  have dom: "dom h' = dom ?h"
  proof -
    have "dom (shape h') = dom (shape ?h)"
      using \<open>node_ok ?h x\<close> by (auto simp: sh node_ok_shape)
    then show ?thesis by (simp add: shape_def dom_def)
  qed
  show thesis
  proof (rule that)
    show "insertElement key v s = ret (1, ?s')"
      using sl present locate [OF sl, of key] r h'
      by (simp add: insertElement_def lock_mtx_def unlock_mtx_def sl_chain_def deref_ptr_def
          del: upt_Suc replicate_Suc descend.simps descend_search.simps)
    show "sl_chain ?s' as"
      using sl chains_set_value [OF ch _ nx sh] x by (simp add: sl_chain_def dom eq)
    have dist: "distinct as" using chains_distinct [OF ch, of 0] by simp
    then have out: "x \<notin> set ?u" "x \<notin> set bs" by (subst (asm) as, auto)+
    have "contents h' ?u = contents ?h ?u" and "contents h' bs = contents ?h bs"
      using out by (auto intro!: contents_frame simp: sh)
    moreover have "val_at h' x = v" by (simp add: val_at_def sh)
    moreover have "\<forall>p \<in> set (contents ?h bs). key < fst p" using above by (auto simp: contents_def)
    ultimately show "contents (mem ?s') as = put key v (contents (mem s) as)"
      using contents_split [OF ch as]
      by (subst (1 2) as) (simp add: eq key put_sorted_split(2))
  qed simp
qed

text \<open>
  Insertion of an absent key. \<open>ready_levels\<close> collects what the update array holds at the levels
  the new node reaches: the predecessor found by the walk, or the header above the old top level.
\<close>

lemma insert_update:
  fixes key :: "'k::linorder"
  assumes sl: "sl_chain s as" and r: "r \<le> maxLevel s"
    and up: "up = update_array s as key"
  obtains up' where
    "r > curLevel s \<Longrightarrow> fill_update (headerNode s) [curLevel s + 1 ..< r + 1] up = ret up'"
    and "\<not> r > curLevel s \<Longrightarrow> up' = up"
    and "length up' = maxLevel s + 1"
    and "\<And>i. i \<le> r \<Longrightarrow> up' ! i = Some (pred (mem s) (headerNode s) as key i)"
proof -
  have top: "pred (mem s) (headerNode s) as key i = headerNode s" if "curLevel s < i" for i
  proof -
    have "level_list (mem s) as i = []"
      using sl that by (auto simp: level_list_def sl_chain_def filter_empty_conv)
    then show ?thesis by (simp add: pred_def)
  qed
  show thesis
  proof (cases "r > curLevel s")
    case True
    let ?up' = "map (\<lambda>j. if j \<in> set [curLevel s + 1 ..< r + 1] then Some (headerNode s) else up ! j)
                  [0 ..< length up]"
    have "fill_update (headerNode s) [curLevel s + 1 ..< r + 1] up = ret ?up'"
      using r by (intro fill_update_ok) (auto simp: up update_array_def)
    then show thesis
      using True r top by (intro that [of ?up']) (auto simp: up update_array_def simp del: upt_Suc)
  next
    case False
    then show thesis
      using r by (intro that [of up]) (auto simp: up update_array_def simp del: upt_Suc)
  qed
qed

lemma insertElement_new_at:
  assumes sl: "sl_chain s as" and absent: "key \<notin> key_at (mem s) ` set as"
    and even: "\<exists>r \<in> set (rands s). even r"
  obtains s' as' where "insertElement key v s = ret (0, s')" and "sl_chain s' as'"
    and "contents (mem s') as' = put key v (contents (mem s) as)"
    and "rands s' = tl (dropWhile odd (rands s))" and "headerNode s' = headerNode s"
    and "as' = takeWhile (\<lambda>a. key_at (mem s) a < key) as @ brk s # dropWhile (\<lambda>a. key_at (mem s) a < key) as"
    and "key_at (mem s') (brk s) = key"
proof -
  let ?h = "mem s" and ?hdr = "headerNode s" and ?x = "brk s"
  let ?us = "takeWhile (\<lambda>a. key_at ?h a < key) as" and ?vs = "dropWhile (\<lambda>a. key_at ?h a < key) as"
  define r where "r = min (length (takeWhile odd (rands s))) (maxLevel s)"
  have rm: "r \<le> maxLevel s" by (simp add: r_def)
  have ch: "chains ?h ?hdr (maxLevel s) as" and dom: "dom ?h = insert ?hdr (set as)"
    using sl by (simp_all add: sl_chain_def)
  have "?x \<notin> dom ?h" using sl by (auto simp: sl_chain_def)
  then have x_new: "?x \<notin> insert ?hdr (set as)" by (simp add: dom)
  let ?q = "pred ?h ?hdr as key"
  obtain up where up: "r > curLevel s \<Longrightarrow> fill_update ?hdr [curLevel s + 1 ..< r + 1] (update_array s as key) = ret up"
      "\<not> r > curLevel s \<Longrightarrow> up = update_array s as key"
    and len: "length up = maxLevel s + 1" and upq: "\<And>i. i \<le> r \<Longrightarrow> up ! i = Some (?q i)"
    by (rule insert_update [OF sl rm refl]) (rule that)
  define h1 where "h1 = ?h(?x \<mapsto> Node key v r)"
  have sh1: "shape h1 = (shape ?h)(?x \<mapsto> (key, v, r, r + 1))"
    and nx1: "nxt h1 i = (nxt ?h i)(?x := None)" for i
    by (simp_all add: h1_def shape_new nxt_new)
  have q_old: "?q i \<noteq> ?x" for i by (rule chains_pred_not [OF ch x_new])
  have "link_ready h1 ?x ?q up i \<and> i \<le> level_at h1 ?x" if "i \<le> r" for i
    using that rm len upq q_old chains_node [OF ch _ pred_in, of i key]
    by (auto simp: link_ready_def node_ok_shape level_at_def sh1)
  then have ready: "\<forall>i \<in> set [0 ..< r + 1]. link_ready h1 ?x ?q up i \<and> i \<le> level_at h1 ?x"
    by (simp add: less_Suc_eq_le del: upt_Suc)
  obtain h2 where h2: "link h1 ?x up [0 ..< r + 1] = ret h2" and sh2: "shape h2 = shape h1"
    and nx2: "\<And>j. nxt h2 j = (if j \<in> set [0 ..< r + 1]
        then (nxt h1 j)(?x := nxt h1 j (?q j), ?q j := Some ?x) else nxt h1 j)"
    by (rule link_ok [OF distinct_upt ready]) (rule that)
  let ?as' = "?us @ ?x # ?vs"
  let ?c = "if r > curLevel s then r else curLevel s"
  let ?s' = "s\<lparr>mem := h2, brk := Suc ?x, curLevel := ?c, elementCount := elementCount s + 1,
     mtx_held := False, rands := tl (dropWhile odd (rands s))\<rparr>"
  have sh: "shape h2 = (shape ?h)(?x \<mapsto> (key, v, r, r + 1))" by (simp add: sh2 sh1)
  have ch2: "chains h2 ?hdr (maxLevel s) ?as'"
  proof (rule chains_insert [OF ch x_new rm absent sh])
    show "nxt h2 i = (if i \<le> r then (nxt ?h i)(?x := nxt ?h i (?q i), ?q i := Some ?x)
        else (nxt ?h i)(?x := None))" for i
      using q_old [of i] by (simp add: nx2 nx1 less_Suc_eq_le del: upt_Suc)
  qed
  have set': "set ?as' = insert ?x (set as)"
    by (metis Un_insert_right list.set(2) set_append takeWhile_dropWhile_id)
  have "dom h2 = dom h1" by (rule shape_dom [OF sh2])
  then have dom_h2: "dom h2 = insert ?x (dom ?h)" by (auto simp: h1_def)
  then have dom2: "dom h2 = insert ?hdr (set ?as')" unfolding set' by (auto simp: h1_def dom)
  have lv: "level_at h2 a = level_at ?h a" if "a \<in> set as" for a
    using that x_new by (auto simp: level_at_def sh)
  have lvx: "level_at h2 ?x = r" by (simp add: level_at_def sh)
  have "sl_chain ?s' ?as'"
    unfolding sl_chain_def
  proof (intro conjI)
    show "\<forall>a \<in> dom (mem ?s'). a < brk ?s'"
      using sl by (auto simp: dom_h2 sl_chain_def less_Suc_eq)
    show "\<forall>a \<in> set ?as'. level_at (mem ?s') a \<le> curLevel ?s'"
      unfolding set' using sl by (auto simp: lv lvx sl_chain_def)
    show "curLevel ?s' = 0 \<or> (\<exists>a \<in> set ?as'. level_at (mem ?s') a = curLevel ?s')"
      unfolding set' using sl by (auto simp: lv lvx sl_chain_def)
    have "length ?as' = Suc (length as)"
      by (metis add_Suc_right length_Cons length_append takeWhile_dropWhile_id)
    then show "elementCount ?s' = int (length ?as')" using sl by (simp add: sl_chain_def)
  qed (use ch2 dom2 sl rm in \<open>auto simp: sl_chain_def\<close>)
  moreover have "insertElement key v s = ret (0, ?s')"
    using sl absent locate [OF sl, of key] even h2 up
    by (cases "r > curLevel s")
      (simp_all add: insertElement_def lock_mtx_def unlock_mtx_def sl_chain_def getRandomLevel_ends
        createNode_def flip: r_def h1_def
        del: upt_Suc replicate_Suc descend.simps descend_search.simps)
  moreover have "contents (mem ?s') ?as' = put key v (contents ?h as)"
  proof -
    have x_us: "?x \<notin> set ?us" "?x \<notin> set ?vs" using x_new by (auto dest: set_takeWhileD set_dropWhileD)
    then have "contents h2 ?us = contents ?h ?us" and "contents h2 ?vs = contents ?h ?vs"
      by (auto intro!: contents_frame simp: sh)
    moreover have "key_at h2 ?x = key" "val_at h2 ?x = v" by (simp_all add: key_at_def val_at_def sh)
    moreover have "\<forall>p \<in> set (contents ?h ?vs). key < fst p"
      using absent_above [OF ch absent] by (auto simp: contents_def)
    moreover have "\<forall>p \<in> set (contents ?h ?us). fst p < key"
      by (rule contents_split [OF ch, of key ?vs]) simp
    moreover have "contents ?h as = contents ?h ?us @ contents ?h ?vs"
      by (simp flip: contents_append)
    ultimately show ?thesis by (simp add: put_sorted_split(1))
  qed
  moreover have "key_at h2 ?x = key" by (simp add: key_at_def sh)
  ultimately show thesis by - (rule that, assumption, assumption, assumption, simp_all)
qed

lemma insertElement_new:
  assumes "sl_chain s as" and "key \<notin> key_at (mem s) ` set as" and "\<exists>r \<in> set (rands s). even r"
  obtains s' as' where "insertElement key v s = ret (0, s')" and "sl_chain s' as'"
    and "contents (mem s') as' = put key v (contents (mem s) as)"
    and "rands s' = tl (dropWhile odd (rands s))"
  by (rule insertElement_new_at [OF assms]) (rule that)

lemma unlink_levels:
  assumes ch: "chains h hdr m as" and key: "key_at h x = key" and x: "x \<in> set as" and i: "i \<le> m"
  shows "nxt h i (pred h hdr as key i) = Some x \<longleftrightarrow> i \<le> level_at h x"
proof -
  have sorted: "sorted_wrt (\<lambda>a b. key_at h a < key_at h b) as" using ch by (simp add: chains_def)
  obtain x' bs where "rest h as key 0 = x' # bs" and "key_at h x' = key"
    and as: "as = takeWhile (\<lambda>a. key_at h a < key) as @ x' # bs"
    using present_split [OF ch, of key] key x by blast
  moreover have "x' = x"
  proof -
    have "x' \<in> set as" by (subst as) simp
    then show ?thesis
      using x key \<open>key_at h x' = key\<close> by (intro sorted_key_inj [OF sorted]) simp_all
  qed
  ultimately have "dropWhile (\<lambda>a. key_at h a < key) as = x # bs" by (simp add: rest_def)
  then have rest: "rest h as key i = filter (\<lambda>a. i \<le> level_at h a) (x # bs)"
    by (simp add: rest_def level_list_def dropWhile_filter_below [OF sorted])
  have "x \<notin> set bs"
    using sorted_key_distinct [OF sorted] \<open>x' = x\<close> by (subst (asm) as) simp
  then show ?thesis
    using pred_next [OF ch i, of key] by (auto simp: rest filter_eq_Cons_iff split: list.splits)
qed

lemma deleteElement_present_at:
  assumes sl: "sl_chain s as" and present: "key \<in> key_at (mem s) ` set as"
  obtains s' as' where "deleteElement key s = ret (True, s')" and "sl_chain s' as'"
    and "contents (mem s') as' = del key (contents (mem s) as)" and "rands s' = rands s"
    and "\<And>x. x \<in> set as \<Longrightarrow> key_at (mem s) x = key \<Longrightarrow> mem s' x = None"
proof -
  let ?h = "mem s" and ?hdr = "headerNode s" and ?us = "takeWhile (\<lambda>a. key_at (mem s) a < key) as"
  let ?q = "pred ?h ?hdr as key"
  have ch: "chains ?h ?hdr (maxLevel s) as" and dom: "dom ?h = insert ?hdr (set as)"
    and le: "curLevel s \<le> maxLevel s" and lvs: "\<forall>a \<in> set as. level_at ?h a \<le> curLevel s"
    using sl by (simp_all add: sl_chain_def)
  obtain x vs where r: "rest ?h as key 0 = x # vs" and key: "key_at ?h x = key"
    and as: "as = ?us @ x # vs" and above: "\<forall>b \<in> set vs. key < key_at ?h b"
    by (rule present_split [OF ch present])
  have x: "x \<in> set as" by (subst as) simp
  then have x_ok: "node_ok ?h x" and lvx: "level_at ?h x \<le> curLevel s" and x_hdr: "x \<noteq> ?hdr"
    using ch lvs by (auto simp: chains_def)
  define up where "up = update_array s as key"
  have qx: "?q i \<noteq> x" for i using pred_below [of ?h ?hdr as key i] key x_hdr by auto
  have ready: "\<forall>i \<in> set [0 ..< curLevel s + 1]. link_ready ?h x ?q up i"
    using le x_ok qx chains_node [OF ch _ pred_in]
    by (auto simp: link_ready_def up_def update_array_def less_Suc_eq_le simp del: upt_Suc)
  have iff: "\<forall>i \<in> set [0 ..< curLevel s + 1]. nxt ?h i (?q i) = Some x \<longleftrightarrow> i \<le> level_at ?h x"
    using le unlink_levels [OF ch key x] by (simp add: less_Suc_eq_le del: upt_Suc)
  obtain h1 where h1: "unlink ?h x up [0 ..< curLevel s + 1] = ret h1" and sh1: "shape h1 = shape ?h"
    and nx1: "\<And>j. nxt h1 j = (if j \<in> set [0 ..< curLevel s + 1] \<and> j \<le> level_at ?h x
        then (nxt ?h j)(?q j := nxt ?h j x) else nxt ?h j)"
    by (rule unlink_ok [OF sorted_upt distinct_upt ready iff order.refl]) (rule that)
  define h2 where "h2 = h1(x := None)"
  have sh2: "shape h2 = (shape ?h)(x := None)" by (simp add: h2_def shape_delete sh1)
  have nx2: "nxt h2 i = (if i \<le> level_at ?h x then (nxt ?h i)(?q i := nxt ?h i x) else nxt ?h i)(x := None)"
    for i using lvx by (simp add: h2_def nxt_delete nx1 less_Suc_eq_le del: upt_Suc)
  have ch2: "chains h2 ?hdr (maxLevel s) (?us @ vs)"
    by (rule chains_delete [OF ch as refl key sh2 nx2])
  have dist: "distinct as" using chains_distinct [OF ch, of 0] by simp
  then have out: "x \<notin> set ?us" "x \<notin> set vs" by (subst (asm) as, auto)+
  have set_as: "set as = insert x (set (?us @ vs))" by (subst as) auto
  have "dom h2 = dom ?h - {x}" using shape_dom [OF sh1] by (simp add: h2_def)
  moreover have "x \<notin> set (?us @ vs)" using out by simp
  ultimately have dom2: "dom h2 = insert ?hdr (set (?us @ vs))"
    unfolding dom set_as using x_hdr by blast
  have lv: "level_at h2 a = level_at ?h a" if "a \<noteq> x" for a using that by (simp add: level_at_def sh2)
  have "node_ok h2 ?hdr" and "curLevel s \<le> level_at h2 ?hdr" using ch2 le by (auto simp: chains_def)
  then obtain l where l: "shrink h2 ?hdr (curLevel s) = ret l" and l_le: "l \<le> curLevel s"
    and l_top: "l = 0 \<or> nxt h2 l ?hdr \<noteq> None"
    and l_empty: "\<And>j. l < j \<Longrightarrow> j \<le> curLevel s \<Longrightarrow> nxt h2 j ?hdr = None"
    by (rule shrink_ok) (rule that)
  have first: "nxt h2 j ?hdr = None \<longleftrightarrow> level_list h2 (?us @ vs) j = []" if "j \<le> maxLevel s" for j
  proof -
    have "linked (nxt h2 j) (?hdr # level_list h2 (?us @ vs) j)"
      using ch2 that by (simp add: chains_def)
    then show ?thesis by (cases "level_list h2 (?us @ vs) j") auto
  qed
  let ?s' = "s\<lparr>mem := h2, curLevel := l, elementCount := elementCount s - 1, mtx_held := False\<rparr>"
  have "sl_chain ?s' (?us @ vs)"
    unfolding sl_chain_def
  proof (intro conjI)
    show "\<forall>a \<in> set (?us @ vs). level_at (mem ?s') a \<le> curLevel ?s'"
    proof
      fix a assume a: "a \<in> set (?us @ vs)"
      then have "level_at h2 a \<le> curLevel s" using lvs out by (subst lv) (auto simp: set_as)
      moreover have "a \<in> set (level_list h2 (?us @ vs) (level_at h2 a))"
        using a by (simp add: set_level_list)
      ultimately show "level_at (mem ?s') a \<le> curLevel ?s'"
        using l_empty [of "level_at h2 a"] first [of "level_at h2 a"] le by fastforce
    qed
    show "curLevel ?s' = 0 \<or> (\<exists>a \<in> set (?us @ vs). level_at (mem ?s') a = curLevel ?s')"
    proof (cases "l = 0")
      case False
      then obtain a where a: "a \<in> set (level_list h2 (?us @ vs) l)"
        using l_top first [of l] l_le le by (cases "level_list h2 (?us @ vs) l") auto
      have "level_at h2 a \<le> l"
        using a \<open>\<forall>a \<in> set (?us @ vs). level_at (mem ?s') a \<le> curLevel ?s'\<close>
        by (simp add: set_level_list)
      with a show ?thesis by (auto simp: set_level_list)
    qed simp
    have "length as = Suc (length (?us @ vs))" by (subst as) simp
    then show "elementCount ?s' = int (length (?us @ vs))" using sl by (simp add: sl_chain_def)
  qed (use sl ch2 dom2 dom l_le le set_as in \<open>auto simp: sl_chain_def\<close>)
  moreover have "deleteElement key s = ret (True, ?s')"
    using sl present locate [OF sl, of key] r h1 l
    by (simp add: deleteElement_def lock_mtx_def unlock_mtx_def sl_chain_def deref_ptr_def
        h2_def flip: up_def
        del: upt_Suc replicate_Suc descend.simps descend_search.simps)
  moreover have "contents (mem ?s') (?us @ vs) = del key (contents ?h as)"
  proof -
    have "contents h2 ?us = contents ?h ?us" and "contents h2 vs = contents ?h vs"
      using out by (auto intro!: contents_frame simp: sh2)
    moreover have "\<forall>p \<in> set (contents ?h vs). key < fst p" using above by (auto simp: contents_def)
    ultimately show ?thesis
      using contents_split [OF ch as] by (subst (2) as) (simp add: key put_sorted_split(3))
  qed
  moreover have "h2 y = None" if "y \<in> set as" "key_at ?h y = key" for y
    using that x key ch by (auto simp: h2_def chains_def dest: sorted_key_inj)
  ultimately show thesis by - (rule that, assumption, assumption, assumption, simp_all)
qed

lemma deleteElement_present:
  assumes "sl_chain s as" and "key \<in> key_at (mem s) ` set as"
  obtains s' as' where "deleteElement key s = ret (True, s')" and "sl_chain s' as'"
    and "contents (mem s') as' = del key (contents (mem s) as)" and "rands s' = rands s"
  by (rule deleteElement_present_at [OF assms]) (rule that)

lemma deleteElement_absent:
  assumes sl: "sl_chain s as" and absent: "key \<notin> key_at (mem s) ` set as"
  shows "deleteElement key s = ret (False, s)"
proof -
  have "s\<lparr>mtx_held := False\<rparr> = s" using sl by (cases s) (simp add: sl_chain_def)
  then show ?thesis
    using sl absent locate [OF sl, of key]
    by (simp add: deleteElement_def lock_mtx_def unlock_mtx_def sl_chain_def
        del: upt_Suc replicate_Suc descend.simps descend_search.simps)
qed

lemma searchElement_chain:
  assumes sl: "sl_chain s as"
  shows "searchElement key w s =
           ret (case map_of (contents (mem s) as) key of None \<Rightarrow> (False, w) | Some v \<Rightarrow> (True, v))"
proof (cases "key \<in> key_at (mem s) ` set as")
  case False
  then have "map_of (contents (mem s) as) key = None"
    by (simp add: map_of_eq_None_iff contents_keys)
  with False show ?thesis
    using locate [OF sl, of key]
    by (simp add: searchElement_def del: descend.simps descend_search.simps upt_Suc replicate_Suc)
next
  case True
  have ch: "chains (mem s) (headerNode s) (maxLevel s) as" using sl by (simp add: sl_chain_def)
  obtain x bs where r: "rest (mem s) as key 0 = x # bs" and key: "key_at (mem s) x = key"
    and as: "as = takeWhile (\<lambda>a. key_at (mem s) a < key) as @ x # bs"
    by (rule present_split [OF ch True])
  have x: "x \<in> set as" by (subst as) simp
  then have val: "getValue (mem s) x = ret (val_at (mem s) x)"
    using ch by (simp add: chains_def getValue_ok)
  have "keys_sorted (contents (mem s) as)"
    using sl by (intro sl_rep_sorted) (auto simp: sl_rep_def)
  then have "distinct (map fst (contents (mem s) as))"
    by (simp add: distinct_map sorted_key_distinct inj_on_def) (metis sorted_key_inj)
  moreover have "(key, val_at (mem s) x) \<in> set (contents (mem s) as)"
    using x key by (auto simp: contents_def)
  ultimately have "map_of (contents (mem s) as) key = Some (val_at (mem s) x)"
    by (simp add: map_of_is_SomeI)
  with True show ?thesis
    using locate [OF sl, of key] r val
    by (simp add: searchElement_def deref_ptr_def
        del: descend.simps descend_search.simps upt_Suc replicate_Suc)
qed

section \<open>The contract of the operations\<close>

text \<open>
  The three operations on represented states. An insertion of an absent key draws random numbers
  until an even one; the others draw none.
\<close>

lemma insert_rep:
  assumes "sl_rep s xs" and "\<exists>r \<in> set (rands s). even r"
  obtains s' where
    "insertElement k v s = ret (if k \<in> fst ` set xs then 1 else 0, s')"
    and "sl_rep s' (put k v xs)"
    and "rands s' = (if k \<in> fst ` set xs then rands s else tl (dropWhile odd (rands s)))"
proof -
  from assms(1) obtain as where sl: "sl_chain s as" and xs: "xs = contents (mem s) as"
    by (auto simp: sl_rep_def)
  show thesis
  proof (cases "k \<in> fst ` set xs")
    case True
    then have "k \<in> key_at (mem s) ` set as" by (simp add: xs contents_keys)
    then obtain s' where "insertElement k v s = ret (1, s')" "sl_chain s' as"
      "contents (mem s') as = put k v (contents (mem s) as)" "rands s' = rands s"
      by (rule insertElement_existing [OF sl])
    then show thesis using True by (intro that [of s']) (auto intro: sl_repI simp: xs)
  next
    case False
    then have "k \<notin> key_at (mem s) ` set as" by (simp add: xs contents_keys)
    then obtain s' as' where "insertElement k v s = ret (0, s')" "sl_chain s' as'"
      "contents (mem s') as' = put k v (contents (mem s) as)"
      "rands s' = tl (dropWhile odd (rands s))"
      by (rule insertElement_new [OF sl _ assms(2)])
    then show thesis using False by (intro that [of s']) (auto intro: sl_repI simp: xs)
  qed
qed

text \<open>Without an even number to come, an insertion of an absent key goes on drawing.\<close>

lemma insertElement_no_draw:
  assumes sl: "sl_chain s as" and absent: "k \<notin> key_at (mem s) ` set as" and "\<forall>r \<in> set (rands s). odd r"
  shows "insertElement k v s = None"
proof -
  have "getRandomLevel (s\<lparr>mtx_held := True\<rparr>) = None" using assms(3) by (simp add: getRandomLevel_def random_loop_open)
  then show ?thesis
    using sl absent locate [OF sl, of k]
    by (simp add: insertElement_def lock_mtx_def sl_chain_def del: descend.simps descend_search.simps upt_Suc replicate_Suc)
qed

lemma insert_yields:
  assumes "sl_rep s xs"
  shows "yields {} (\<lambda>(r, s'). r = (if k \<in> fst ` set xs then 1 else 0) \<and> sl_rep s' (put k v xs)) (insertElement k v s)"
proof (cases "\<exists>r \<in> set (rands s). even r")
  case True
  obtain s' where "insertElement k v s = ret (if k \<in> fst ` set xs then 1 else 0, s')" "sl_rep s' (put k v xs)"
    by (rule insert_rep [OF assms True])
  then show ?thesis by simp
next
  case no_even: False
  from assms obtain as where sl: "sl_chain s as" and xs: "xs = contents (mem s) as"
    by (auto simp: sl_rep_def)
  show ?thesis
  proof (cases "k \<in> fst ` set xs")
    case True
    then have "k \<in> key_at (mem s) ` set as" by (simp add: xs contents_keys)
    then obtain s' where "insertElement k v s = ret (1, s')" "sl_chain s' as"
      "contents (mem s') as = put k v (contents (mem s) as)"
      by (rule insertElement_existing [OF sl])
    then show ?thesis using True by (auto intro: sl_repI simp: xs)
  next
    case False
    then show ?thesis using insertElement_no_draw [OF sl, of k v] no_even by (simp add: xs contents_keys)
  qed
qed

lemma delete_rep:
  assumes "sl_rep s xs"
  obtains s' where "deleteElement k s = ret (k \<in> fst ` set xs, s')" and "sl_rep s' (del k xs)"
    and "rands s' = rands s"
proof -
  from assms(1) obtain as where sl: "sl_chain s as" and xs: "xs = contents (mem s) as"
    by (auto simp: sl_rep_def)
  show thesis
  proof (cases "k \<in> fst ` set xs")
    case True
    then have "k \<in> key_at (mem s) ` set as" by (simp add: xs contents_keys)
    then obtain s' as' where "deleteElement k s = ret (True, s')" "sl_chain s' as'"
      "contents (mem s') as' = del k (contents (mem s) as)" "rands s' = rands s"
      by (rule deleteElement_present [OF sl])
    then show thesis using True by (intro that [of s']) (auto intro: sl_repI simp: xs)
  next
    case False
    have "del k xs = xs" using False by (induction xs) auto
    moreover have "k \<notin> key_at (mem s) ` set as" using False by (simp add: xs contents_keys)
    ultimately show thesis
      using False assms deleteElement_absent [OF sl] by (intro that) auto
  qed
qed

lemma search_rep:
  "sl_rep s xs \<Longrightarrow> searchElement k w s =
     ret (case map_of xs k of None \<Rightarrow> (False, w) | Some v \<Rightarrow> (True, v))"
  using searchElement_chain by (auto simp: sl_rep_def)

text \<open>
  \<open>draws_ready n s\<close>: the random numbers to come contain at least \<open>n\<close> even ones, so \<open>n\<close> more
  insertions find their level.
\<close>

definition draws_ready :: "nat \<Rightarrow> ('k, 'v) skiplist \<Rightarrow> bool" where
  "draws_ready n s \<longleftrightarrow> n \<le> length (filter even (rands s))"

lemma filter_even_rest:
  "\<exists>r \<in> set rs. even (r::int) \<Longrightarrow>
     length (filter even rs) = Suc (length (filter even (tl (dropWhile odd rs))))"
  by (induction rs) auto

lemma draws_ready_even: "draws_ready (Suc n) s \<Longrightarrow> \<exists>r \<in> set (rands s). even r"
  by (rule ccontr) (simp add: draws_ready_def)

interpretation sl: kv_store insertElement deleteElement searchElement sl_rep draws_ready
proof unfold_locales
  fix s :: "('k::linorder, 'v) skiplist" and xs k v n
  assume rep: "sl_rep s xs" and rdy: "draws_ready (Suc n) s"
  note even = draws_ready_even [OF rdy]
  obtain s' where s': "insertElement k v s = ret (if k \<in> fst ` set xs then 1 else 0, s')"
    "sl_rep s' (put k v xs)"
    "rands s' = (if k \<in> fst ` set xs then rands s else tl (dropWhile odd (rands s)))"
    by (rule insert_rep [OF rep even])
  have "draws_ready n s'"
    using rdy filter_even_rest [OF even] by (auto simp: draws_ready_def s'(3))
  with s' show "\<exists>s'. insertElement k v s = ret (if k \<in> fst ` set xs then 1 else 0, s') \<and>
      sl_rep s' (put k v xs) \<and> draws_ready n s'" by blast
next
  fix s :: "('k::linorder, 'v) skiplist" and xs k n
  assume "sl_rep s xs" and "draws_ready n s"
  then show "\<exists>s'. deleteElement k s = ret (k \<in> fst ` set xs, s') \<and> sl_rep s' (del k xs) \<and> draws_ready n s'"
    by (metis delete_rep draws_ready_def)
qed (auto simp: sl_rep_sorted search_rep draws_ready_def insert_yields)

section \<open>The levels only speed the search up\<close>

text \<open>The reference: a scan of the linked list of level 0, without a look at the order of the keys.\<close>

partial_function (option) linear_search ::
  "('k, 'v) heap \<Rightarrow> 'k \<Rightarrow> 'v \<Rightarrow> addr \<Rightarrow> (bool \<times> 'v) outcome" where
  "linear_search h key w current =
     (case get_forward h current 0 of
        None \<Rightarrow> None
      | Some (Inl e) \<Rightarrow> fail e
      | Some (Inr None) \<Rightarrow> ret (False, w)
      | Some (Inr (Some b)) \<Rightarrow>
          (case getKey h b of
             None \<Rightarrow> None
           | Some (Inl e) \<Rightarrow> fail e
           | Some (Inr k) \<Rightarrow>
               if k = key then obind (getValue h b) (\<lambda>v. ret (True, v)) else linear_search h key w b))"

declare linear_search.simps [code]

lemma linear_search_linked:
  assumes "linked (nxt h 0) (c # as)" and "\<forall>a \<in> set (c # as). node_ok h a"
  shows "linear_search h key w c =
    ret (case map_of (contents h as) key of None \<Rightarrow> (False, w) | Some v \<Rightarrow> (True, v))"
  using assms
proof (induction as arbitrary: c)
  case Nil
  then have "get_forward h c 0 = ret None" by (simp add: get_forward_ok)
  then show ?case by (subst linear_search.simps) (simp add: ret_def contents_def)
next
  case (Cons b as)
  then have "get_forward h c 0 = ret (Some b)" and "getKey h b = ret (key_at h b)"
    and "getValue h b = ret (val_at h b)"
    by (simp_all add: get_forward_ok getKey_ok getValue_ok)
  with Cons show ?case by (subst linear_search.simps) (auto simp: ret_def contents_def obind_def)
qed

lemma searchElement_linear:
  assumes "sl_rep s xs"
  shows "searchElement key w s = linear_search (mem s) key w (headerNode s)"
proof -
  from assms obtain as where sl: "sl_chain s as" by (auto simp: sl_rep_def)
  then have ch: "chains (mem s) (headerNode s) (maxLevel s) as" by (simp add: sl_chain_def)
  then have "linked (nxt (mem s) 0) (headerNode s # as)"
    by (metis chains_def le0 level_list_0)
  moreover have "\<forall>a \<in> set (headerNode s # as). node_ok (mem s) a"
    using ch by (simp add: chains_def)
  ultimately show ?thesis
    using searchElement_chain [OF sl] by (simp add: linear_search_linked)
qed

end
