(* ===== verification/StoreFile.thy ===== *)
theory StoreFile
  imports KV_Contract
begin

text \<open>
  The text format of the store file and the loader loop (\<open>get_key_value_from_string\<close>,
  \<open>is_valid_string\<close> and the loop of \<open>loadFile\<close> in \<open>src/storage/SkipList.h\<close>).

  The loop is a definition over the insertion it calls; its properties are proved once, in the
  context of \<open>kv_store\<close>, for every store that keeps that contract.
\<close>

section \<open>Lines and entries\<close>

definition DELIMITER :: char where
  "DELIMITER = CHR '':''"

definition is_valid_string :: "string \<Rightarrow> bool" where
  "is_valid_string str =
     (if str = [] then False else if find_char DELIMITER str = None then False else True)"

text \<open>The out parameters \<open>key\<close> and \<open>value\<close> keep their old contents when the line is not valid.\<close>

definition get_key_value_from_string :: "string \<Rightarrow> string \<Rightarrow> string \<Rightarrow> string \<times> string" where
  "get_key_value_from_string str key value =
     (if \<not> is_valid_string str then (key, value)
      else case find_char DELIMITER str of
             None \<Rightarrow> (key, value)
           | Some pos \<Rightarrow> (take pos str, drop (pos + 1) str))"

text \<open>
  \<open>std::getline\<close> until it fails: a line ends at a newline, which is dropped, or at the end of the
  file; an empty rest gives no line.
\<close>

function getlines :: "string \<Rightarrow> string list" where
  "getlines s =
     (if s = [] then []
      else takeWhile (\<lambda>c. c \<noteq> newline) s #
        (case dropWhile (\<lambda>c. c \<noteq> newline) s of [] \<Rightarrow> [] | _ # r \<Rightarrow> getlines r))"
  by pat_completeness auto
termination
proof (relation "measure length", goal_cases)
  case (2 s c r)
  have "length (dropWhile (\<lambda>c. c \<noteq> newline) s) \<le> length s" by (rule length_dropWhile_le)
  with 2(2) show ?case by simp
qed simp

declare getlines.simps [simp del]

fun load_lines ::
  "(string \<Rightarrow> string \<Rightarrow> 's \<Rightarrow> (int \<times> 's) outcome) \<Rightarrow> string list \<Rightarrow> string \<Rightarrow> string \<Rightarrow> 's \<Rightarrow> 's outcome"
where
  "load_lines ins [] key value s = ret s"
| "load_lines ins (line # ls) key value s =
     (let (key', value') = get_key_value_from_string line key value in
      if key' = [] \<or> value' = [] then load_lines ins ls key' value' s
      else obind (ins key' value' s) (\<lambda>(_, s'). load_lines ins ls key' value' s'))"

section \<open>What a file means\<close>

text \<open>The entries of a file: the valid lines with a non-empty key and a non-empty value.\<close>

definition line_entry :: "string \<Rightarrow> (string \<times> string) list" where
  "line_entry l = (case find_char DELIMITER l of
       None \<Rightarrow> []
     | Some pos \<Rightarrow> if pos = 0 \<or> drop (pos + 1) l = [] then [] else [(take pos l, drop (pos + 1) l)])"

definition file_entries :: "string \<Rightarrow> (string \<times> string) list" where
  "file_entries text = concat (map line_entry (getlines text))"

definition entry_line :: "string \<times> string \<Rightarrow> string" where
  "entry_line p = fst p @ [DELIMITER] @ snd p"

definition storable :: "string \<times> string \<Rightarrow> bool" where
  "storable p \<longleftrightarrow> fst p \<noteq> [] \<and> DELIMITER \<notin> set (fst p) \<and> newline \<notin> set (fst p) \<and>
     snd p \<noteq> [] \<and> newline \<notin> set (snd p)"

lemma getlines_Nil [simp]: "getlines [] = []"
  by (simp add: getlines.simps)

lemma getlines_line [simp]: "newline \<notin> set l \<Longrightarrow> getlines (l @ newline # rest) = l # getlines rest"
proof -
  assume "newline \<notin> set l"
  then have "takeWhile (\<lambda>c. c \<noteq> newline) (l @ newline # rest) = l"
    and "dropWhile (\<lambda>c. c \<noteq> newline) (l @ newline # rest) = newline # rest"
    by (induction l) auto
  then show ?thesis by (subst getlines.simps) simp
qed

lemma getlines_concat:
  "\<forall>l \<in> set ls. newline \<notin> set l \<Longrightarrow> getlines (concat (map (\<lambda>l. l @ [newline]) ls)) = ls"
  by (induction ls) auto

lemma line_entry_entry_line: "storable p \<Longrightarrow> line_entry (entry_line p) = [p]"
  by (cases p) (simp add: storable_def entry_line_def line_entry_def)

lemma newline_not_delimiter: "newline \<noteq> DELIMITER"
  by (simp add: newline_def DELIMITER_def)

lemma file_entries_dump:
  assumes "\<forall>p \<in> set xs. storable p"
  shows "file_entries (concat (map (\<lambda>p. entry_line p @ [newline]) xs)) = xs"
proof -
  have "\<forall>l \<in> set (map entry_line xs). newline \<notin> set l"
    using assms newline_not_delimiter by (auto simp: storable_def entry_line_def)
  then have "getlines (concat (map (\<lambda>p. entry_line p @ [newline]) xs)) = map entry_line xs"
    using getlines_concat [of "map entry_line xs"] by (simp add: comp_def)
  moreover have "concat (map line_entry (map entry_line xs)) = xs"
    using assms by (induction xs) (simp_all add: line_entry_entry_line)
  ultimately show ?thesis by (simp add: file_entries_def)
qed

lemma get_key_value_entry:
  "get_key_value_from_string l key value =
     (case find_char DELIMITER l of None \<Rightarrow> (key, value) | Some pos \<Rightarrow> (take pos l, drop (pos + 1) l))"
  by (auto simp: get_key_value_from_string_def is_valid_string_def find_char_def)

lemma line_entry_key_value:
  assumes "get_key_value_from_string l key value = (k, v)"
  shows "(find_char DELIMITER l = None \<and> line_entry l = [] \<and> k = key \<and> v = value) \<or>
         (find_char DELIMITER l \<noteq> None \<and> line_entry l = (if k = [] \<or> v = [] then [] else [(k, v)]))"
  using assms
  by (auto simp: get_key_value_entry line_entry_def find_char_def std_find_def split: option.splits if_splits)

section \<open>Loading into any store\<close>

text \<open>
  A line that is not valid repeats the key and value of the line before it, so the loop stores the
  same pair again; the pair is already in the store, and the contents do not change.
\<close>

locale string_store = kv_store insert_op delete_op search_op rep ready
  for insert_op :: "string \<Rightarrow> string \<Rightarrow> 's \<Rightarrow> (int \<times> 's) outcome"
    and delete_op :: "string \<Rightarrow> 's \<Rightarrow> (bool \<times> 's) outcome"
    and search_op :: "string \<Rightarrow> string \<Rightarrow> 's \<Rightarrow> (bool \<times> string) outcome"
    and rep :: "'s \<Rightarrow> (string \<times> string) list \<Rightarrow> bool"
    and ready :: "nat \<Rightarrow> 's \<Rightarrow> bool"
begin

lemma load_lines_law:
  assumes "rep s xs" and "ready (length ls + n) s"
    and "key = [] \<or> value = [] \<or> put key value xs = xs"
  shows "\<exists>s'. load_lines insert_op ls key value s = ret s' \<and>
           rep s' (puts (concat (map line_entry ls)) xs) \<and> ready n s'"
  using assms
proof (induction ls arbitrary: key "value" s xs)
  case Nil
  then show ?case by simp
next
  case (Cons l ls)
  obtain k v where kv: "get_key_value_from_string l key value = (k, v)" by fastforce
  note entry = line_entry_key_value [OF kv]
  have rdy: "ready (Suc (length ls + n)) s" using Cons.prems(2) by simp
  show ?case
  proof (cases "k = [] \<or> v = []")
    case True
    then have "line_entry l = []" using entry by (auto split: if_splits)
    moreover have "load_lines insert_op (l # ls) key value s = load_lines insert_op ls k v s"
      using True kv by simp
    ultimately show ?thesis
      using Cons.IH [OF Cons.prems(1) ready_less [OF rdy], of k v] True by auto
  next
    case False
    then have same: "puts (line_entry l) xs = put k v xs" using entry Cons.prems(3) by auto
    obtain r s' where s': "insert_op k v s = ret (r, s')" "rep s' (put k v xs)" "ready (length ls + n) s'"
      using insert_law [OF Cons.prems(1) rdy] by blast
    have "load_lines insert_op (l # ls) key value s = load_lines insert_op ls k v s'"
      using False kv s'(1) by simp
    moreover have "puts (concat (map line_entry (l # ls))) xs = puts (concat (map line_entry ls)) (put k v xs)"
      using same by (simp add: puts_def)
    ultimately show ?thesis
      using Cons.IH [OF s'(2,3), of k v] rep_sorted [OF Cons.prems(1)] by simp
  qed
qed

text \<open>The same without a promise that the insertions return.\<close>

lemma load_lines_safe:
  assumes "rep s xs" and "key = [] \<or> value = [] \<or> put key value xs = xs"
  shows "yields {} (\<lambda>s'. rep s' (puts (concat (map line_entry ls)) xs)) (load_lines insert_op ls key value s)"
  using assms
proof (induction ls arbitrary: key "value" s xs)
  case (Cons l ls)
  obtain k v where kv: "get_key_value_from_string l key value = (k, v)" by fastforce
  note entry = line_entry_key_value [OF kv]
  show ?case
  proof (cases "k = [] \<or> v = []")
    case True
    then have "line_entry l = []" using entry by (auto split: if_splits)
    then show ?thesis using Cons.IH [OF Cons.prems(1), of k v] True kv by auto
  next
    case False
    then have same: "puts (line_entry l) xs = put k v xs" using entry Cons.prems(2) by auto
    have "yields {} (\<lambda>s'. rep s' (puts (concat (map line_entry ls)) (put k v xs)))
        (load_lines insert_op ls k v s')" if "rep s' (put k v xs)" for s'
      using Cons.IH [OF that, of k v] rep_sorted [OF Cons.prems(1)] by simp
    then have "yields {} (\<lambda>s'. rep s' (puts (concat (map line_entry ls)) (put k v xs)))
        (load_lines insert_op (l # ls) key value s)"
      using False kv by (auto intro!: yields_bind [OF insert_safe [OF Cons.prems(1), of k v]])
    then show ?thesis using same by (simp add: puts_def)
  qed
qed simp

end

end
