(* ===== verification/SkipList_IO.thy ===== *)
theory SkipList_IO
  imports SkipList_Correct StoreFile
begin

text \<open>
  The input and output of a skip list (\<open>displayList\<close>, \<open>dumpFile\<close>, \<open>loadFile\<close> and the
  default constructor in \<open>src/storage/SkipList.h\<close>). The store file is the text it holds, \<open>None\<close>
  when it cannot be opened; \<open>dumpFile\<close> returns the text it leaves in the file and \<open>displayList\<close>
  the text it prints. The templates \<open>display_as\<close> and \<open>dump_as\<close> work for keys and values of any type with the
  text that \<open><<\<close> makes of a pair; the two functions are their instances for strings.
\<close>

section \<open>The loops over one level\<close>

type_synonym string_list = "(string, string) skiplist"

definition node_entry ::
  "('k, 'v) heap \<Rightarrow> nat \<Rightarrow> addr \<Rightarrow> ('k \<times> 'v \<times> addr option) outcome" where
  "node_entry h i a =
     obind (getKey h a) (\<lambda>k. obind (getValue h a) (\<lambda>v. obind (get_forward h a i) (\<lambda>p. ret (k, v, p))))"

partial_function (option) print_level ::
  "('k \<Rightarrow> 'v \<Rightarrow> string) \<Rightarrow> ('k, 'v) heap \<Rightarrow> nat \<Rightarrow> addr option \<Rightarrow> string \<Rightarrow> string outcome"
where
  "print_level fmt h i node out =
     (case node of
        None \<Rightarrow> ret out
      | Some a \<Rightarrow>
          (case node_entry h i a of
             None \<Rightarrow> None
           | Some (Inl e) \<Rightarrow> fail e
           | Some (Inr (k, v, p)) \<Rightarrow> print_level fmt h i p (out @ fmt k v)))"

declare print_level.simps [code]

section \<open>Printing and dumping\<close>

definition display_entry :: "string \<Rightarrow> string \<Rightarrow> string" where
  "display_entry k v = k @ '':'' @ v @ '';''"

fun display_levels ::
  "('k \<Rightarrow> 'v \<Rightarrow> string) \<Rightarrow> ('k, 'v) skiplist \<Rightarrow> nat list \<Rightarrow> string \<Rightarrow> string outcome" where
  "display_levels fmt s [] out = ret out"
| "display_levels fmt s (i # is) out =
     obind (get_forward (mem s) (headerNode s) i) (\<lambda>node.
     obind (print_level fmt (mem s) i node (out @ ''Level '' @ decimal i @ '': '')) (\<lambda>out'.
     display_levels fmt s is (out' @ [newline])))"

definition display_as :: "('k \<Rightarrow> 'v \<Rightarrow> string) \<Rightarrow> ('k, 'v) skiplist \<Rightarrow> string outcome" where
  "display_as fmt s =
     display_levels fmt s [0 ..< curLevel s + 1] ([newline] @ ''****Skip List****'' @ [newline])"

definition displayList :: "string_list \<Rightarrow> string outcome" where
  "displayList = display_as display_entry"

definition dump_entry :: "string \<Rightarrow> string \<Rightarrow> string" where
  "dump_entry k v = k @ '':'' @ v @ [newline]"

definition dump_as :: "('k \<Rightarrow> 'v \<Rightarrow> string) \<Rightarrow> ('k, 'v) skiplist \<Rightarrow> string outcome" where
  "dump_as fmt s =
     obind (get_forward (mem s) (headerNode s) 0) (\<lambda>node. print_level fmt (mem s) 0 node [])"

definition dumpFile :: "string_list \<Rightarrow> string outcome" where
  "dumpFile = dump_as dump_entry"

section \<open>Loading\<close>

definition loadFile :: "string option \<Rightarrow> string_list \<Rightarrow> string_list outcome" where
  "loadFile file s =
     load_lines insertElement (case file of None \<Rightarrow> [] | Some text \<Rightarrow> getlines text) [] [] s"

definition SkipList_default :: "int list \<Rightarrow> string option \<Rightarrow> string_list outcome" where
  "SkipList_default rs file = loadFile file (SkipList 32 [] [] rs)"

section \<open>What the loops print\<close>

lemma print_level_linked:
  assumes "linked (nxt h i) (a # as)" and "\<forall>b \<in> set (a # as). node_ok h b \<and> i \<le> level_at h b"
  shows "print_level fmt h i (nxt h i a) out =
           ret (out @ concat (map (\<lambda>p. fmt (fst p) (snd p)) (contents h as)))"
  using assms
proof (induction as arbitrary: a out)
  case Nil
  then show ?case by (subst print_level.simps) simp
next
  case (Cons b as)
  then have "node_entry h i b = ret (key_at h b, val_at h b, nxt h i b)"
    by (simp add: node_entry_def getKey_ok getValue_ok get_forward_ok)
  moreover have "nxt h i a = Some b" using Cons.prems(1) by simp
  ultimately have "print_level fmt h i (nxt h i a) out =
      print_level fmt h i (nxt h i b) (out @ fmt (key_at h b) (val_at h b))"
    by (subst print_level.simps) (simp add: ret_def)
  then show ?case using Cons by simp
qed

lemma print_level_chains:
  assumes ch: "chains h hdr m as" and i: "i \<le> m"
  shows "obind (get_forward h hdr i) (\<lambda>node. print_level fmt h i node out) =
           ret (out @ concat (map (\<lambda>p. fmt (fst p) (snd p)) (contents h (level_list h as i))))"
proof -
  have "get_forward h hdr i = ret (nxt h i hdr)"
    using ch i by (simp add: chains_def get_forward_ok)
  moreover have "print_level fmt h i (nxt h i hdr) out =
      ret (out @ concat (map (\<lambda>p. fmt (fst p) (snd p)) (contents h (level_list h as i))))"
  proof (rule print_level_linked)
    show "linked (nxt h i) (hdr # level_list h as i)" using ch i by (simp add: chains_def)
    show "\<forall>b \<in> set (hdr # level_list h as i). node_ok h b \<and> i \<le> level_at h b"
      using chains_node [OF ch i] by auto
  qed
  ultimately show ?thesis by simp
qed

lemma dump_as_rep:
  assumes "sl_rep s xs"
  shows "dump_as fmt s = ret (concat (map (\<lambda>p. fmt (fst p) (snd p)) xs))"
proof -
  from assms obtain as where sl: "sl_chain s as" and xs: "xs = contents (mem s) as"
    by (auto simp: sl_rep_def)
  then show ?thesis
    unfolding dump_as_def xs
    using print_level_chains [of "mem s" "headerNode s" "maxLevel s" as 0 fmt "[]"]
    by (simp add: sl_chain_def)
qed

lemma dump_rep: "sl_rep s xs \<Longrightarrow> dumpFile s = ret (concat (map (\<lambda>p. entry_line p @ [newline]) xs))"
  by (simp add: dumpFile_def dump_as_rep dump_entry_def entry_line_def DELIMITER_def)

text \<open>The text \<open>displayList\<close> prints for a level.\<close>

definition level_text ::
  "('k \<Rightarrow> 'v \<Rightarrow> string) \<Rightarrow> ('k, 'v) skiplist \<Rightarrow> addr list \<Rightarrow> nat \<Rightarrow> string" where
  "level_text fmt s as i = ''Level '' @ decimal i @ '': '' @
     concat (map (\<lambda>p. fmt (fst p) (snd p)) (contents (mem s) (level_list (mem s) as i))) @
     [newline]"

lemma display_levels_chain:
  assumes "chains (mem s) (headerNode s) (maxLevel s) as" and "\<forall>i \<in> set is. i \<le> maxLevel s"
  shows "display_levels fmt s is out = ret (out @ concat (map (level_text fmt s as) is))"
  using assms(2)
proof (induction "is" arbitrary: out)
  case (Cons i "is")
  then show ?case
    using print_level_chains [OF assms(1), of i fmt]
    by (simp add: level_text_def flip: obind_assoc)
qed simp

lemma display_as_chain:
  assumes "sl_chain s as"
  shows "display_as fmt s = ret ([newline] @ ''****Skip List****'' @ [newline]
    @ concat (map (level_text fmt s as) [0 ..< curLevel s + 1]))"
  using assms display_levels_chain [of s as "[0 ..< curLevel s + 1]" fmt]
  by (auto simp: sl_chain_def display_as_def simp del: upt_Suc)

section \<open>Loading refines storing the entries of the file\<close>

interpretation sl_string: string_store insertElement deleteElement searchElement sl_rep draws_ready
  by unfold_locales

lemma load_rep:
  assumes "sl_rep s xs" and "draws_ready (length (getlines text) + n) s"
  obtains s' where "loadFile (Some text) s = ret s'" and "sl_rep s' (puts (file_entries text) xs)"
    and "draws_ready n s'"
  using sl_string.load_lines_law [OF assms, of "[]" "[]"] that
  by (auto simp: loadFile_def file_entries_def)

lemma load_yields:
  assumes "sl_rep s xs"
  shows "yields {} (\<lambda>s'. sl_rep s' (case file of None \<Rightarrow> xs | Some text \<Rightarrow> puts (file_entries text) xs)) (loadFile file s)"
  using assms sl_string.load_lines_safe [OF assms, of "[]" "[]"]
  by (cases "file") (simp_all add: loadFile_def file_entries_def)

end
