(* ===== verification/SkipListWorker.thy ===== *)
theory SkipListWorker
  imports SkipList_IO
begin

text \<open>
  The command worker of the storage server (\<open>src/storage/SkipListWorker.cpp\<close>): splitting a command
  line into words, looking the command name up, and the six handlers, over a worker state that holds
  the database and the store file. The reply of a command is the returned string.

  \<open>handlerGET\<close> hands the search to \<open>_readThreadPool\<close> and waits for its result, so it is the search.
\<close>

section \<open>Splitting a command line\<close>

function advance :: "(char \<Rightarrow> bool) \<Rightarrow> string \<Rightarrow> nat \<Rightarrow> nat" where
  "advance p cmd right =
     (if right < length cmd \<and> p (cmd ! right) then advance p cmd (right + 1) else right)"
  by pat_completeness auto
termination
  by (relation "measure (\<lambda>(p, cmd, right). length cmd - right)") auto

declare advance.simps [simp del]

lemma advance_ge: "right \<le> advance p cmd right"
proof (induction p cmd right rule: advance.induct)
  case (1 p cmd right)
  then show ?case by (cases "right < length cmd \<and> p (cmd ! right)") (auto simp: advance.simps [of p cmd right])
qed

function split_loop :: "string \<Rightarrow> nat \<Rightarrow> string list \<Rightarrow> string list" where
  "split_loop cmd right cmdList =
     (if right < length cmd then
        let left = advance (\<lambda>c. c = CHR '' '') cmd right;
            right' = advance (\<lambda>c. c \<noteq> CHR '' '') cmd left;
            str = take (right' - left) (drop left cmd);
            cmdList' = (if length str \<noteq> 0 then cmdList @ [str] else cmdList)
        in split_loop cmd (right' + 1) cmdList'
      else cmdList)"
  by pat_completeness auto
termination
proof (relation "measure (\<lambda>(cmd, right, cmdList). length cmd - right)", goal_cases)
  case (2 cmd right cmdList left right' str cmdList')
  then have "right \<le> right'" using advance_ge order.trans by blast
  with 2(1) show ?case by auto
qed simp

declare split_loop.simps [simp del]

section \<open>Commands\<close>

datatype parseState = ERR | SET | GET | DEL | LOAD | DUMP

definition toupper :: "char \<Rightarrow> char" where
  "toupper c = (let n = of_char c :: nat in if 97 \<le> n \<and> n \<le> 122 then char_of (n - 32) else c)"

definition cmdMap :: "string \<Rightarrow> parseState option" where
  "cmdMap = [''SET'' \<mapsto> SET, ''GET'' \<mapsto> GET, ''DEL'' \<mapsto> DEL, ''LOAD'' \<mapsto> LOAD, ''DUMP'' \<mapsto> DUMP]"

definition parseCommand :: "string \<Rightarrow> (parseState \<times> string list) outcome" where
  "parseCommand cmd =
     (let cmdList = split_loop cmd 0 [] in
      case cmdList of
        [] \<Rightarrow> fail Empty_vector
      | front # _ \<Rightarrow>
          (let cmdName = map toupper front in
           case cmdMap cmdName of None \<Rightarrow> ret (ERR, cmdList) | Some st \<Rightarrow> ret (st, cmdList)))"

record worker =
  myDB :: string_list
  store_file :: "string option"   \<comment> \<open>the text in \<open>./store/dumpFile\<close>, \<open>None\<close> when it does not open\<close>
  store_writable :: bool          \<comment> \<open>whether the file can be opened for writing\<close>

definition handlerERR :: "string list \<Rightarrow> worker \<Rightarrow> (string \<times> worker) outcome" where
  "handlerERR cmdList w =
     ret (''error : please enter a correct command : SET/DEL/GET/LOAD/DUMP'' @ [newline], w)"

definition handlerSET :: "string list \<Rightarrow> worker \<Rightarrow> (string \<times> worker) outcome" where
  "handlerSET cmdList w =
     (if length cmdList \<noteq> 3 then
        ret (''error : please enter a correct command : SET key value'' @ [newline], w)
      else
        obind (insertElement (cmdList ! 1) (cmdList ! 2) (myDB w)) (\<lambda>(r, db).
        if r = 0 then ret (''ok : SET successfully'' @ [newline], w\<lparr>myDB := db\<rparr>)
        else ret (''warning : '' @ cmdList ! 1 @ ''is already exited'' @ [newline], w\<lparr>myDB := db\<rparr>)))"

definition handlerDEL :: "string list \<Rightarrow> worker \<Rightarrow> (string \<times> worker) outcome" where
  "handlerDEL cmdList w =
     (if length cmdList \<noteq> 2 then
        ret (''error : please enter a correct command : DEL key'' @ [newline], w)
      else
        obind (deleteElement (cmdList ! 1) (myDB w)) (\<lambda>(r, db).
        if r then ret (''ok : DEL successfully'' @ [newline], w\<lparr>myDB := db\<rparr>)
        else ret (''warning : '' @ cmdList ! 1 @ '' is not existed'' @ [newline], w\<lparr>myDB := db\<rparr>)))"

definition handlerGET :: "string list \<Rightarrow> worker \<Rightarrow> (string \<times> worker) outcome" where
  "handlerGET cmdList w =
     (if length cmdList \<noteq> 2 then
        ret (''please enter a correct command : GET key'' @ [newline], w)
      else
        obind (searchElement (cmdList ! 1) [] (myDB w)) (\<lambda>(searchResult, value).
        if searchResult then ret (''ok : '' @ value @ [newline], w)
        else ret (''warning : '' @ cmdList ! 1 @ '' is not existed'' @ [newline], w)))"

definition handlerDUMP :: "string list \<Rightarrow> worker \<Rightarrow> (string \<times> worker) outcome" where
  "handlerDUMP cmdList w =
     obind (dumpFile (myDB w)) (\<lambda>text.
     ret (''ok : dump file successfully'' @ [newline],
          if store_writable w then w\<lparr>store_file := Some text\<rparr> else w))"

definition handlerLOAD :: "string list \<Rightarrow> worker \<Rightarrow> (string \<times> worker) outcome" where
  "handlerLOAD cmdList w =
     obind (loadFile (store_file w) (myDB w)) (\<lambda>db.
     ret (''ok : load file successfully'' @ [newline], w\<lparr>myDB := db\<rparr>))"

text \<open>The dispatch: the enumerator is the index into the vector of handlers.\<close>

definition handler_table :: "(string list \<Rightarrow> worker \<Rightarrow> (string \<times> worker) outcome) list" where
  "handler_table = [handlerERR, handlerSET, handlerGET, handlerDEL, handlerLOAD, handlerDUMP]"

fun parseState_code :: "parseState \<Rightarrow> nat" where
  "parseState_code ERR = 0"
| "parseState_code SET = 1"
| "parseState_code GET = 2"
| "parseState_code DEL = 3"
| "parseState_code LOAD = 4"
| "parseState_code DUMP = 5"

definition dealWithCmd :: "string \<Rightarrow> worker \<Rightarrow> (string \<times> worker) outcome" where
  "dealWithCmd cmd w =
     obind (parseCommand cmd) (\<lambda>(state, cmdList).
     if parseState_code state < length handler_table
     then (handler_table ! parseState_code state) cmdList w
     else fail Out_of_range)"

section \<open>The words of a command line\<close>

function words :: "string \<Rightarrow> string list" where
  "words s =
     (case dropWhile (\<lambda>c. c = CHR '' '') s of
        [] \<Rightarrow> []
      | c # cs \<Rightarrow> takeWhile (\<lambda>c. c \<noteq> CHR '' '') (c # cs) # words (dropWhile (\<lambda>c. c \<noteq> CHR '' '') (c # cs)))"
  by pat_completeness auto
termination
proof (relation "measure length", goal_cases)
  case (2 s c cs)
  have "length (dropWhile (\<lambda>c. c = CHR '' '') s) \<le> length s" by (rule length_dropWhile_le)
  moreover have "c \<noteq> CHR '' ''"
    using 2 by (auto dest!: dropWhile_head)
  moreover have "length (dropWhile (\<lambda>c. c \<noteq> CHR '' '') cs) \<le> length cs" by (rule length_dropWhile_le)
  ultimately show ?case using 2 by simp
qed simp

declare words.simps [simp del]

lemma advance_eq:
  "right \<le> length cmd \<Longrightarrow> advance p cmd right = right + length (takeWhile p (drop right cmd))"
proof (induction p cmd right rule: advance.induct)
  case (1 p cmd right)
  show ?case
  proof (cases "right < length cmd")
    case True
    then have "drop right cmd = cmd ! right # drop (right + 1) cmd" by (simp add: Cons_nth_drop_Suc)
    with True 1 show ?thesis by (simp add: advance.simps [of p cmd right])
  next
    case False
    with 1 show ?thesis by (subst advance.simps) simp
  qed
qed

lemma advance_drop:
  assumes "right \<le> length cmd"
  shows "drop (advance p cmd right) cmd = dropWhile p (drop right cmd)"
    and "advance p cmd right \<le> length cmd"
    and "take (advance p cmd right - right) (drop right cmd) = takeWhile p (drop right cmd)"
proof -
  have "length (takeWhile p (drop right cmd)) \<le> length cmd - right"
    using length_takeWhile_le [of p "drop right cmd"] by simp
  then show "advance p cmd right \<le> length cmd" using assms by (simp add: advance_eq)
  show "drop (advance p cmd right) cmd = dropWhile p (drop right cmd)"
    by (simp add: advance_eq [OF assms] dropWhile_eq_drop add.commute)
  show "take (advance p cmd right - right) (drop right cmd) = takeWhile p (drop right cmd)"
    by (simp add: advance_eq [OF assms] flip: takeWhile_eq_take)
qed

lemma words_Nil [simp]: "words [] = []"
  by (simp add: words.simps)

lemma words_drop_space:
  assumes "case s of [] \<Rightarrow> True | c # _ \<Rightarrow> c = CHR '' ''"
  shows "words (drop 1 s) = words s"
proof (cases s)
  case (Cons c cs)
  then have s: "s = CHR '' '' # cs" using assms by simp
  have "words (CHR '' '' # cs) = words cs"
    by (simp only: words.simps [of cs] words.simps [of "CHR '' '' # cs"] dropWhile.simps simp_thms if_True)
  then show ?thesis by (simp add: s)
qed simp

lemma split_loop_words:
  "split_loop cmd right ws = ws @ (if right < length cmd then words (drop right cmd) else [])"
proof (induction cmd right ws rule: split_loop.induct)
  case (1 cmd right ws)
  show ?case
  proof (cases "right < length cmd")
    case False
    then show ?thesis by (simp add: split_loop.simps)
  next
    case True
    define left where "left = advance (\<lambda>c. c = CHR '' '') cmd right"
    define right' where "right' = advance (\<lambda>c. c \<noteq> CHR '' '') cmd left"
    define str where "str = take (right' - left) (drop left cmd)"
    let ?s = "drop left cmd"
    have l: "?s = dropWhile (\<lambda>c. c = CHR '' '') (drop right cmd)" and left: "left \<le> length cmd"
      using advance_drop [of right cmd "\<lambda>c. c = CHR '' ''"] True unfolding left_def by simp_all
    have r: "drop right' cmd = dropWhile (\<lambda>c. c \<noteq> CHR '' '') ?s"
      and str: "str = takeWhile (\<lambda>c. c \<noteq> CHR '' '') ?s"
      using advance_drop [OF left, of "\<lambda>c. c \<noteq> CHR '' ''"] unfolding right'_def str_def by simp_all
    have next': "words (drop right' cmd) = (if right' + 1 < length cmd then words (drop (right' + 1) cmd) else [])"
    proof -
      have "words (drop 1 (drop right' cmd)) = words (drop right' cmd)"
        by (rule words_drop_space) (auto simp: r split: list.splits dest: dropWhile_head)
      then show ?thesis by (auto simp: not_less)
    qed
    have "words (drop right cmd) = (if str = [] then [] else [str]) @ words (drop right' cmd)"
      using dropWhile_head [of "\<lambda>c. c = CHR '' ''" "drop right cmd"]
      by (cases ?s) (auto simp: words.simps [of "drop right cmd"] l [symmetric] r str)
    moreover have "split_loop cmd right ws =
        split_loop cmd (right' + 1) (if str = [] then ws else ws @ [str])"
      using True by (subst split_loop.simps) (simp add: Let_def left_def right'_def str_def)
    moreover have "split_loop cmd (right' + 1) (if str = [] then ws else ws @ [str]) =
        (if str = [] then ws else ws @ [str]) @
        (if right' + 1 < length cmd then words (drop (right' + 1) cmd) else [])"
      using "1.IH" [OF True left_def right'_def str_def refl] by (cases "str = []") simp_all
    ultimately show ?thesis using True next' by simp
  qed
qed

lemma split_loop_0: "split_loop cmd 0 [] = words cmd"
  by (simp add: split_loop_words)

end
