(* ===== verification/SkipListWorker_Correct.thy ===== *)
theory SkipListWorker_Correct
  imports SkipListWorker
begin

text \<open>
  The command worker refines an interpreter over an abstract state: the sorted contents of the
  database and the text of the store file. \<open>abs_cmd\<close> is the interpreter, \<open>worker_rep\<close> the relation
  between a worker and an abstract state, and \<open>cmd_draws\<close> bounds how many insertions a command makes.
\<close>

section \<open>The words of a line\<close>

lemma words_spaces [simp]: "words (replicate n (CHR '' '') @ s) = words s"
proof (induction n)
  case (Suc n)
  have "words (drop 1 (CHR '' '' # replicate n (CHR '' '') @ s)) = words (CHR '' '' # replicate n (CHR '' '') @ s)"
    by (rule words_drop_space) simp
  with Suc show ?case by simp
qed simp

lemma words_word:
  assumes "w \<noteq> []" and "CHR '' '' \<notin> set w" and "s = [] \<or> hd s = CHR '' ''"
  shows "words (w @ s) = w # words s"
proof -
  obtain c cs where w: "w = c # cs" and c: "c \<noteq> CHR '' ''" using assms(1,2) by (cases w) auto
  have t: "takeWhile (\<lambda>c. c \<noteq> CHR '' '') (w @ s) = w" and d: "dropWhile (\<lambda>c. c \<noteq> CHR '' '') (w @ s) = s"
    using assms(2,3) by (induction w) (cases s; auto)+
  show ?thesis
    using t d w c by (subst words.simps) simp
qed

lemma words_Cons_space [simp]: "words (CHR '' '' # s) = words s"
  using words_spaces [of 1 s] by simp

text \<open>Words and the spaces before and after each of them.\<close>

fun spaced :: "(nat \<times> string) list \<Rightarrow> nat \<Rightarrow> string" where
  "spaced [] n = replicate n (CHR '' '')"
| "spaced [(m, w)] n = replicate m (CHR '' '') @ w @ replicate n (CHR '' '')"
| "spaced ((m, w) # ws) n = replicate m (CHR '' '') @ w @ [CHR '' ''] @ spaced ws n"

lemma words_spaced:
  assumes "\<forall>(m, w) \<in> set ws. w \<noteq> [] \<and> CHR '' '' \<notin> set w"
  shows "words (spaced ws n) = map snd ws"
  using assms
proof (induction ws n rule: spaced.induct)
  case (1 n)
  show ?case using words_spaces [of n "[]"] by simp
next
  case (2 m w n)
  have "replicate n (CHR '' '') = [] \<or> hd (replicate n (CHR '' '')) = CHR '' ''" by (cases n) auto
  then have "words (w @ replicate n (CHR '' '')) = w # words (replicate n (CHR '' ''))"
    using 2 by (intro words_word) auto
  then show ?case using words_spaces [of n "[]"] by simp
next
  case (3 m w x ws n)
  then show ?case by (simp add: words_word)
qed

section \<open>The abstract interpreter\<close>

record abs_worker =
  abs_db :: "(string \<times> string) list"
  abs_file :: "string option"
  abs_writable :: bool

definition dump_text :: "(string \<times> string) list \<Rightarrow> string" where
  "dump_text xs = concat (map (\<lambda>p. entry_line p @ [newline]) xs)"

definition entries_of :: "string option \<Rightarrow> (string \<times> string) list" where
  "entries_of file = (case file of None \<Rightarrow> [] | Some text \<Rightarrow> file_entries text)"

fun abs_exec :: "parseState \<Rightarrow> string list \<Rightarrow> abs_worker \<Rightarrow> string \<times> abs_worker" where
  "abs_exec ERR ws a = (''error : please enter a correct command : SET/DEL/GET/LOAD/DUMP'' @ [newline], a)"
| "abs_exec SET ws a =
     (case ws of
        [c, k, v] \<Rightarrow>
          (if k \<in> fst ` set (abs_db a) then ''warning : '' @ k @ ''is already exited'' @ [newline]
           else ''ok : SET successfully'' @ [newline], a\<lparr>abs_db := put k v (abs_db a)\<rparr>)
      | _ \<Rightarrow> (''error : please enter a correct command : SET key value'' @ [newline], a))"
| "abs_exec GET ws a =
     (case ws of
        [c, k] \<Rightarrow>
          (case map_of (abs_db a) k of Some v \<Rightarrow> ''ok : '' @ v @ [newline]
           | None \<Rightarrow> ''warning : '' @ k @ '' is not existed'' @ [newline], a)
      | _ \<Rightarrow> (''please enter a correct command : GET key'' @ [newline], a))"
| "abs_exec DEL ws a =
     (case ws of
        [c, k] \<Rightarrow>
          (if k \<in> fst ` set (abs_db a) then ''ok : DEL successfully'' @ [newline]
           else ''warning : '' @ k @ '' is not existed'' @ [newline], a\<lparr>abs_db := del k (abs_db a)\<rparr>)
      | _ \<Rightarrow> (''error : please enter a correct command : DEL key'' @ [newline], a))"
| "abs_exec LOAD ws a =
     (''ok : load file successfully'' @ [newline], a\<lparr>abs_db := puts (entries_of (abs_file a)) (abs_db a)\<rparr>)"
| "abs_exec DUMP ws a =
     (''ok : dump file successfully'' @ [newline],
      if abs_writable a then a\<lparr>abs_file := Some (dump_text (abs_db a))\<rparr> else a)"

definition command_of :: "string \<Rightarrow> parseState" where
  "command_of cmd = (case cmdMap (map toupper (hd (words cmd))) of None \<Rightarrow> ERR | Some st \<Rightarrow> st)"

definition abs_cmd :: "string \<Rightarrow> abs_worker \<Rightarrow> string \<times> abs_worker" where
  "abs_cmd cmd a = abs_exec (command_of cmd) (words cmd) a"

definition cmd_draws :: "string \<Rightarrow> abs_worker \<Rightarrow> nat" where
  "cmd_draws cmd a = (case command_of cmd of
       SET \<Rightarrow> 1
     | LOAD \<Rightarrow> (case abs_file a of None \<Rightarrow> 0 | Some text \<Rightarrow> length (getlines text))
     | _ \<Rightarrow> 0)"

definition worker_rep :: "worker \<Rightarrow> abs_worker \<Rightarrow> bool" where
  "worker_rep w a \<longleftrightarrow> sl_rep (myDB w) (abs_db a) \<and> store_file w = abs_file a \<and> store_writable w = abs_writable a"

section \<open>Refinement\<close>

lemma parseCommand_words:
  "parseCommand cmd = (if words cmd = [] then fail Empty_vector else ret (command_of cmd, words cmd))"
  by (auto simp: parseCommand_def Let_def split_loop_0 command_of_def split: list.splits option.splits)

lemma handler_in_table: "parseState_code st < length handler_table"
  by (cases st) (simp_all add: handler_table_def)

lemma handler_dispatch:
  "handler_table ! parseState_code ERR = handlerERR"
  "handler_table ! parseState_code SET = handlerSET"
  "handler_table ! parseState_code GET = handlerGET"
  "handler_table ! parseState_code DEL = handlerDEL"
  "handler_table ! parseState_code LOAD = handlerLOAD"
  "handler_table ! parseState_code DUMP = handlerDUMP"
  by (simp_all add: handler_table_def)

lemma handlerSET_refines:
  assumes rep: "worker_rep w a" and rdy: "draws_ready (Suc n) (myDB w)"
  shows "\<exists>w'. handlerSET ws w = ret (fst (abs_exec SET ws a), w') \<and>
           worker_rep w' (snd (abs_exec SET ws a)) \<and> draws_ready n (myDB w')"
proof (cases "length ws = 3")
  case False
  then have "abs_exec SET ws a = (''error : please enter a correct command : SET key value'' @ [newline], a)"
    by (auto split: list.splits)
  then show ?thesis using False rep sl.ready_less [OF rdy] by (simp add: handlerSET_def)
next
  case True
  then obtain c k v where ws: "ws = [c, k, v]"
    by (auto simp: numeral_3_eq_3 length_Suc_conv)
  obtain s' where "insertElement k v (myDB w) = ret (if k \<in> fst ` set (abs_db a) then 1 else 0, s')"
    "sl_rep s' (put k v (abs_db a))" "draws_ready n s'"
    using sl.insert_law [OF _ rdy, of "abs_db a" k v] rep unfolding worker_rep_def by blast
  then show ?thesis using rep by (auto simp: ws handlerSET_def worker_rep_def)
qed

lemma handlerGET_refines:
  assumes rep: "worker_rep w a"
  shows "handlerGET ws w = ret (fst (abs_exec GET ws a), w) \<and> snd (abs_exec GET ws a) = a"
proof (cases "length ws = 2")
  case False
  then have "abs_exec GET ws a = (''please enter a correct command : GET key'' @ [newline], a)"
    by (auto split: list.splits)
  then show ?thesis using False by (simp add: handlerGET_def)
next
  case True
  then obtain c k where ws: "ws = [c, k]" by (auto simp: numeral_2_eq_2 length_Suc_conv)
  then show ?thesis
    using sl.search_law [of "myDB w" "abs_db a" k "[]"] rep
    by (auto simp: handlerGET_def worker_rep_def split: option.splits)
qed

lemma handlerDEL_refines:
  assumes rep: "worker_rep w a" and rdy: "draws_ready n (myDB w)"
  shows "\<exists>w'. handlerDEL ws w = ret (fst (abs_exec DEL ws a), w') \<and>
           worker_rep w' (snd (abs_exec DEL ws a)) \<and> draws_ready n (myDB w')"
proof (cases "length ws = 2")
  case False
  then have "abs_exec DEL ws a = (''error : please enter a correct command : DEL key'' @ [newline], a)"
    by (auto split: list.splits)
  then show ?thesis using False rep rdy by (simp add: handlerDEL_def)
next
  case True
  then obtain c k where ws: "ws = [c, k]" by (auto simp: numeral_2_eq_2 length_Suc_conv)
  obtain s' where "deleteElement k (myDB w) = ret (k \<in> fst ` set (abs_db a), s')"
    "sl_rep s' (del k (abs_db a))" "draws_ready n s'"
    using sl.delete_law [OF _ rdy, of "abs_db a" k] rep unfolding worker_rep_def by blast
  then show ?thesis using rep by (auto simp: ws handlerDEL_def worker_rep_def)
qed

lemma handlerLOAD_refines:
  assumes rep: "worker_rep w a"
    and rdy: "draws_ready ((case abs_file a of None \<Rightarrow> 0 | Some text \<Rightarrow> length (getlines text)) + n) (myDB w)"
  shows "\<exists>w'. handlerLOAD ws w = ret (fst (abs_exec LOAD ws a), w') \<and>
           worker_rep w' (snd (abs_exec LOAD ws a)) \<and> draws_ready n (myDB w')"
proof (cases "abs_file a")
  case None
  then show ?thesis using rep rdy by (simp add: handlerLOAD_def worker_rep_def loadFile_def entries_of_def)
next
  case (Some t)
  obtain s' where "loadFile (Some t) (myDB w) = ret s'"
    "sl_rep s' (puts (file_entries t) (abs_db a))" "draws_ready n s'"
    using load_rep [of "myDB w" "abs_db a" t n] rep rdy Some by (auto simp: worker_rep_def)
  then show ?thesis using rep Some by (simp add: handlerLOAD_def worker_rep_def entries_of_def)
qed

lemma handlerDUMP_refines:
  assumes rep: "worker_rep w a"
  shows "\<exists>w'. handlerDUMP ws w = ret (fst (abs_exec DUMP ws a), w') \<and>
           worker_rep w' (snd (abs_exec DUMP ws a)) \<and> myDB w' = myDB w"
  using rep dump_rep [of "myDB w" "abs_db a"]
  by (auto simp: handlerDUMP_def worker_rep_def dump_text_def)

lemma deal_refines:
  assumes rep: "worker_rep w a" and rdy: "draws_ready (cmd_draws cmd a + n) (myDB w)"
    and nonblank: "words cmd \<noteq> []"
  shows "\<exists>w'. dealWithCmd cmd w = ret (fst (abs_cmd cmd a), w') \<and>
           worker_rep w' (snd (abs_cmd cmd a)) \<and> draws_ready n (myDB w')"
proof -
  have deal: "dealWithCmd cmd w = (handler_table ! parseState_code (command_of cmd)) (words cmd) w"
    using nonblank by (simp add: dealWithCmd_def parseCommand_words handler_in_table)
  show ?thesis
  proof (cases "command_of cmd")
    case ERR
    then show ?thesis
      using rep rdy
      by (simp add: deal abs_cmd_def handler_dispatch handlerERR_def cmd_draws_def del: parseState_code.simps)
  next
    case SET
    then show ?thesis
      using handlerSET_refines [OF rep, of n "words cmd"] rdy
      by (simp add: deal abs_cmd_def handler_dispatch cmd_draws_def del: parseState_code.simps)
  next
    case GET
    then show ?thesis
      using handlerGET_refines [OF rep, of "words cmd"] rep rdy
      by (simp add: deal abs_cmd_def handler_dispatch cmd_draws_def del: parseState_code.simps)
  next
    case DEL
    then show ?thesis
      using handlerDEL_refines [OF rep, of n "words cmd"] rdy
      by (simp add: deal abs_cmd_def handler_dispatch cmd_draws_def del: parseState_code.simps)
  next
    case LOAD
    then show ?thesis
      using handlerLOAD_refines [OF rep, of n "words cmd"] rdy
      by (simp add: deal abs_cmd_def handler_dispatch cmd_draws_def
          del: parseState_code.simps abs_exec.simps)
  next
    case DUMP
    then show ?thesis
      using handlerDUMP_refines [OF rep, of "words cmd"] rdy
      by (auto simp: deal abs_cmd_def handler_dispatch cmd_draws_def
          simp del: parseState_code.simps abs_exec.simps)
  qed
qed

section \<open>Without a promise of random numbers\<close>

text \<open>
  Whatever random numbers are left, a command ends abnormally only when it is blank; a \<open>SET\<close> or \<open>LOAD\<close>
  that lacks an even number does not return, and all others follow the interpreter.
\<close>

abbreviation follows :: "parseState \<Rightarrow> string list \<Rightarrow> abs_worker \<Rightarrow> string \<times> worker \<Rightarrow> bool" where
  "follows st ws a \<equiv> \<lambda>(r, w'). r = fst (abs_exec st ws a) \<and> worker_rep w' (snd (abs_exec st ws a))"

lemma draws_ready_0 [simp]: "draws_ready 0 s"
  by (simp add: draws_ready_def)

lemma handlerSET_yields:
  assumes "worker_rep w a"
  shows "yields {} (follows SET ws a) (handlerSET ws w)"
proof (cases "length ws = 3")
  case False
  then have "abs_exec SET ws a = (''error : please enter a correct command : SET key value'' @ [newline], a)"
    by (auto split: list.splits)
  then show ?thesis using False assms by (simp add: handlerSET_def)
next
  case True
  then obtain c k v where ws: "ws = [c, k, v]"
    by (auto simp: numeral_3_eq_3 length_Suc_conv)
  have rep: "sl_rep (myDB w) (abs_db a)" using assms by (simp add: worker_rep_def)
  show ?thesis
    unfolding handlerSET_def
    by (simp only: True simp_thms if_False)
      (rule yields_bind [OF insert_yields [OF rep]], use assms in \<open>simp add: ws worker_rep_def split_beta\<close>)
qed

lemma handlerLOAD_yields:
  assumes "worker_rep w a"
  shows "yields {} (follows LOAD ws a) (handlerLOAD ws w)"
proof -
  have "sl_rep (myDB w) (abs_db a)" "store_file w = abs_file a" using assms by (simp_all add: worker_rep_def)
  with load_yields [of "myDB w" "abs_db a" "store_file w"] show ?thesis
    using assms unfolding handlerLOAD_def
    by (auto simp: worker_rep_def entries_of_def intro!: yields_bind split: option.splits)
qed

lemma handler_yields:
  assumes "worker_rep w a"
  shows "yields {} (follows st ws a) ((handler_table ! parseState_code st) ws w)"
proof (cases st)
  case ERR
  then show ?thesis using assms by (simp add: handler_dispatch handlerERR_def del: parseState_code.simps)
next
  case DEL
  then show ?thesis
    using handlerDEL_refines [OF assms, of 0 ws] by (auto simp: handler_dispatch simp del: parseState_code.simps abs_exec.simps)
next
  case GET
  then show ?thesis
    using handlerGET_refines [OF assms, of ws] assms
    by (simp add: handler_dispatch del: parseState_code.simps abs_exec.simps)
next
  case DUMP
  then show ?thesis
    using handlerDUMP_refines [OF assms, of ws] by (auto simp: handler_dispatch simp del: parseState_code.simps abs_exec.simps)
qed (use handlerSET_yields [OF assms] handlerLOAD_yields [OF assms] in
      \<open>simp_all add: handler_dispatch del: parseState_code.simps abs_exec.simps\<close>)

lemma deal_yields:
  assumes "worker_rep w a"
  shows "yields {Empty_vector} (\<lambda>(r, w'). words cmd \<noteq> [] \<and> r = fst (abs_cmd cmd a) \<and> worker_rep w' (snd (abs_cmd cmd a)))
    (dealWithCmd cmd w)"
proof (cases "words cmd = []")
  case True
  then show ?thesis by (simp add: dealWithCmd_def parseCommand_words)
next
  case False
  then have "dealWithCmd cmd w = (handler_table ! parseState_code (command_of cmd)) (words cmd) w"
    by (simp add: dealWithCmd_def parseCommand_words handler_in_table)
  then show ?thesis
    using False handler_yields [OF assms, of "command_of cmd" "words cmd"]
    by (auto simp: abs_cmd_def elim!: yields_mono)
qed

end
