(* ===== verification/Storage_Properties.thy ===== *)
theory Storage_Properties
  imports SkipListWorker_Correct
begin

text \<open>
  The properties of the storage engine: the skip list against a sorted list of pairs, its memory,
  its random levels, the store file, and the command worker against an abstract interpreter.
\<close>

section \<open>A sample state for the witnesses\<close>

definition sample_list :: "(string, string) skiplist" where
  "sample_list = SkipList 2 [] [] [1, 2, 4]"

definition sample_worker :: worker where
  "sample_worker = \<lparr>myDB = sample_list, store_file = None, store_writable = True\<rparr>"

definition sample_abs :: abs_worker where
  "sample_abs = \<lparr>abs_db = [], abs_file = None, abs_writable = True\<rparr>"

lemma sample_rep: "sl_rep sample_list []"
  by (simp add: sample_list_def SkipList_rep)

lemma sample_draws: "draws_ready 2 sample_list"
  by (simp add: sample_list_def SkipList_def draws_ready_def)

lemma sample_worker_rep: "worker_rep sample_worker sample_abs"
  by (simp add: worker_rep_def sample_worker_def sample_abs_def sample_rep)

section \<open>Properties\<close>

text \<open>
  C1. A command line with at least one word is answered, and changes the database and the store
  file, exactly as the interpreter over the sorted list of pairs prescribes; it never runs into
  undefined behaviour. The hypothesis on random numbers is that \<open>rand()\<close> returns an even number
  as often as the command inserts.
\<close>

theorem command_refinement:
  assumes "worker_rep w a" and "draws_ready (cmd_draws cmd a + n) (myDB w)" and "words cmd \<noteq> []"
  shows "\<exists>w'. dealWithCmd cmd w = ret (fst (abs_cmd cmd a), w')
    \<and> worker_rep w' (snd (abs_cmd cmd a)) \<and> draws_ready n (myDB w')"
  using deal_refines [OF assms] .

theorem command_refinement_witness:
  "\<exists>w'. dealWithCmd ''set a b'' sample_worker = ret (''ok : SET successfully'' @ [newline], w')
     \<and> sl_rep (myDB w') [(''a'', ''b'')]"
proof -
  have c: "command_of ''set a b'' = SET" "words ''set a b'' = [''set'', ''a'', ''b'']"
    by (simp_all add: words.simps command_of_def toupper_def cmdMap_def char_of_def bit_0)
  have "draws_ready (cmd_draws ''set a b'' sample_abs + 1) (myDB sample_worker)"
    using sample_draws by (simp add: cmd_draws_def c sample_worker_def numeral_2_eq_2)
  from command_refinement [OF sample_worker_rep this] c show ?thesis
    by (auto simp: abs_cmd_def sample_abs_def worker_rep_def)
qed

text \<open>
  C5. \<open>insertElement\<close> on a list holding \<open>xs\<close> returns 1 and replaces the value when the key is there,
  returns 0 and adds the pair at its place otherwise, and leaves a well-formed skip list with its
  mutex released.
\<close>

theorem insert_refines_sorted_list:
  assumes "sl_rep s xs" and "\<exists>r \<in> set (rands s). even r"
  shows "\<exists>s'. insertElement k v s = ret (if k \<in> fst ` set xs then 1 else 0, s') \<and> sl_rep s' (put k v xs)
    \<and> \<not> mtx_held s' \<and> sl_size s' = int (length (put k v xs))"
proof -
  obtain s' where "insertElement k v s = ret (if k \<in> fst ` set xs then 1 else 0, s')" "sl_rep s' (put k v xs)"
    using insert_rep [OF assms] by metis
  then show ?thesis using sl_rep_size [of s'] by (auto simp: sl_rep_def sl_chain_def)
qed

theorem insert_refines_sorted_list_witness:
  "\<exists>s'. insertElement ''k'' ''v'' sample_list = ret (0, s') \<and> sl_rep s' [(''k'', ''v'')]"
proof -
  have "\<exists>r \<in> set (rands sample_list). even r" by (simp add: sample_list_def SkipList_def)
  from insert_refines_sorted_list [OF sample_rep this, of "''k''" "''v''"] show ?thesis by auto
qed

text \<open>
  C10. \<open>deleteElement\<close> returns whether the key was there and leaves a well-formed skip list of the other
  pairs.
\<close>

theorem delete_refines_sorted_list:
  assumes "sl_rep s xs"
  shows "\<exists>s'. deleteElement k s = ret (k \<in> fst ` set xs, s') \<and> sl_rep s' (del k xs)
    \<and> \<not> mtx_held s' \<and> sl_size s' = int (length (del k xs))"
proof -
  obtain s' where "deleteElement k s = ret (k \<in> fst ` set xs, s')" "sl_rep s' (del k xs)"
    using delete_rep [OF assms] by metis
  then show ?thesis using sl_rep_size [of s'] by (auto simp: sl_rep_def sl_chain_def)
qed

theorem delete_refines_sorted_list_witness:
  "\<exists>s'. deleteElement ''k'' sample_list = ret (False, s') \<and> sl_rep s' []"
  using delete_refines_sorted_list [OF sample_rep, of "''k''"] by auto

text \<open>
  C12. \<open>searchElement\<close> finds exactly the pairs of the list; on a miss it leaves the out parameter as it
  was.
\<close>

theorem search_refines_lookup:
  assumes "sl_rep s xs"
  shows "searchElement k w s = ret (case map_of xs k of None \<Rightarrow> (False, w) | Some v \<Rightarrow> (True, v))"
  using search_rep [OF assms] .

theorem search_refines_lookup_witness:
  "searchElement ''k'' ''old'' sample_list = ret (False, ''old'')"
  using search_refines_lookup [OF sample_rep, of "''k''" "''old''"] by simp

text \<open>After an insertion the key is found with the new value, and every other search is as before.\<close>

theorem insertion_is_found:
  assumes "sl_rep s xs" and "draws_ready (Suc n) s"
  shows "\<exists>r s'. insertElement k v s = ret (r, s') \<and> searchElement k w s' = ret (True, v)
    \<and> (\<forall>k'. k' \<noteq> k \<longrightarrow> searchElement k' w s' = searchElement k' w s)"
  using sl.insert_then_search [OF assms] by metis

theorem insertion_is_found_witness:
  "\<exists>r s'. insertElement ''k'' ''v'' sample_list = ret (r, s') \<and> searchElement ''k'' [] s' = ret (True, ''v'')"
  using insertion_is_found [OF sample_rep, of 1 "''k''" "''v''" "[]"] sample_draws
  by (auto simp: numeral_2_eq_2)

text \<open>After a deletion the key is not found, and every other search is as before.\<close>

theorem deletion_is_not_found:
  assumes "sl_rep s xs"
  shows "\<exists>r s'. deleteElement k s = ret (r, s') \<and> searchElement k w s' = ret (False, w)
    \<and> (\<forall>k'. k' \<noteq> k \<longrightarrow> searchElement k' w s' = searchElement k' w s)"
  using sl.delete_then_search [OF assms, of 0] by (metis draws_ready_def le0)

theorem deletion_is_not_found_witness:
  "\<exists>r s'. deleteElement ''k'' sample_list = ret (r, s') \<and> searchElement ''k'' [] s' = ret (False, [])"
  using deletion_is_not_found [OF sample_rep, of "''k''" "[]"] by blast

text \<open>
  C13. The levels of the list only speed the search up: on a well-formed list \<open>searchElement\<close> returns what
  a scan of the whole linked list of level 0 returns.
\<close>

theorem search_is_linear_scan:
  assumes "sl_rep s xs"
  shows "searchElement key w s = linear_search (mem s) key w (headerNode s)"
  using searchElement_linear [OF assms] .

theorem search_is_linear_scan_witness:
  "\<exists>s. insertElement ''a'' ''b'' sample_list = ret (0, s)
     \<and> searchElement ''a'' [] s = linear_search (mem s) ''a'' [] (headerNode s)"
proof -
  have "\<exists>r \<in> set (rands sample_list). even r" by (simp add: sample_list_def SkipList_def)
  then obtain s where "insertElement ''a'' ''b'' sample_list = ret (0, s)" "sl_rep s (put ''a'' ''b'' [])"
    by (rule insert_rep [OF sample_rep]) simp
  then show ?thesis using search_is_linear_scan [of s] by blast
qed



text \<open>
  C40. \<open>getRandomLevel\<close> returns exactly when \<open>rand()\<close> will return an even number; the level is the number
  of odd numbers before it, cut at the maximal level.
\<close>

theorem getRandomLevel_total:
  "getRandomLevel s =
     (if \<exists>r \<in> set (rands s). even r
      then ret (min (length (takeWhile odd (rands s))) (maxLevel s), s\<lparr>rands := tl (dropWhile odd (rands s))\<rparr>)
      else None)"
  using getRandomLevel_ends [of s] random_loop_open [of "rands s" 0] by (auto simp: getRandomLevel_def)

text \<open>
  C27. Dumping a list and loading the text into an empty one gives the same contents back, when no
  key is empty or holds a colon or a newline, and no value is empty or holds a newline.
\<close>

theorem dump_load_roundtrip:
  assumes "sl_rep s xs" and "\<forall>p \<in> set xs. storable p" and "sl_rep t []" and "draws_ready (length xs) t"
  shows "\<exists>text t'. dumpFile s = ret text \<and> loadFile (Some text) t = ret t' \<and> sl_rep t' xs"
proof -
  let ?text = "concat (map (\<lambda>p. entry_line p @ [newline]) xs)"
  have "file_entries ?text = xs" using file_entries_dump [OF assms(2)] .
  moreover have "getlines ?text = map entry_line xs"
    using assms(2) getlines_concat [of "map entry_line xs"] newline_not_delimiter
    by (force simp: comp_def storable_def entry_line_def)
  moreover have "puts xs [] = xs" using sl_rep_sorted [OF assms(1)] puts_sorted_append [of "[]" xs] by simp
  ultimately obtain t' where "loadFile (Some ?text) t = ret t'" "sl_rep t' xs"
    using load_rep [of t "[]" ?text 0] assms(3,4) by auto
  then show ?thesis using dump_rep [OF assms(1)] by blast
qed

theorem dump_load_roundtrip_witness:
  "\<exists>s text t. sl_rep s [(''a'', ''x:y'')] \<and> dumpFile s = ret text \<and> loadFile (Some text) sample_list = ret t
     \<and> sl_rep t [(''a'', ''x:y'')]"
proof -
  have "\<exists>r \<in> set (rands sample_list). even r" by (simp add: sample_list_def SkipList_def)
  then obtain s where s: "sl_rep s [(''a'', ''x:y'')]"
    using insert_rep [OF sample_rep, of "''a''" "''x:y''"] by auto
  have "\<forall>p \<in> set [(''a'', ''x:y'')]. storable p" by (simp add: storable_def DELIMITER_def newline_def)
  moreover have "draws_ready (length [(''a'', ''x:y'')]) sample_list"
    by (simp add: sample_list_def SkipList_def draws_ready_def)
  ultimately show ?thesis using dump_load_roundtrip [OF s _ sample_rep] s by blast
qed

text \<open>
  Loading any text stores exactly its valid lines, those with a colon and something on both
  sides of it; of several lines for a key the last one wins, and what was stored before stays
  unless it is overwritten.
\<close>

theorem load_stores_valid_lines:
  assumes "sl_rep s xs" and "draws_ready (length (getlines t)) s"
  shows "\<exists>s'. loadFile (Some t) s = ret s' \<and>
    (\<forall>k w. searchElement k w s' =
       ret (case (map_of xs ++ map_of (rev (file_entries t))) k of None \<Rightarrow> (False, w) | Some v \<Rightarrow> (True, v)))"
proof -
  obtain s' where s': "loadFile (Some t) s = ret s'" "sl_rep s' (puts (file_entries t) xs)"
    using load_rep [OF assms(1), of t 0] assms(2) by auto
  then show ?thesis
    using search_rep [OF s'(2)] map_of_puts [OF sl_rep_sorted [OF assms(1)]] by auto
qed

theorem load_stores_valid_lines_witness:
  "\<exists>s'. loadFile (Some (''a:1'' @ [newline] @ ''junk'')) sample_list = ret s'
     \<and> searchElement ''a'' [] s' = ret (True, ''1'')"
proof -
  let ?t = "''a:1'' @ [newline] @ ''junk''"
  have lines: "getlines ?t = [''a:1'', ''junk'']"
    using getlines_line [of "''a:1''" "''junk''"] by (simp add: newline_def getlines.simps)
  have "draws_ready (length (getlines ?t)) sample_list"
    unfolding lines by (simp add: sample_list_def SkipList_def draws_ready_def)
  then obtain s' where s': "loadFile (Some ?t) sample_list = ret s'"
    "\<forall>k w. searchElement k w s' = ret (case (map_of [] ++ map_of (rev (file_entries ?t))) k of
        None \<Rightarrow> (False, w) | Some v \<Rightarrow> (True, v))"
    using load_stores_valid_lines [OF sample_rep] by blast
  have "file_entries ?t = [(''a'', ''1'')]"
    unfolding file_entries_def lines
    by (simp add: line_entry_def DELIMITER_def find_char_def std_find_def)
  then have "searchElement ''a'' [] s' = ret (True, ''1'')" using s'(2) by (simp del: append.simps)
  then show ?thesis using s'(1) by blast
qed

text \<open>
  \<open>displayList\<close> prints, for every level up to the current one, the pairs of the nodes whose level
  reaches it, in key order; level 0 holds all of them.
\<close>

theorem displayList_prints_levels:
  assumes "sl_chain s as"
  shows "displayList s = ret ([newline] @ ''****Skip List****'' @ [newline]
      @ concat (map (\<lambda>i. ''Level '' @ decimal i @ '': ''
          @ concat (map (\<lambda>a. display_entry (key_at (mem s) a) (val_at (mem s) a))
              (filter (\<lambda>a. i \<le> level_at (mem s) a) as)) @ [newline]) [0 ..< curLevel s + 1]))"
proof -
  have "level_text display_entry s as = (\<lambda>i. ''Level '' @ decimal i @ '': ''
          @ concat (map (\<lambda>a. display_entry (key_at (mem s) a) (val_at (mem s) a))
              (filter (\<lambda>a. i \<le> level_at (mem s) a) as)) @ [newline])"
    by (rule ext) (simp add: level_text_def level_list_def contents_def comp_def)
  then show ?thesis using display_as_chain [OF assms, of display_entry] by (simp add: displayList_def)
qed

theorem displayList_prints_levels_witness:
  "displayList sample_list = ret ([newline] @ ''****Skip List****'' @ [newline] @ ''Level 0: '' @ [newline])"
proof -
  have "sl_chain sample_list []" by (simp add: sample_list_def SkipList_chain)
  moreover have "curLevel sample_list = 0" by (simp add: sample_list_def SkipList_def)
  ultimately show ?thesis
    using displayList_prints_levels [of sample_list "[]"] by (simp add: decimal.simps digit_char_def char_of_def bit_0)
qed

text \<open>
  A command line made of words with any number of blanks around them is split into those
  words, and its command is the one the first word names in any mixture of cases.
\<close>

theorem parseCommand_splits_words:
  assumes "\<forall>(m, w) \<in> set ws. w \<noteq> [] \<and> CHR '' '' \<notin> set w" and "ws \<noteq> []"
  shows "parseCommand (spaced ws n) =
    ret (case cmdMap (map toupper (snd (ws ! 0))) of None \<Rightarrow> ERR | Some st \<Rightarrow> st, map snd ws)"
  using assms
  by (simp add: parseCommand_words words_spaced command_of_def hd_conv_nth)

theorem parseCommand_splits_words_witness:
  "parseCommand ''  gEt k '' = ret (GET, [''gEt'', ''k''])"
proof -
  let ?ws = "[(2 :: nat, ''gEt''), (0, ''k'')]"
  have c: "cmdMap (map toupper (snd (?ws ! 0))) = Some GET"
    by (simp add: toupper_def cmdMap_def char_of_def bit_0)
  have sp: "spaced ?ws 1 = ''  gEt k ''" by (simp add: numeral_2_eq_2)
  have "parseCommand (spaced ?ws 1) =
      ret (case cmdMap (map toupper (snd (?ws ! 0))) of None \<Rightarrow> ERR | Some st \<Rightarrow> st, map snd ?ws)"
    by (rule parseCommand_splits_words) simp_all
  then show ?thesis unfolding c sp by simp
qed

text \<open>
  A command line without a word makes the parser call \<open>front()\<close> on an empty vector; every other
  line is parsed.
\<close>

theorem parseCommand_blank_line:
  "parseCommand cmd = fail Empty_vector \<longleftrightarrow> set cmd \<subseteq> {CHR '' ''}"
proof -
  have "words cmd = [] \<longleftrightarrow> dropWhile (\<lambda>c. c = CHR '' '') cmd = []"
    by (cases "dropWhile (\<lambda>c. c = CHR '' '') cmd") (simp_all add: words.simps [of cmd] del: dropWhile_eq_Nil_conv)
  also have "\<dots> \<longleftrightarrow> set cmd \<subseteq> {CHR '' ''}" by (auto simp: dropWhile_eq_Nil_conv)
  finally show ?thesis by (simp add: parseCommand_words)
qed

end
