(* ===== verification/Epoll.thy ===== *)
theory Epoll
  imports Prelude "HOL-Library.Word"
begin

text \<open>
  Channels and the epoll wrapper (\<open>src/network/Channel.cpp\<close>, \<open>src/network/Epoll.cpp\<close> and the
  forwarding functions of \<open>src/network/EventLoop.cpp\<close>). The system call \<open>epoll_ctl\<close> is a parameter
  \<open>ctl\<close> of the definitions that use it: it maps the state \<open>'k\<close> of an epoll instance to the new state,
  or to \<open>None\<close> when the call returns -1. What the code needs of it is the locale \<open>epoll_instance\<close>.
\<close>

unbundle bit_operations_syntax

section \<open>Leaving the process on a failed call\<close>

definition ErrorIf :: "bool \<Rightarrow> string \<Rightarrow> unit outcome" where
  "ErrorIf cond errmsg = (if cond then fail (Exit errmsg) else ret ())"

lemma ErrorIf_simps [simp, outcome_simps]:
  "ErrorIf True m = fail (Exit m)" "ErrorIf False m = ret ()"
  by (simp_all add: ErrorIf_def)

section \<open>Event masks\<close>

definition EPOLLIN :: "32 word" where "EPOLLIN = 0x001"
definition EPOLLPRI :: "32 word" where "EPOLLPRI = 0x002"
definition EPOLLOUT :: "32 word" where "EPOLLOUT = 0x004"
definition EPOLLHUP :: "32 word" where "EPOLLHUP = 0x010"
definition EPOLLET :: "32 word" where "EPOLLET = 0x80000000"

lemmas epoll_masks = EPOLLIN_def EPOLLPRI_def EPOLLOUT_def EPOLLHUP_def EPOLLET_def

datatype epoll_op = EPOLL_CTL_ADD | EPOLL_CTL_MOD | EPOLL_CTL_DEL

type_synonym 'k epoll_ctl = "'k \<Rightarrow> epoll_op \<Rightarrow> int \<Rightarrow> 32 word \<Rightarrow> 'k option"

section \<open>Channels\<close>

record channel =
  ch_fd :: int
  listen_events :: "32 word"
  ready_events :: "32 word"
  in_epoll :: bool

definition Channel :: "int \<Rightarrow> channel" where
  "Channel fd = \<lparr>ch_fd = fd, listen_events = 0, ready_events = 0, in_epoll = False\<rparr>"

definition isWriting :: "channel \<Rightarrow> bool" where
  "isWriting ch \<longleftrightarrow> listen_events ch AND EPOLLOUT \<noteq> 0"

definition SetReadyEvents :: "32 word \<Rightarrow> channel \<Rightarrow> channel" where
  "SetReadyEvents ev ch = ch\<lparr>ready_events := ev\<rparr>"

text \<open>
  \<open>Epoll::UpdateChannel\<close> registers a channel on its first update and modifies it later;
  \<open>Epoll::DeleteChannel\<close> takes it out. A failing call ends the process.
\<close>

definition UpdateChannel :: "'k epoll_ctl \<Rightarrow> channel \<Rightarrow> 'k \<Rightarrow> (channel \<times> 'k) outcome" where
  "UpdateChannel ctl ch k =
     (if \<not> in_epoll ch then
        (case ctl k EPOLL_CTL_ADD (ch_fd ch) (listen_events ch) of
           None \<Rightarrow> fail (Exit ''epoll add error'')
         | Some k' \<Rightarrow> ret (ch\<lparr>in_epoll := True\<rparr>, k'))
      else
        (case ctl k EPOLL_CTL_MOD (ch_fd ch) (listen_events ch) of
           None \<Rightarrow> fail (Exit ''epoll modify error'')
         | Some k' \<Rightarrow> ret (ch, k')))"

definition DeleteChannel :: "'k epoll_ctl \<Rightarrow> channel \<Rightarrow> 'k \<Rightarrow> (channel \<times> 'k) outcome" where
  "DeleteChannel ctl ch k =
     (case ctl k EPOLL_CTL_DEL (ch_fd ch) 0 of
        None \<Rightarrow> fail (Exit ''epoll delete error'')
      | Some k' \<Rightarrow> ret (ch\<lparr>in_epoll := False\<rparr>, k'))"

definition EnableRead :: "'k epoll_ctl \<Rightarrow> channel \<Rightarrow> 'k \<Rightarrow> (channel \<times> 'k) outcome" where
  "EnableRead ctl ch k =
     UpdateChannel ctl (ch\<lparr>listen_events := listen_events ch OR (EPOLLIN OR EPOLLPRI)\<rparr>) k"

definition UseET :: "'k epoll_ctl \<Rightarrow> channel \<Rightarrow> 'k \<Rightarrow> (channel \<times> 'k) outcome" where
  "UseET ctl ch k = UpdateChannel ctl (ch\<lparr>listen_events := listen_events ch OR EPOLLET\<rparr>) k"

definition disableAll :: "'k epoll_ctl \<Rightarrow> channel \<Rightarrow> 'k \<Rightarrow> (channel \<times> 'k) outcome" where
  "disableAll ctl ch k = UpdateChannel ctl (ch\<lparr>listen_events := listen_events ch AND 0\<rparr>) k"

section \<open>Dispatch\<close>

text \<open>
  A callback is a \<open>std::function<void()>\<close>: \<open>None\<close> when it was never set. It runs on the whole state
  \<open>'s\<close> of the loop; \<open>ready\<close> reads the channel's \<open>ready_events_\<close> in it, again before every test.
\<close>

type_synonym 's callback = "('s \<Rightarrow> 's outcome) option"

definition call :: "'s callback \<Rightarrow> 's \<Rightarrow> 's outcome" where
  "call cb s = (case cb of None \<Rightarrow> fail Bad_function | Some f \<Rightarrow> f s)"

definition HandleEvent ::
  "('s \<Rightarrow> 32 word) \<Rightarrow> 's callback \<Rightarrow> 's callback \<Rightarrow> 's callback \<Rightarrow> 's \<Rightarrow> 's outcome" where
  "HandleEvent ready read_cb write_cb close_cb s =
     obind (if ready s AND EPOLLHUP \<noteq> 0 \<and> \<not> (ready s AND EPOLLIN \<noteq> 0)
            then (if close_cb \<noteq> None then call close_cb s else ret s) else ret s) (\<lambda>s.
     obind (if ready s AND (EPOLLIN OR EPOLLPRI) \<noteq> 0 then call read_cb s else ret s) (\<lambda>s.
     (if ready s AND EPOLLOUT \<noteq> 0 then call write_cb s else ret s)))"

text \<open>
  \<open>Epoll::Poll\<close>: \<open>epoll_wait\<close> returns -1 (\<open>None\<close>) or the ready list, an array of channel pointers
  with their events. The channels live in a store.
\<close>

fun ready_channels :: "(nat \<times> 32 word) list \<Rightarrow> (nat \<rightharpoonup> channel) \<Rightarrow> (nat list \<times> (nat \<rightharpoonup> channel)) outcome" where
  "ready_channels [] m = ret ([], m)"
| "ready_channels ((p, ev) # evs) m =
     (case m p of
        None \<Rightarrow> fail Bad_pointer
      | Some ch \<Rightarrow>
          obind (ready_channels evs (m(p \<mapsto> SetReadyEvents ev ch))) (\<lambda>(ps, m').
          ret (p # ps, m')))"

definition Poll ::
  "(nat \<times> 32 word) list option \<Rightarrow> (nat \<rightharpoonup> channel) \<Rightarrow> (nat list \<times> (nat \<rightharpoonup> channel)) outcome" where
  "Poll nfds m =
     (case nfds of
        None \<Rightarrow> fail (Exit ''epoll wait error'')
      | Some evs \<Rightarrow> ready_channels evs m)"

section \<open>The interface of an epoll instance\<close>

text \<open>
  The documented behaviour of \<open>epoll_ctl\<close> on a descriptor that can be polled: adding fails only
  for a registered descriptor, modifying and deleting fail only for one that is not registered,
  and a successful call changes that descriptor's entry only. \<open>interest\<close> is the interest list.
\<close>

text \<open>A channel and the kernel agree when the flag \<open>in_epoll_\<close> says whether it is registered.\<close>

definition agrees :: "('k \<Rightarrow> int \<rightharpoonup> 32 word) \<Rightarrow> channel \<Rightarrow> 'k \<Rightarrow> bool" where
  "agrees interest ch k \<longleftrightarrow> (in_epoll ch \<longleftrightarrow> interest k (ch_fd ch) \<noteq> None)"

locale epoll_instance =
  fixes ctl :: "'k epoll_ctl"
    and interest :: "'k \<Rightarrow> int \<rightharpoonup> 32 word"
  assumes add_law: "interest k fd = None \<Longrightarrow>
      \<exists>k'. ctl k EPOLL_CTL_ADD fd ev = Some k' \<and> interest k' = (interest k)(fd \<mapsto> ev)"
    and mod_law: "interest k fd \<noteq> None \<Longrightarrow>
      \<exists>k'. ctl k EPOLL_CTL_MOD fd ev = Some k' \<and> interest k' = (interest k)(fd \<mapsto> ev)"
    and del_law: "interest k fd \<noteq> None \<Longrightarrow>
      \<exists>k'. ctl k EPOLL_CTL_DEL fd ev = Some k' \<and> interest k' = (interest k)(fd := None)"
begin

lemma update_ok:
  assumes "agrees interest ch k"
  obtains ch' k' where "UpdateChannel ctl ch k = ret (ch', k')" and "agrees interest ch' k'"
    and "interest k' = (interest k)(ch_fd ch \<mapsto> listen_events ch)"
    and "ch' = ch\<lparr>in_epoll := True\<rparr>"
proof (cases "in_epoll ch")
  case True
  then obtain k' where "ctl k EPOLL_CTL_MOD (ch_fd ch) (listen_events ch) = Some k'"
    and "interest k' = (interest k)(ch_fd ch \<mapsto> listen_events ch)"
    using assms mod_law unfolding agrees_def by meson
  with True that [of ch k'] show ?thesis by (simp add: UpdateChannel_def agrees_def)
next
  case False
  then obtain k' where "ctl k EPOLL_CTL_ADD (ch_fd ch) (listen_events ch) = Some k'"
    and "interest k' = (interest k)(ch_fd ch \<mapsto> listen_events ch)"
    using assms add_law unfolding agrees_def by meson
  with False that [of "ch\<lparr>in_epoll := True\<rparr>" k'] show ?thesis
    by (simp add: UpdateChannel_def agrees_def)
qed

lemma delete_ok:
  assumes "agrees interest ch k" and "in_epoll ch"
  obtains k' where "DeleteChannel ctl ch k = ret (ch\<lparr>in_epoll := False\<rparr>, k')"
    and "interest k' = (interest k)(ch_fd ch := None)"
    and "agrees interest (ch\<lparr>in_epoll := False\<rparr>) k'"
proof -
  obtain k' where "ctl k EPOLL_CTL_DEL (ch_fd ch) 0 = Some k'"
    and "interest k' = (interest k)(ch_fd ch := None)"
    using assms del_law unfolding agrees_def by meson
  with that [of k'] show ?thesis by (simp add: DeleteChannel_def agrees_def)
qed

text \<open>A new channel that asks for input and then for edge-triggered reports.\<close>

lemma enable_et_ok:
  assumes "interest k fd = None"
  obtains ch1 k1 ch k' where "EnableRead ctl (Channel fd) k = ret (ch1, k1)" and "UseET ctl ch1 k1 = ret (ch, k')"
    and "ch = \<lparr>ch_fd = fd, listen_events = EPOLLIN OR EPOLLPRI OR EPOLLET, ready_events = 0, in_epoll = True\<rparr>"
    and "agrees interest ch k'" and "interest k' = (interest k)(fd \<mapsto> (EPOLLIN OR EPOLLPRI OR EPOLLET))"
proof -
  let ?ch = "(Channel fd)\<lparr>listen_events := listen_events (Channel fd) OR (EPOLLIN OR EPOLLPRI)\<rparr>"
  have a0: "agrees interest ?ch k" using assms by (simp add: agrees_def Channel_def)
  obtain ch1 k1 where 1: "EnableRead ctl (Channel fd) k = ret (ch1, k1)" "agrees interest ch1 k1"
    "interest k1 = (interest k)(fd \<mapsto> listen_events ?ch)" "ch1 = ?ch\<lparr>in_epoll := True\<rparr>"
    unfolding EnableRead_def by (rule update_ok [OF a0]) (simp add: Channel_def)
  let ?ch1 = "ch1\<lparr>listen_events := listen_events ch1 OR EPOLLET\<rparr>"
  have a1: "agrees interest ?ch1 k1" using 1(2) by (simp add: agrees_def)
  obtain ch2 k2 where 2: "UseET ctl ch1 k1 = ret (ch2, k2)" "agrees interest ch2 k2"
    "interest k2 = (interest k1)(ch_fd ch1 \<mapsto> listen_events ?ch1)" "ch2 = ?ch1\<lparr>in_epoll := True\<rparr>"
    unfolding UseET_def by (rule update_ok [OF a1]) simp
  show thesis
    by (rule that [OF 1(1) 2(1)]) (use 1(3,4) 2(2-4) in \<open>simp_all add: Channel_def or.assoc\<close>)
qed

text \<open>
  \<open>Connection::deleteConnection\<close> disables a channel and deletes it. This never ends the process,
  also when the channel had already been deleted: disabling registers it again first.
\<close>

lemma disable_delete_ok:
  assumes "agrees interest ch k"
  shows "\<exists>ch' k'. obind (disableAll ctl ch k) (\<lambda>(ch, k). DeleteChannel ctl ch k) = ret (ch', k')
           \<and> agrees interest ch' k' \<and> ch_fd ch' = ch_fd ch \<and> \<not> in_epoll ch' \<and> listen_events ch' = 0
           \<and> ready_events ch' = ready_events ch
           \<and> interest k' = (interest k)(ch_fd ch := None)"
proof -
  let ?ch = "ch\<lparr>listen_events := listen_events ch AND 0\<rparr>"
  have "agrees interest ?ch k" using assms by (simp add: agrees_def)
  then obtain ch1 k1 where 1: "disableAll ctl ch k = ret (ch1, k1)" "agrees interest ch1 k1"
    "interest k1 = (interest k)(ch_fd ch \<mapsto> 0)" "ch1 = ?ch\<lparr>in_epoll := True\<rparr>"
    unfolding disableAll_def by (rule update_ok) simp
  then obtain k2 where "DeleteChannel ctl ch1 k1 = ret (ch1\<lparr>in_epoll := False\<rparr>, k2)"
    "interest k2 = (interest k1)(ch_fd ch1 := None)" "agrees interest (ch1\<lparr>in_epoll := False\<rparr>) k2"
    using delete_ok [of ch1 k1] by auto
  with 1 show ?thesis by simp
qed

end

text \<open>The interest list itself, as a finite map, is such an instance.\<close>

fun map_ctl :: "(int \<rightharpoonup> 32 word) epoll_ctl" where
  "map_ctl k EPOLL_CTL_ADD fd ev = (if k fd = None then Some (k(fd \<mapsto> ev)) else None)"
| "map_ctl k EPOLL_CTL_MOD fd ev = (if k fd = None then None else Some (k(fd \<mapsto> ev)))"
| "map_ctl k EPOLL_CTL_DEL fd ev = (if k fd = None then None else Some (k(fd := None)))"

interpretation map_epoll: epoll_instance map_ctl "\<lambda>k. k"
  by unfold_locales auto

section \<open>Channels never ask for writability\<close>

text \<open>No operation of the code sets \<open>EPOLLOUT\<close>, so \<open>isWriting\<close> is false for every channel it builds.\<close>

definition never_writes :: "channel \<Rightarrow> bool" where
  "never_writes ch \<longleftrightarrow> \<not> isWriting ch"

lemma listen_masks [simp]:
  "(e OR (EPOLLIN OR EPOLLPRI)) AND EPOLLOUT = e AND EPOLLOUT"
  "(e OR EPOLLET) AND EPOLLOUT = e AND EPOLLOUT"
  "(e AND 0) AND EPOLLOUT = 0"
  by (simp_all add: epoll_masks bit.conj_disj_distrib2)

lemma never_writes_Channel [simp]: "never_writes (Channel fd)"
  by (simp add: never_writes_def isWriting_def Channel_def)

lemma UpdateChannel_listen:
  "UpdateChannel ctl ch k = ret (ch', k') \<Longrightarrow> listen_events ch' = listen_events ch"
  by (auto simp: UpdateChannel_def split: if_splits option.splits)

lemma never_writes_ops:
  "never_writes ch \<Longrightarrow> EnableRead ctl ch k = ret (ch', k') \<Longrightarrow> never_writes ch'"
  "never_writes ch \<Longrightarrow> UseET ctl ch k = ret (ch', k') \<Longrightarrow> never_writes ch'"
  "disableAll ctl ch k = ret (ch', k') \<Longrightarrow> never_writes ch'"
  "never_writes ch \<Longrightarrow> DeleteChannel ctl ch k = ret (ch', k') \<Longrightarrow> never_writes ch'"
  by (auto simp: never_writes_def isWriting_def EnableRead_def UseET_def disableAll_def DeleteChannel_def
      dest!: UpdateChannel_listen split: option.splits)

end
