(* ===== verification/Connection.thy ===== *)
theory Connection
  imports Epoll
begin

text \<open>
  The byte buffers (\<open>src/network/Buffer.cpp\<close>), the parts of \<open>src/network/Socket.cpp\<close> a connection
  uses, and connections (\<open>src/network/Connection.cpp\<close>).

  A socket is the kernel's object: the results the next \<open>read\<close> and \<open>write\<close> calls return are inputs
  of the model, the bytes the kernel has accepted are \<open>wire\<close>. A computation that asks for a result
  when none is left is \<open>None\<close>.
\<close>

section \<open>Buffers\<close>

text \<open>\<open>Append(str, size)\<close> stops at the first NUL; \<open>ToStr\<close> hands out a C string.\<close>

definition Append_n :: "string \<Rightarrow> nat \<Rightarrow> string \<Rightarrow> string" where
  "Append_n str n b = b @ c_string (take n str)"

definition Append_s :: "string \<Rightarrow> string \<Rightarrow> string" where
  "Append_s str b = b @ str"

definition ToStr :: "string \<Rightarrow> string" where
  "ToStr b = c_string b"

definition SetBuf :: "string \<Rightarrow> string \<Rightarrow> string" where
  "SetBuf str b = c_string str"

section \<open>Sockets\<close>

datatype read_result = Read_bytes string | Read_EINTR | Read_EAGAIN | Read_error
datatype write_result = Wrote nat | Write_EINTR | Write_EAGAIN | Write_error

record sock =
  sock_fd :: int
  nonblocking :: bool
  incoming :: "read_result list"
  outcomes :: "write_result list"
  wire :: string
  shutdown_fails :: bool
  write_shut :: bool

definition IsNonBlocking :: "sock \<Rightarrow> bool" where
  "IsNonBlocking so = nonblocking so"

definition shutdownWrite :: "sock \<Rightarrow> sock outcome" where
  "shutdownWrite so =
     obind (ErrorIf (shutdown_fails so) ''socket accept error'') (\<lambda>_. ret (so\<lparr>write_shut := True\<rparr>))"

section \<open>Connections\<close>

datatype conn_state = State_Invalid | Handshaking | Connected | Closed | State_Failed

record connection =
  conn_sock :: sock
  conn_channel :: channel
  conn_state :: conn_state
  read_buffer :: string
  send_buffer :: string
  conn_context :: "64 word"

text \<open>\<open>delete_connection_callback_\<close> works on the connection itself and its loop's epoll instance.\<close>

type_synonym 'k conn = "connection \<times> 'k"
type_synonym 'k delete_callback = "int \<Rightarrow> 'k conn \<Rightarrow> 'k conn outcome"

text \<open>
  The constructor first makes a \<open>Socket\<close> of its own, whose descriptor \<open>spare\<close> it then overwrites: a
  failing \<open>socket\<close> call (-1) ends the process.
\<close>

definition Connection :: "'k epoll_ctl \<Rightarrow> int \<Rightarrow> sock \<Rightarrow> 'k \<Rightarrow> 'k conn outcome" where
  "Connection ctl spare so k =
     obind (ErrorIf (spare = -1) ''socket create error'') (\<lambda>_.
     obind (EnableRead ctl (Channel (sock_fd so)) k) (\<lambda>(ch, k).
     obind (UseET ctl ch k) (\<lambda>(ch, k).
     ret (\<lparr>conn_sock = so, conn_channel = ch, conn_state = Connected,
           read_buffer = [], send_buffer = [], conn_context = 0\<rparr>, k))))"

definition isConnected :: "connection \<Rightarrow> bool" where
  "isConnected c \<longleftrightarrow> conn_state c = Connected"

definition Close :: "'k delete_callback \<Rightarrow> 'k conn \<Rightarrow> 'k conn outcome" where
  "Close del_cb = (\<lambda>(c, k). del_cb (sock_fd (conn_sock c)) (c\<lparr>conn_state := Closed\<rparr>, k))"

definition deleteConnection :: "'k epoll_ctl \<Rightarrow> 'k conn \<Rightarrow> 'k conn outcome" where
  "deleteConnection ctl = (\<lambda>(c, k).
     let c = c\<lparr>conn_state := Closed\<rparr> in
     obind (disableAll ctl (conn_channel c) k) (\<lambda>(ch, k).
     obind (DeleteChannel ctl ch k) (\<lambda>(ch, k).
     ret (c\<lparr>conn_channel := ch\<rparr>, k))))"

text \<open>
  The read loop: chunks of up to 1024 bytes until the kernel has no more. End of file and any other
  error close the connection.
\<close>

fun read_loop :: "'k delete_callback \<Rightarrow> read_result list \<Rightarrow> 'k conn \<Rightarrow> 'k conn outcome" where
  "read_loop del_cb [] ck = None"
| "read_loop del_cb (r # rs) (c, k) =
     (let c = c\<lparr>conn_sock := (conn_sock c)\<lparr>incoming := rs\<rparr>\<rparr> in
      case r of
        Read_bytes b \<Rightarrow>
          if 0 < length b then
            read_loop del_cb rs (c\<lparr>read_buffer := Append_n b (length b) (read_buffer c)\<rparr>, k)
          else Close del_cb (c\<lparr>conn_state := Closed\<rparr>, k)
      | Read_EINTR \<Rightarrow> read_loop del_cb rs (c, k)
      | Read_EAGAIN \<Rightarrow> ret (c, k)
      | Read_error \<Rightarrow> Close del_cb (c\<lparr>conn_state := Closed\<rparr>, k))"

definition ReadNonBlocking :: "'k delete_callback \<Rightarrow> 'k conn \<Rightarrow> 'k conn outcome" where
  "ReadNonBlocking del_cb ck = read_loop del_cb (incoming (conn_sock (fst ck))) ck"

fun ReadBlocking :: "'k conn \<Rightarrow> 'k conn outcome" where
  "ReadBlocking (c, k) =
     (case incoming (conn_sock c) of
        [] \<Rightarrow> None
      | r # rs \<Rightarrow>
          (let c = c\<lparr>conn_sock := (conn_sock c)\<lparr>incoming := rs\<rparr>\<rparr> in
           case r of
             Read_bytes b \<Rightarrow>
               if 0 < length b then ret (c\<lparr>read_buffer := Append_n b (length b) (read_buffer c)\<rparr>, k)
               else ret (c\<lparr>conn_state := Closed\<rparr>, k)
           | _ \<Rightarrow> ret (c\<lparr>conn_state := Closed\<rparr>, k)))"

definition Read :: "'k delete_callback \<Rightarrow> 'k conn \<Rightarrow> 'k conn outcome" where
  "Read del_cb = (\<lambda>(c, k).
     if conn_state c \<noteq> Connected then ret (c, k)
     else (let c = c\<lparr>read_buffer := []\<rparr> in
           if IsNonBlocking (conn_sock c) then ReadNonBlocking del_cb (c, k) else ReadBlocking (c, k)))"

text \<open>
  The write loop over a copy of the send buffer. What is left when the kernel would block is given
  up: \<open>Write\<close> clears the buffer in every case.
\<close>

fun write_loop :: "string \<Rightarrow> nat \<Rightarrow> write_result list \<Rightarrow> connection \<Rightarrow> connection outcome" where
  "write_loop buf left [] c = (if 0 < left then None else ret c)"
| "write_loop buf left (w # ws) c =
     (if 0 < left then
        (let c = c\<lparr>conn_sock := (conn_sock c)\<lparr>outcomes := ws\<rparr>\<rparr> in
         case w of
           Write_EINTR \<Rightarrow> write_loop buf left ws c
         | Write_EAGAIN \<Rightarrow> ret c
         | Write_error \<Rightarrow> ret (c\<lparr>conn_state := Closed\<rparr>)
         | Wrote n \<Rightarrow>
             write_loop buf (left - n) ws
               (c\<lparr>conn_sock := (conn_sock c)\<lparr>wire := wire (conn_sock c) @
                    take n (drop (length buf - left) buf)\<rparr>\<rparr>))
      else ret c)"

definition WriteNonBlocking :: "connection \<Rightarrow> connection outcome" where
  "WriteNonBlocking c =
     write_loop (send_buffer c) (length (send_buffer c)) (outcomes (conn_sock c)) c"

definition WriteBlocking :: "connection \<Rightarrow> connection outcome" where
  "WriteBlocking c =
     (case outcomes (conn_sock c) of
        [] \<Rightarrow> None
      | w # ws \<Rightarrow>
          (let c = c\<lparr>conn_sock := (conn_sock c)\<lparr>outcomes := ws\<rparr>\<rparr> in
           case w of
             Wrote n \<Rightarrow> ret (c\<lparr>conn_sock := (conn_sock c)\<lparr>wire := wire (conn_sock c) @ take n (send_buffer c)\<rparr>\<rparr>)
           | _ \<Rightarrow> ret (c\<lparr>conn_state := Closed\<rparr>)))"

definition Write :: "connection \<Rightarrow> connection outcome" where
  "Write c =
     (if conn_state c \<noteq> Connected then ret c
      else obind (if IsNonBlocking (conn_sock c) then WriteNonBlocking c else WriteBlocking c) (\<lambda>c.
           ret (c\<lparr>send_buffer := []\<rparr>)))"

definition SetSendBuffer :: "string \<Rightarrow> connection \<Rightarrow> connection" where
  "SetSendBuffer str c = c\<lparr>send_buffer := SetBuf str (send_buffer c)\<rparr>"

definition Send :: "string \<Rightarrow> connection \<Rightarrow> connection outcome" where
  "Send msg c = Write (SetSendBuffer (c_string msg) c)"

definition ReadBuffer :: "connection \<Rightarrow> string" where
  "ReadBuffer c = ToStr (read_buffer c)"

definition conn_shutdown :: "connection \<Rightarrow> connection outcome" where
  "conn_shutdown c =
     (if \<not> isWriting (conn_channel c)
      then obind (shutdownWrite (conn_sock c)) (\<lambda>so. ret (c\<lparr>conn_sock := so\<rparr>))
      else ret c)"

text \<open>\<open>Business\<close> is the channel's read callback: read what is there, then hand it to the user.\<close>

definition Business ::
  "'k delete_callback \<Rightarrow> ('k conn \<Rightarrow> 'k conn outcome) \<Rightarrow> 'k conn \<Rightarrow> 'k conn outcome" where
  "Business del_cb on_message ck = obind (Read del_cb ck) on_message"

section \<open>Reading\<close>

text \<open>The chunks of a burst that ends with \<open>EAGAIN\<close>.\<close>

fun burst :: "read_result list \<Rightarrow> string list option" where
  "burst [] = None"
| "burst (Read_bytes b # rs) = (if b = [] then None else map_option ((#) b) (burst rs))"
| "burst (Read_EINTR # rs) = burst rs"
| "burst (Read_EAGAIN # rs) = Some []"
| "burst (Read_error # rs) = None"

fun after_burst :: "read_result list \<Rightarrow> read_result list" where
  "after_burst [] = []"
| "after_burst (Read_EAGAIN # rs) = rs"
| "after_burst (_ # rs) = after_burst rs"

lemma read_loop_burst:
  assumes "burst rs = Some bs"
  shows "read_loop del_cb rs (c, k) =
    ret (c\<lparr>conn_sock := (conn_sock c)\<lparr>incoming := after_burst rs\<rparr>,
           read_buffer := read_buffer c @ concat (map c_string bs)\<rparr>, k)"
  using assms
proof (induction rs arbitrary: c bs rule: burst.induct)
  case (2 b rs)
  then show ?case by (fastforce simp: Let_def Append_n_def split: if_splits)
qed (auto simp: Let_def)

section \<open>Writing\<close>

text \<open>What the kernel has taken of \<open>left\<close> bytes when the loop stops, and whether it took them all.\<close>

fun accepted :: "nat \<Rightarrow> write_result list \<Rightarrow> nat option" where
  "accepted left [] = (if left = 0 then Some 0 else None)"
| "accepted left (w # ws) =
     (if left = 0 then Some 0
      else case w of
             Wrote n \<Rightarrow> if n \<le> left then map_option ((+) n) (accepted (left - n) ws) else None
           | Write_EINTR \<Rightarrow> accepted left ws
           | Write_EAGAIN \<Rightarrow> Some 0
           | Write_error \<Rightarrow> Some 0)"

lemma accepted_le: "accepted left ws = Some n \<Longrightarrow> n \<le> left"
  by (induction left ws arbitrary: n rule: accepted.induct)
    (fastforce split: if_splits write_result.splits)+

lemma write_loop_wire:
  assumes "accepted left ws = Some n" and "left \<le> length buf"
  shows "\<exists>c'. write_loop buf left ws c = ret c'
    \<and> wire (conn_sock c') = wire (conn_sock c) @ take n (drop (length buf - left) buf)
    \<and> conn_channel c' = conn_channel c \<and> send_buffer c' = send_buffer c
    \<and> sock_fd (conn_sock c') = sock_fd (conn_sock c)
    \<and> shutdown_fails (conn_sock c') = shutdown_fails (conn_sock c)
    \<and> write_shut (conn_sock c') = write_shut (conn_sock c)
    \<and> (n = left \<longrightarrow> conn_state c' = conn_state c)
    \<and> read_buffer c' = read_buffer c"
  using assms
proof (induction left ws arbitrary: n c rule: accepted.induct)
  case (1 left)
  then show ?case by (auto split: if_splits)
next
  case (2 left w ws)
  show ?case
  proof (cases "left = 0")
    case True
    with 2 show ?thesis by simp
  next
    case False
    show ?thesis
    proof (cases w)
      case (Wrote m)
      with 2 False obtain j where m: "m \<le> left" and j: "accepted (left - m) ws = Some j" and n: "n = m + j"
        by (auto split: if_splits)
      let ?c = "c\<lparr>conn_sock := (conn_sock c)\<lparr>outcomes := ws,
        wire := wire (conn_sock c) @ take m (drop (length buf - left) buf)\<rparr>\<rparr>"
      have "take m (drop (length buf - left) buf) @ take j (drop (length buf - (left - m)) buf)
            = take n (drop (length buf - left) buf)"
      proof -
        have "length buf - (left - m) = m + (length buf - left)" using m 2(4) by simp
        then show ?thesis unfolding n take_add drop_drop by simp
      qed
      moreover have "(m + j = left) = (j = left - m)" and "left - m \<le> length buf"
        using m 2(4) by auto
      ultimately show ?thesis
        using 2(1) [OF False Wrote m j, of ?c] Wrote n False by (simp add: Let_def)
    next
      case Write_EINTR
      with 2(2) [OF False Write_EINTR, of n "c\<lparr>conn_sock := (conn_sock c)\<lparr>outcomes := ws\<rparr>\<rparr>"] 2(3,4) False
      show ?thesis by (auto simp: Let_def)
    qed (use 2 False in \<open>auto simp: Let_def\<close>)
  qed
qed

lemma write_loop_nonblocking:
  "write_loop buf left ws c = ret c' \<Longrightarrow> nonblocking (conn_sock c') = nonblocking (conn_sock c)"
  by (induction buf left ws c rule: write_loop.induct)
    (fastforce simp: Let_def split: if_splits write_result.splits)+

text \<open>What sending leaves alone.\<close>

lemma write_loop_frame:
  "write_loop buf left ws c = ret c' \<Longrightarrow>
     conn_channel c' = conn_channel c \<and> sock_fd (conn_sock c') = sock_fd (conn_sock c)
     \<and> conn_context c' = conn_context c \<and> conn_state c' \<in> {conn_state c, Closed}"
  by (induction buf left ws c rule: write_loop.induct)
    (fastforce simp: Let_def split: if_splits write_result.splits)+

lemma WriteBlocking_frame:
  "WriteBlocking c = ret c' \<Longrightarrow>
     conn_channel c' = conn_channel c \<and> sock_fd (conn_sock c') = sock_fd (conn_sock c)
     \<and> conn_context c' = conn_context c \<and> conn_state c' \<in> {conn_state c, Closed}"
  by (auto simp: WriteBlocking_def Let_def split: list.splits write_result.splits)

lemma Send_frame:
  "Send msg c = ret c' \<Longrightarrow>
     conn_channel c' = conn_channel c \<and> sock_fd (conn_sock c') = sock_fd (conn_sock c)
     \<and> conn_context c' = conn_context c \<and> conn_state c' \<in> {conn_state c, Closed}"
  unfolding Send_def Write_def WriteNonBlocking_def SetSendBuffer_def
  by (auto elim!: obind_eq_retE dest!: write_loop_frame WriteBlocking_frame split: if_splits)

text \<open>A send hands over what the kernel accepts; it keeps the connection open when that is everything.\<close>

lemma Send_accepted:
  assumes "isConnected c" and "nonblocking (conn_sock c)"
    and "accepted (length (c_string msg)) (outcomes (conn_sock c)) = Some n"
  shows "\<exists>c'. Send msg c = ret c' \<and> wire (conn_sock c') = wire (conn_sock c) @ take n (c_string msg)
    \<and> send_buffer c' = [] \<and> conn_channel c' = conn_channel c
    \<and> shutdown_fails (conn_sock c') = shutdown_fails (conn_sock c)
    \<and> (n = length (c_string msg) \<longrightarrow> isConnected c')"
proof -
  let ?m = "c_string msg" and ?c = "c\<lparr>send_buffer := c_string msg\<rparr>"
  obtain c' where "write_loop ?m (length ?m) (outcomes (conn_sock c)) ?c = ret c'"
    "wire (conn_sock c') = wire (conn_sock c) @ take n ?m" "conn_channel c' = conn_channel c"
    "shutdown_fails (conn_sock c') = shutdown_fails (conn_sock c)" "n = length ?m \<longrightarrow> conn_state c' = conn_state c"
    using write_loop_wire [OF assms(3), of ?m ?c] by auto
  then show ?thesis
    using assms(1,2)
    by (simp add: Send_def SetSendBuffer_def SetBuf_def Write_def WriteNonBlocking_def IsNonBlocking_def
        isConnected_def)
qed

end
