(* ===== verification/HttpRequest.thy ===== *)
theory HttpRequest
  imports Connection
begin

text \<open>
  Requests and responses (\<open>src/http/HttpRequest.h\<close>, \<open>src/http/HttpResponse.h\<close> and \<open>.cpp\<close>). The header
  tables are \<open>std::unordered_map\<close>s, so the order in which a response prints its headers is a parameter
  \<open>iter\<close> of \<open>appendToBuffer\<close>.
\<close>

section \<open>Requests\<close>

datatype http_method = Invalid | Get | Post | Head | Put | Delete
datatype http_version = Unknown | Http10 | Http11

record http_request =
  req_method :: http_method
  req_version :: http_version
  req_path :: string
  req_query :: string
  req_headers :: "string \<rightharpoonup> string"

definition HttpRequest :: http_request where
  "HttpRequest = \<lparr>req_method = Invalid, req_version = Unknown, req_path = [], req_query = [],
                  req_headers = (\<lambda>_. None)\<rparr>"

definition method_of :: "string \<Rightarrow> http_method" where
  "method_of m =
     (if m = ''GET'' then Get
      else if m = ''POST'' then Post
      else if m = ''HEAD'' then Head
      else if m = ''PUT'' then Put
      else if m = ''DELETE'' then Delete
      else Invalid)"

definition setMethod :: "string \<Rightarrow> http_request \<Rightarrow> bool \<times> http_request" where
  "setMethod m r = (let r = r\<lparr>req_method := method_of m\<rparr> in (req_method r \<noteq> Invalid, r))"

fun methodString :: "http_method \<Rightarrow> string" where
  "methodString Get = ''GET''"
| "methodString Post = ''POST''"
| "methodString Head = ''HEAD''"
| "methodString Put = ''PUT''"
| "methodString Delete = ''DELETE''"
| "methodString Invalid = ''UNKNOWN''"

definition setVersion :: "http_version \<Rightarrow> http_request \<Rightarrow> http_request" where
  "setVersion v r = r\<lparr>req_version := v\<rparr>"

definition setPath :: "string \<Rightarrow> http_request \<Rightarrow> http_request" where
  "setPath s r = r\<lparr>req_path := s\<rparr>"

definition setQuery :: "string \<Rightarrow> http_request \<Rightarrow> http_request" where
  "setQuery s r = r\<lparr>req_query := s\<rparr>"

text \<open>The loop that drops white space from the end of a value.\<close>

function drop_back :: "string \<Rightarrow> string" where
  "drop_back v = (if v \<noteq> [] \<and> isspace (v ! (length v - 1)) then drop_back (take (length v - 1) v) else v)"
  by auto
termination by (relation "measure length") (auto simp: neq_Nil_conv)

declare drop_back.simps [simp del]

text \<open>\<open>addHeader(start, colon, end)\<close>: the line is the range from \<open>start\<close> to \<open>end\<close>.\<close>

definition addHeader :: "string \<Rightarrow> nat \<Rightarrow> http_request \<Rightarrow> http_request" where
  "addHeader line colon r =
     (let field = take colon line;
          v = drop_back (dropWhile isspace (drop (colon + 1) line))
      in r\<lparr>req_headers := (req_headers r)(field \<mapsto> v)\<rparr>)"

definition getHeader :: "string \<Rightarrow> http_request \<Rightarrow> string" where
  "getHeader field r = (case req_headers r field of Some v \<Rightarrow> v | None \<Rightarrow> [])"

definition request_swap :: "http_request \<Rightarrow> http_request \<Rightarrow> http_request \<times> http_request" where
  "request_swap a b =
     (\<lparr>req_method = req_method b, req_version = req_version b, req_path = req_path b,
       req_query = req_query b, req_headers = req_headers b\<rparr>,
      \<lparr>req_method = req_method a, req_version = req_version a, req_path = req_path a,
       req_query = req_query a, req_headers = req_headers a\<rparr>)"

lemma method_of_methodString [simp]: "m \<noteq> Invalid \<Longrightarrow> method_of (methodString m) = m"
  by (cases m) (simp_all add: method_of_def)

lemma methodString_no_space [simp]: "CHR '' '' \<notin> set (methodString m)"
  by (cases m) simp_all

lemma methodString_no_CR [simp]: "CHR 0x0D \<notin> set (methodString m)"
  by (cases m) simp_all

text \<open>Trimmed values come back unchanged, also behind one blank.\<close>

definition trimmed :: "string \<Rightarrow> bool" where
  "trimmed v \<longleftrightarrow> v = [] \<or> (\<not> isspace (v ! 0) \<and> \<not> isspace (v ! (length v - 1)))"

lemma drop_back_trimmed [simp]: "trimmed v \<Longrightarrow> drop_back v = v"
  by (subst drop_back.simps) (auto simp: trimmed_def)

lemma isspace_blank [simp]: "isspace CHR '' ''"
  by (simp add: isspace_def)

lemma dropWhile_trimmed [simp]: "trimmed v \<Longrightarrow> dropWhile isspace v = v"
  by (cases v) (auto simp: trimmed_def)

lemma drop_back_no_space: "drop_back v = [] \<or> \<not> isspace (drop_back v ! (length (drop_back v) - 1))"
proof (induction v rule: drop_back.induct)
  case (1 v)
  then show ?case
    by (cases "v \<noteq> [] \<and> isspace (v ! (length v - 1))") (auto simp: drop_back.simps [of v])
qed

lemma addHeader_entry:
  assumes "CHR '':'' \<notin> set f" and "trimmed v"
  shows "addHeader (f @ '': '' @ v) (length f) r = r\<lparr>req_headers := (req_headers r)(f \<mapsto> v)\<rparr>"
  using assms(2) by (simp add: addHeader_def)

section \<open>Responses\<close>

datatype http_status = Status_Unknown | Ok200 | MovedPermanently301 | BadRequest400 | NotFound404

fun status_code :: "http_status \<Rightarrow> nat" where
  "status_code Status_Unknown = 0"
| "status_code Ok200 = 200"
| "status_code MovedPermanently301 = 301"
| "status_code BadRequest400 = 400"
| "status_code NotFound404 = 404"

record http_response =
  resp_headers :: "string \<rightharpoonup> string"
  statusCode :: http_status
  statusMessage :: string
  closeConnection :: bool
  body :: string

definition HttpResponse :: "bool \<Rightarrow> http_response" where
  "HttpResponse close = \<lparr>resp_headers = (\<lambda>_. None), statusCode = Status_Unknown, statusMessage = [],
                        closeConnection = close, body = []\<rparr>"

definition setStatusCode :: "http_status \<Rightarrow> http_response \<Rightarrow> http_response" where
  "setStatusCode code r = r\<lparr>statusCode := code\<rparr>"

definition setStatusMessage :: "string \<Rightarrow> http_response \<Rightarrow> http_response" where
  "setStatusMessage message r = r\<lparr>statusMessage := message\<rparr>"

definition setCloseConnection :: "bool \<Rightarrow> http_response \<Rightarrow> http_response" where
  "setCloseConnection on r = r\<lparr>closeConnection := on\<rparr>"

definition resp_addHeader :: "string \<Rightarrow> string \<Rightarrow> http_response \<Rightarrow> http_response" where
  "resp_addHeader key v r = r\<lparr>resp_headers := (resp_headers r)(key \<mapsto> v)\<rparr>"

definition setContentType :: "string \<Rightarrow> http_response \<Rightarrow> http_response" where
  "setContentType contentType = resp_addHeader ''Content-Type'' contentType"

definition setBody :: "string \<Rightarrow> http_response \<Rightarrow> http_response" where
  "setBody b r = r\<lparr>body := b\<rparr>"

definition crlf :: string where
  "crlf = [CHR 0x0D, newline]"

text \<open>
  \<open>sprintf\<close> writes past its buffer when the text does not fit; \<open>snprintf\<close> cuts it to one byte less
  than the buffer.
\<close>

definition sprintf_to :: "nat \<Rightarrow> string \<Rightarrow> string outcome" where
  "sprintf_to n s = (if length s < n then ret s else fail Out_of_range)"

definition snprintf_to :: "nat \<Rightarrow> string \<Rightarrow> string" where
  "snprintf_to n s = take (n - 1) s"

fun append_headers :: "(string \<times> string) list \<Rightarrow> string \<Rightarrow> string" where
  "append_headers [] out = out"
| "append_headers ((k, v) # hs) out =
     append_headers hs (Append_s crlf (Append_s v (Append_s '': '' (Append_s k out))))"

definition appendToBuffer ::
  "((string \<rightharpoonup> string) \<Rightarrow> (string \<times> string) list) \<Rightarrow> http_response \<Rightarrow> string \<Rightarrow> string outcome" where
  "appendToBuffer iter r out =
     obind (sprintf_to 32 (''HTTP/1.1 '' @ decimal (status_code (statusCode r)) @ '' '')) (\<lambda>buf.
     let out = Append_s crlf (Append_s (statusMessage r) (Append_s buf out));
         out = (if closeConnection r then Append_s (''Connection: closer'' @ crlf) out
                else Append_s (''Connection: Keep-Alive'' @ crlf)
                       (Append_s (snprintf_to 32 (''Content-Length: '' @ decimal (length (body r)) @ crlf)) out));
         out = append_headers (iter (resp_headers r)) out
     in ret (Append_s (body r) (Append_s crlf out)))"

lemma append_headers_text:
  "append_headers hs out = out @ concat (map (\<lambda>(k, v). k @ '': '' @ v @ crlf) hs)"
  by (induction hs arbitrary: out) (auto simp: Append_s_def)

lemma status_digits: "length (decimal (status_code c)) \<le> 3"
  by (cases c) (simp_all add: decimal.simps)

text \<open>The text of a reply, with its header lines in the order of \<open>iter\<close>.\<close>

definition reply_text ::
  "((string \<rightharpoonup> string) \<Rightarrow> (string \<times> string) list) \<Rightarrow> http_response \<Rightarrow> string" where
  "reply_text iter r =
     ''HTTP/1.1 '' @ decimal (status_code (statusCode r)) @ '' '' @ statusMessage r @ crlf
     @ (if closeConnection r then ''Connection: closer'' @ crlf
        else ''Content-Length: '' @ decimal (length (body r)) @ crlf @ ''Connection: Keep-Alive'' @ crlf)
     @ concat (map (\<lambda>(k, v). k @ '': '' @ v @ crlf) (iter (resp_headers r))) @ crlf @ body r"

lemma appendToBuffer_text:
  assumes "closeConnection r \<or> length (body r) < 10 ^ 13"
  shows "appendToBuffer iter r out = ret (out @ reply_text iter r)"
proof -
  have status: "sprintf_to 32 (''HTTP/1.1 '' @ decimal (status_code (statusCode r)) @ '' '')
      = ret (''HTTP/1.1 '' @ decimal (status_code (statusCode r)) @ '' '')"
    using status_digits [of "statusCode r"] by (simp add: sprintf_to_def)
  have len: "snprintf_to 32 (''Content-Length: '' @ decimal (length (body r)) @ crlf)
      = ''Content-Length: '' @ decimal (length (body r)) @ crlf" if "\<not> closeConnection r"
    using that assms decimal_length [of "length (body r)" 13] by (simp add: snprintf_to_def crlf_def)
  show ?thesis
    unfolding appendToBuffer_def status
    by (simp add: len [simplified] append_headers_text Append_s_def reply_text_def Let_def)
qed

end
