(* ===== verification/ParseWorker.thy ===== *)
theory ParseWorker
  imports Prelude
begin

text \<open>
  The read cursor of the HTTP parser (\<open>src/http/ParseWorker.h\<close>). A pointer into \<open>context_\<close> is its
  offset from \<open>begin()\<close>; \<open>size_\<close> is the number of bytes the cursor may reach.
\<close>

section \<open>The cursor\<close>

record parse_worker =
  pw_context :: string
  pw_readerIndex :: nat
  pw_size :: nat

definition ParseWorker_init :: parse_worker where
  "ParseWorker_init = \<lparr>pw_context = [], pw_readerIndex = 0, pw_size = 0\<rparr>"

definition SetStr :: "string \<Rightarrow> parse_worker \<Rightarrow> parse_worker" where
  "SetStr str w = w\<lparr>pw_size := length str, pw_readerIndex := 0, pw_context := str\<rparr>"

definition Getstr :: "parse_worker \<Rightarrow> string" where
  "Getstr w = pw_context w"

definition pw_peek :: "parse_worker \<Rightarrow> nat" where
  "pw_peek w = pw_readerIndex w"

definition pw_end :: "parse_worker \<Rightarrow> nat" where
  "pw_end w = pw_size w"

definition CR :: char where
  "CR = CHR 0x0D"

text \<open>\<open>std::search\<close> for \<open>"\r\n"\<close> in a range: the offset of the first occurrence.\<close>

fun search_crlf :: "string \<Rightarrow> nat option" where
  "search_crlf (a # b # s) =
     (if a = CR \<and> b = newline then Some 0 else map_option Suc (search_crlf (b # s)))"
| "search_crlf _ = None"

definition findCRLF :: "parse_worker \<Rightarrow> nat option" where
  "findCRLF w =
     map_option (\<lambda>p. pw_peek w + p) (search_crlf (subrange (pw_context w) (pw_peek w) (pw_end w)))"

definition retrieveUntil :: "nat \<Rightarrow> parse_worker \<Rightarrow> parse_worker" where
  "retrieveUntil e w =
     (let len = e - pw_peek w in
      if e < pw_size w then w\<lparr>pw_readerIndex := pw_readerIndex w + len\<rparr>
      else w\<lparr>pw_size := 0, pw_readerIndex := 0\<rparr>)"

section \<open>Safety of the cursor\<close>

text \<open>Every byte the cursor can reach is a byte of the buffer.\<close>

definition pw_ok :: "parse_worker \<Rightarrow> bool" where
  "pw_ok w \<longleftrightarrow> pw_readerIndex w \<le> pw_size w \<and> pw_size w \<le> length (pw_context w)"

definition unread :: "parse_worker \<Rightarrow> string" where
  "unread w = subrange (pw_context w) (pw_readerIndex w) (pw_size w)"

lemma pw_ok_init [simp]: "pw_ok ParseWorker_init"
  by (simp add: pw_ok_def ParseWorker_init_def)

lemma pw_ok_SetStr [simp]: "pw_ok (SetStr s w)"
  by (simp add: pw_ok_def SetStr_def)

lemma unread_SetStr [simp]: "unread (SetStr s w) = s"
  by (simp add: unread_def SetStr_def subrange_def)

lemma pw_ok_retrieve: "pw_ok w \<Longrightarrow> pw_ok (retrieveUntil e w)"
  by (auto simp: pw_ok_def retrieveUntil_def pw_peek_def Let_def)

lemma length_unread: "pw_ok w \<Longrightarrow> length (unread w) = pw_size w - pw_readerIndex w"
  by (auto simp: pw_ok_def unread_def subrange_def min_def)

lemma search_crlf_bound: "search_crlf s = Some p \<Longrightarrow> p + 1 < length s"
  by (induction s arbitrary: p rule: search_crlf.induct) (auto split: if_splits)

lemma search_crlf_Some:
  assumes "search_crlf s = Some p"
  shows "s = take p s @ [CR, newline] @ drop (p + 2) s"
  using assms
  by (induction s arbitrary: p rule: search_crlf.induct) (auto split: if_splits)

text \<open>The line in front of the first line end, when it holds no carriage return itself.\<close>

lemma search_crlf_line [simp]:
  "CR \<notin> set l \<Longrightarrow> search_crlf (l @ CR # newline # rest) = Some (length l)"
proof (induction l)
  case (Cons a l)
  then show ?case by (cases l) auto
qed (simp add: CR_def newline_def)

lemma search_crlf_none: "CR \<notin> set s \<Longrightarrow> search_crlf s = None"
  by (induction s rule: search_crlf.induct) auto

lemma findCRLF_unread: "findCRLF w = map_option (\<lambda>p. pw_readerIndex w + p) (search_crlf (unread w))"
  by (simp add: findCRLF_def unread_def pw_peek_def pw_end_def)

lemma findCRLF_bounds:
  assumes "findCRLF w = Some e" and "pw_ok w"
  shows "pw_readerIndex w \<le> e" and "e + 2 \<le> pw_size w"
  using assms search_crlf_bound [of "unread w"] length_unread [OF assms(2)]
  by (auto simp: findCRLF_unread)

text \<open>Dropping a line from the unread bytes.\<close>

lemma unread_retrieve:
  assumes "pw_ok w" and "unread w = l @ rest"
  shows "unread (retrieveUntil (pw_readerIndex w + length l) w) = rest"
proof (cases "rest = []")
  case True
  then have "length l = pw_size w - pw_readerIndex w" using assms length_unread by fastforce
  then show ?thesis
    using True assms(1) by (simp add: retrieveUntil_def unread_def subrange_def pw_ok_def)
next
  case False
  have len: "length l + length rest = pw_size w - pw_readerIndex w"
    using assms length_unread by (metis length_append)
  then have less: "pw_readerIndex w + length l < pw_size w" using False by (cases rest) auto
  have "drop (length l) (unread w) = rest" using assms(2) by simp
  then show ?thesis
    using less
    by (simp add: retrieveUntil_def unread_def subrange_def pw_peek_def drop_take add.commute
        diff_diff_eq)
qed

lemma subrange_unread:
  assumes "unread w = l @ rest"
  shows "subrange (pw_context w) (pw_readerIndex w) (pw_readerIndex w + length l) = l"
proof -
  have "take (length l) (unread w) = l" using assms by simp
  moreover have "length l \<le> pw_size w - pw_readerIndex w"
    using arg_cong [OF assms, of length] by (simp add: unread_def subrange_def)
  ultimately show ?thesis by (simp add: unread_def subrange_def min_def)
qed

end
