(* ===== verification/HttpContext.thy ===== *)
theory HttpContext
  imports HttpRequest ParseWorker
begin

text \<open>
  The request parser (\<open>src/http/HttpContext.h\<close> and \<open>.cpp\<close>): a state machine over the lines that the
  cursor of \<open>ParseWorker\<close> delivers. The guards \<open>state_ = ExpectHeaders\<close> of \<open>parseRequest\<close> are
  assignments, as in the source: every state but \<open>ExpectRequestLine\<close> is turned into
  \<open>ExpectHeaders\<close>, and the branch for the body is never reached.
\<close>

section \<open>The parser\<close>

datatype parse_state = ExpectRequestLine | ExpectHeaders | ExpectBody | GotAll

record http_context =
  ctx_state :: parse_state
  ctx_request :: http_request

definition HttpContext :: http_context where
  "HttpContext = \<lparr>ctx_state = ExpectRequestLine, ctx_request = HttpRequest\<rparr>"

definition gotAll :: "http_context \<Rightarrow> bool" where
  "gotAll c \<longleftrightarrow> ctx_state c = GotAll"

definition ctx_reset :: "http_context \<Rightarrow> http_context" where
  "ctx_reset c = c\<lparr>ctx_state := ExpectRequestLine, ctx_request := fst (request_swap (ctx_request c) HttpRequest)\<rparr>"

text \<open>\<open>processRequestLine(begin, end)\<close> on the bytes of the line.\<close>

definition processRequestLine :: "string \<Rightarrow> http_request \<Rightarrow> bool \<times> http_request" where
  "processRequestLine line r =
     (let space = std_find CHR '' '' line in
      if space = length line then (False, r)
      else
        (let (known, r) = setMethod (take space line) r in
         if \<not> known then (False, r)
         else
           (let start = drop (space + 1) line; space = std_find CHR '' '' start in
            if space = length start then (False, r)
            else
              (let target = take space start;
                   question = std_find CHR ''?'' target;
                   r = (if question \<noteq> length target
                        then setQuery (drop question target) (setPath (take question target) r)
                        else setPath target r);
                   start = drop (space + 1) start
               in if length start = 8 \<and> take 7 start = ''HTTP/1.'' then
                    (if start ! 7 = CHR ''1'' then (True, setVersion Http11 r)
                     else if start ! 7 = CHR ''0'' then (True, setVersion Http10 r)
                     else (False, r))
                  else (False, r)))))"

definition line_to :: "nat \<Rightarrow> parse_worker \<Rightarrow> string" where
  "line_to p w = subrange (pw_context w) (pw_peek w) p"

text \<open>The loop of \<open>parseRequest\<close>; every round that goes on moves the cursor past a line end.\<close>

function parse_loop ::
  "bool \<Rightarrow> http_context \<Rightarrow> parse_worker \<Rightarrow> bool \<times> http_context \<times> parse_worker" where
  "parse_loop ok c w =
     (if ctx_state c = ExpectRequestLine then
        (case findCRLF w of
           Some eol \<Rightarrow>
             (let (ok, r) = processRequestLine (line_to eol w) (ctx_request c);
                  c = c\<lparr>ctx_request := r\<rparr>
              in if ok then parse_loop ok (c\<lparr>ctx_state := ExpectHeaders\<rparr>) (retrieveUntil (eol + 2) w)
                 else (ok, c, w))
         | None \<Rightarrow> (ok, c, w))
      else
        (let c = c\<lparr>ctx_state := ExpectHeaders\<rparr> in
         case findCRLF w of
           Some eol \<Rightarrow>
             (let line = line_to eol w; colon = std_find CHR '':'' line in
              if colon \<noteq> length line then
                parse_loop ok (c\<lparr>ctx_request := addHeader line colon (ctx_request c)\<rparr>) (retrieveUntil (eol + 2) w)
              else (ok, c\<lparr>ctx_state := GotAll\<rparr>, retrieveUntil (eol + 2) w))
         | None \<Rightarrow> (ok, c, w)))"
  by pat_completeness auto

lemma findCRLF_shrinks:
  assumes "findCRLF w = Some e"
  shows "pw_size (retrieveUntil (e + 2) w) - pw_readerIndex (retrieveUntil (e + 2) w)
         < pw_size w - pw_readerIndex w"
proof -
  obtain p where e: "e = pw_readerIndex w + p"
    and p: "search_crlf (subrange (pw_context w) (pw_peek w) (pw_end w)) = Some p"
    using assms by (auto simp: findCRLF_def pw_peek_def)
  have "p + 1 < pw_size w - pw_readerIndex w"
    using search_crlf_bound [OF p] by (auto simp: subrange_def pw_peek_def pw_end_def)
  then show ?thesis by (auto simp: retrieveUntil_def e pw_peek_def Let_def)
qed

termination parse_loop
  by (relation "measure (\<lambda>(ok, c, w). pw_size w - pw_readerIndex w)")
    (auto dest: findCRLF_shrinks)

declare parse_loop.simps [simp del]

definition parseRequest :: "http_context \<Rightarrow> parse_worker \<Rightarrow> bool \<times> http_context \<times> parse_worker" where
  "parseRequest c w = parse_loop False c w"

section \<open>One line at a time\<close>

lemma line_of_unread:
  assumes "unread w = l @ crlf @ rest" and "CR \<notin> set l"
  shows "findCRLF w = Some (pw_readerIndex w + length l)"
    and "line_to (pw_readerIndex w + length l) w = l"
  using assms subrange_unread [OF assms(1)]
  by (simp_all add: findCRLF_unread line_to_def pw_peek_def crlf_def flip: CR_def)

lemma unread_next:
  assumes "pw_ok w" and "unread w = l @ crlf @ rest"
  shows "unread (retrieveUntil (pw_readerIndex w + length l + 2) w) = rest"
  using unread_retrieve [OF assms(1), of "l @ crlf" rest] assms(2) by (simp add: crlf_def)

lemma no_line: "CR \<notin> set (unread w) \<Longrightarrow> findCRLF w = None"
  by (simp add: findCRLF_unread search_crlf_none)

lemma parse_loop_request_line:
  assumes "ctx_state c = ExpectRequestLine" and "unread w = l @ crlf @ rest" and "CR \<notin> set l"
  shows "parse_loop ok c w =
    (let (ok, r) = processRequestLine l (ctx_request c); c = c\<lparr>ctx_request := r\<rparr> in
     if ok then parse_loop ok (c\<lparr>ctx_state := ExpectHeaders\<rparr>)
                  (retrieveUntil (pw_readerIndex w + length l + 2) w)
     else (ok, c, w))"
  using line_of_unread [OF assms(2,3)] by (simp add: parse_loop.simps [of ok c w] assms(1))

lemma parse_loop_header:
  assumes "ctx_state c \<noteq> ExpectRequestLine" and "unread w = l @ crlf @ rest" and "CR \<notin> set l"
  shows "parse_loop ok c w =
    (if CHR '':'' \<in> set l
     then parse_loop ok (c\<lparr>ctx_state := ExpectHeaders,
            ctx_request := addHeader l (std_find CHR '':'' l) (ctx_request c)\<rparr>)
            (retrieveUntil (pw_readerIndex w + length l + 2) w)
     else (ok, c\<lparr>ctx_state := GotAll\<rparr>, retrieveUntil (pw_readerIndex w + length l + 2) w))"
  using line_of_unread [OF assms(2,3)]
  by (simp add: parse_loop.simps [of ok c w] assms(1) std_find_miss Let_def)

lemma parse_loop_stop:
  "findCRLF w = None \<Longrightarrow> parse_loop ok c w =
     (ok, if ctx_state c = ExpectRequestLine then c else c\<lparr>ctx_state := ExpectHeaders\<rparr>, w)"
  by (simp add: parse_loop.simps [of ok c w])

text \<open>The cursor never leaves the buffer.\<close>

lemma parse_loop_ok: "pw_ok w \<Longrightarrow> pw_ok (snd (snd (parse_loop ok c w)))"
proof (induction ok c w rule: parse_loop.induct)
  case (1 ok c w)
  then show ?case
    by (subst parse_loop.simps)
      (auto simp: pw_ok_retrieve Let_def split: option.splits prod.splits)
qed

text \<open>A request that is complete has been parsed without an error.\<close>

lemma parse_done:
  assumes "ctx_state c = ExpectRequestLine \<or> ok"
  shows "ctx_state (fst (snd (parse_loop ok c w))) = GotAll \<longrightarrow> fst (parse_loop ok c w)"
  using assms
proof (induction ok c w rule: parse_loop.induct)
  case (1 ok c w)
  then show ?case
    by (subst (1 2) parse_loop.simps) (auto simp: Let_def split: option.splits prod.splits)
qed

section \<open>Requests that the parser understands\<close>

fun version_text :: "http_version \<Rightarrow> string" where
  "version_text Http10 = ''HTTP/1.0''"
| "version_text _ = ''HTTP/1.1''"

text \<open>The request line and the header lines of a request; \<open>query\<close> is empty or starts with \<open>?\<close>.\<close>

definition request_line :: "http_method \<Rightarrow> string \<Rightarrow> string \<Rightarrow> http_version \<Rightarrow> string" where
  "request_line m path query v = methodString m @ '' '' @ path @ query @ '' '' @ version_text v"

definition header_lines :: "(string \<times> string) list \<Rightarrow> string" where
  "header_lines hs = concat (map (\<lambda>(f, v). f @ '': '' @ v @ crlf) hs)"

definition target_ok :: "string \<Rightarrow> string \<Rightarrow> bool" where
  "target_ok path query \<longleftrightarrow>
     CHR '' '' \<notin> set path \<and> CHR ''?'' \<notin> set path \<and> CHR 0x0D \<notin> set path
     \<and> CHR '' '' \<notin> set query \<and> CHR 0x0D \<notin> set query \<and> (query = [] \<or> query ! 0 = CHR ''?'')"

definition header_ok :: "string \<times> string \<Rightarrow> bool" where
  "header_ok = (\<lambda>(f, v). CHR '':'' \<notin> set f \<and> CHR 0x0D \<notin> set f \<and> CHR 0x0D \<notin> set v \<and> trimmed v)"

fun add_headers :: "(string \<times> string) list \<Rightarrow> (string \<rightharpoonup> string) \<Rightarrow> (string \<rightharpoonup> string)" where
  "add_headers [] h = h"
| "add_headers ((f, v) # hs) h = add_headers hs (h(f \<mapsto> v))"

lemma version_text_facts:
  "length (version_text v) = 8" "take 7 (version_text v) = ''HTTP/1.''"
  "version_text v ! 7 = (if v = Http10 then CHR ''0'' else CHR ''1'')" "CHR 0x0D \<notin> set (version_text v)"
  by (cases v; simp)+

lemma std_find_query:
  assumes "CHR ''?'' \<notin> set path" and "query = [] \<or> query ! 0 = CHR ''?''"
  shows "std_find CHR ''?'' (path @ query) = length path"
  using assms by (cases query) (auto simp: std_find_miss)

lemma processRequestLine_ok:
  assumes "m \<noteq> Invalid" and "v \<noteq> Unknown" and "target_ok path query" and "req_query r = []"
  shows "processRequestLine (request_line m path query v) r =
    (True, r\<lparr>req_method := m, req_path := path, req_query := query, req_version := v\<rparr>)"
proof -
  let ?rest = "path @ query @ '' '' @ version_text v"
  have sp1: "std_find CHR '' '' (methodString m @ '' '' @ ?rest) = length (methodString m)"
    by simp
  have sp2: "std_find CHR '' '' ?rest = length (path @ query)"
    using assms(3) std_find_append [of "CHR '' ''" "path @ query" "version_text v"]
    by (simp add: target_ok_def)
  have q: "std_find CHR ''?'' (path @ query) = length path"
    using assms(3) by (intro std_find_query) (auto simp: target_ok_def)
  show ?thesis
    unfolding request_line_def processRequestLine_def
    using sp1 sp2 q assms(1,2,4) version_text_facts [of v]
    by (cases v) (auto simp: Let_def setMethod_def setPath_def setQuery_def setVersion_def)
qed

lemma parse_headers:
  assumes "ctx_state c = ExpectHeaders" and "pw_ok w"
    and "unread w = header_lines hs @ crlf @ rest" and "\<forall>h \<in> set hs. header_ok h"
  shows "\<exists>w'. parse_loop ok c w = (ok,
      c\<lparr>ctx_state := GotAll,
        ctx_request := (ctx_request c)\<lparr>req_headers := add_headers hs (req_headers (ctx_request c))\<rparr>\<rparr>, w')
    \<and> pw_ok w' \<and> unread w' = rest"
  using assms
proof (induction hs arbitrary: c w)
  case Nil
  then have u: "unread w = [] @ crlf @ rest" by (simp add: header_lines_def)
  show ?case
    using parse_loop_header [OF _ u, of c ok] unread_next [OF Nil.prems(2) u] Nil.prems
    by (auto simp: pw_ok_retrieve)
next
  case (Cons h hs)
  obtain f v where h: "h = (f, v)" by (cases h)
  let ?l = "f @ '': '' @ v"
  let ?w = "retrieveUntil (pw_readerIndex w + length ?l + 2) w"
  let ?c = "c\<lparr>ctx_state := ExpectHeaders, ctx_request := addHeader ?l (length f) (ctx_request c)\<rparr>"
  have u: "unread w = ?l @ crlf @ header_lines hs @ crlf @ rest"
    using Cons.prems(3) h by (simp add: header_lines_def)
  have ok: "CHR '':'' \<notin> set f" "CR \<notin> set ?l" "trimmed v"
    using Cons.prems(4) h by (auto simp: header_ok_def CR_def)
  have "std_find CHR '':'' ?l = length f" using ok(1) by simp
  then have step: "parse_loop ok c w = parse_loop ok ?c ?w"
    using parse_loop_header [OF _ u ok(2), of c ok] Cons.prems(1) by simp
  moreover have "unread ?w = header_lines hs @ crlf @ rest"
    using unread_next [OF Cons.prems(2) u] .
  ultimately show ?case
    using Cons.IH [of ?c ?w] Cons.prems(2,4) addHeader_entry [OF ok(1,3)] h
    by (simp add: pw_ok_retrieve)
qed

text \<open>A request whose blank line has not arrived: every complete header line is consumed, and that is all.\<close>

lemma parse_headers_partial:
  assumes "ctx_state c = ExpectHeaders" and "pw_ok w"
    and "unread w = header_lines hs @ part" and "\<forall>h \<in> set hs. header_ok h" and "CR \<notin> set part"
  shows "\<exists>c' w'. parse_loop ok c w = (ok, c', w') \<and> ctx_state c' = ExpectHeaders"
  using assms
proof (induction hs arbitrary: c w)
  case Nil
  then show ?case
    using parse_loop_stop [OF no_line, of w ok c] by (auto simp: header_lines_def)
next
  case (Cons h hs)
  obtain f v where h: "h = (f, v)" by (cases h)
  let ?l = "f @ '': '' @ v"
  have u: "unread w = ?l @ crlf @ header_lines hs @ part"
    using Cons.prems(3) h by (simp add: header_lines_def)
  have cr: "CR \<notin> set ?l" using Cons.prems(4) h by (auto simp: header_ok_def CR_def)
  show ?case
    using parse_loop_header [OF _ u cr, of c ok] Cons.prems(1,2,4,5)
      Cons.IH [OF _ _ unread_next [OF Cons.prems(2) u]]
    by (simp add: pw_ok_retrieve)
qed

lemma parse_partial_text:
  assumes "m \<noteq> Invalid" and "v \<noteq> Unknown" and "target_ok path query"
    and "\<forall>h \<in> set hs. header_ok h" and "CR \<notin> set part"
    and "unread w = request_line m path query v @ crlf @ header_lines hs @ part" and "pw_ok w"
  shows "\<exists>c' w'. parseRequest HttpContext w = (True, c', w') \<and> ctx_state c' = ExpectHeaders"
proof -
  let ?l = "request_line m path query v"
  have cr: "CR \<notin> set ?l"
    using assms(3) version_text_facts(4) [of v] methodString_no_CR
    by (auto simp: request_line_def target_ok_def CR_def)
  show ?thesis
    using parse_loop_request_line [OF _ assms(6) cr, of HttpContext False] assms(1-5,7)
      parse_headers_partial [OF _ _ unread_next [OF assms(7,6)]]
    by (simp add: parseRequest_def HttpContext_def HttpRequest_def processRequestLine_ok pw_ok_retrieve)
qed

text \<open>A whole request, parsed from the start of a buffer.\<close>

definition request_text ::
  "http_method \<Rightarrow> string \<Rightarrow> string \<Rightarrow> http_version \<Rightarrow> (string \<times> string) list \<Rightarrow> string" where
  "request_text m path query v hs = request_line m path query v @ crlf @ header_lines hs @ crlf"

lemma parse_request_text:
  assumes "m \<noteq> Invalid" and "v \<noteq> Unknown" and "target_ok path query"
    and "\<forall>h \<in> set hs. header_ok h"
    and "unread w = request_text m path query v hs @ rest" and "pw_ok w"
  shows "\<exists>w'. parseRequest HttpContext w = (True,
      \<lparr>ctx_state = GotAll,
       ctx_request = \<lparr>req_method = m, req_version = v, req_path = path, req_query = query,
                      req_headers = add_headers hs (\<lambda>_. None)\<rparr>\<rparr>, w')
    \<and> pw_ok w' \<and> unread w' = rest"
proof -
  let ?l = "request_line m path query v"
  let ?w = "retrieveUntil (pw_readerIndex w + length ?l + 2) w"
  have u: "unread w = ?l @ crlf @ header_lines hs @ crlf @ rest"
    using assms(5) by (simp add: request_text_def)
  have cr: "CR \<notin> set ?l"
    using assms(3) version_text_facts(4) [of v] methodString_no_CR
    by (auto simp: request_line_def target_ok_def CR_def)
  have "unread ?w = header_lines hs @ crlf @ rest" using unread_next [OF assms(6) u] .
  then show ?thesis
    using parse_loop_request_line [OF _ u cr, of HttpContext False] assms(1-4,6)
      parse_headers [of "\<lparr>ctx_state = ExpectHeaders, ctx_request = \<lparr>req_method = m, req_version = v,
        req_path = path, req_query = query, req_headers = (\<lambda>_. None)\<rparr>\<rparr>" ?w hs rest True]
    by (simp add: parseRequest_def HttpContext_def HttpRequest_def processRequestLine_ok pw_ok_retrieve)
qed

end
