(* ===== verification/HttpServer.thy ===== *)
theory HttpServer
  imports HttpContext
begin

text \<open>
  The HTTP server on top of a connection (\<open>src/http/HttpServer.cpp\<close>). The user's callback and the
  iteration order of the response headers are parameters.
\<close>

section \<open>Handlers\<close>

type_synonym http_callback = "http_request \<Rightarrow> http_response \<Rightarrow> http_response"
type_synonym header_order = "(string \<rightharpoonup> string) \<Rightarrow> (string \<times> string) list"

definition defaultHttpCallback :: http_callback where
  "defaultHttpCallback req resp =
     setCloseConnection True (setStatusMessage ''Not Found'' (setStatusCode NotFound404 resp))"

definition onRequest :: "header_order \<Rightarrow> http_callback \<Rightarrow> http_request \<Rightarrow> connection \<Rightarrow> connection outcome" where
  "onRequest iter cb req c =
     (let connection = getHeader ''Connection'' req;
          close = (connection = ''close''
                   \<or> (req_version req = Http10 \<and> connection \<noteq> ''Keep-Alive''));
          close = True;
          response = cb req (HttpResponse close)
      in obind (appendToBuffer iter response []) (\<lambda>buf.
         obind (Send (ToStr buf) c) (\<lambda>c.
         if closeConnection response then conn_shutdown c else ret c)))"

definition bad_request :: string where
  "bad_request = ''HTTP/1.1 400 Bad Request'' @ crlf @ crlf"

definition onMessage ::
  "header_order \<Rightarrow> http_callback \<Rightarrow> parse_worker \<Rightarrow> connection \<Rightarrow> (parse_worker \<times> connection) outcome" where
  "onMessage iter cb w c =
     (if \<not> isConnected c then ret (w, c)
      else
        (let (ok, ctx, w) = parseRequest HttpContext (SetStr (ReadBuffer c) w) in
         obind (if \<not> ok then obind (Send bad_request c) conn_shutdown else ret c) (\<lambda>c.
         obind (if gotAll ctx then onRequest iter cb (ctx_request ctx) c else ret c) (\<lambda>c.
         ret (w, c)))))"

section \<open>Lines that are not a request\<close>

lemma bad_first_line:
  assumes "CR \<notin> set u \<or> (\<exists>l rest. u = l @ crlf @ rest \<and> CR \<notin> set l \<and> \<not> fst (processRequestLine l HttpRequest))"
    and "unread w = u"
  shows "fst (parseRequest HttpContext w) = False"
  using assms(1)
proof
  assume "CR \<notin> set u"
  then show ?thesis
    using parse_loop_stop [OF no_line, of w False HttpContext] assms(2) by (simp add: parseRequest_def)
next
  assume "\<exists>l rest. u = l @ crlf @ rest \<and> CR \<notin> set l \<and> \<not> fst (processRequestLine l HttpRequest)"
  then obtain l rest where l: "unread w = l @ crlf @ rest" "CR \<notin> set l"
    "\<not> fst (processRequestLine l HttpRequest)" using assms(2) by auto
  then show ?thesis
    using parse_loop_request_line [OF _ l(1,2), of HttpContext False]
    by (simp add: parseRequest_def HttpContext_def case_prod_unfold Let_def)
qed

section \<open>Sending a whole message\<close>

text \<open>A connection that can send: it is open, and no operation has asked for writability events.\<close>

definition sendable :: "connection \<Rightarrow> bool" where
  "sendable c \<longleftrightarrow> isConnected c \<and> nonblocking (conn_sock c) \<and> never_writes (conn_channel c)
                 \<and> \<not> shutdown_fails (conn_sock c)"

text \<open>What a connection has sent and whether the writing side is shut.\<close>

definition sent :: "connection \<Rightarrow> string \<times> bool" where
  "sent c = (wire (conn_sock c), write_shut (conn_sock c))"

lemma Send_all:
  assumes "sendable c" and "accepted (length msg) (outcomes (conn_sock c)) = Some (length msg)"
    and "CHR 0x00 \<notin> set msg"
  shows "\<exists>c'. Send msg c = ret c' \<and> sendable c' \<and> sent c' = (fst (sent c) @ msg, snd (sent c))"
proof -
  let ?c = "c\<lparr>send_buffer := msg\<rparr>"
  obtain c' where c': "write_loop msg (length msg) (outcomes (conn_sock c)) ?c = ret c'"
    "wire (conn_sock c') = wire (conn_sock c) @ msg" "conn_channel c' = conn_channel c"
    "shutdown_fails (conn_sock c') = shutdown_fails (conn_sock c)"
    "write_shut (conn_sock c') = write_shut (conn_sock c)" "conn_state c' = conn_state c"
    using write_loop_wire [OF assms(2), of msg ?c] by auto
  have nb: "nonblocking (conn_sock c') = nonblocking (conn_sock c)"
    using write_loop_nonblocking [OF c'(1)] by simp
  have "Send msg c = ret (c'\<lparr>send_buffer := []\<rparr>)"
    using assms c'(1)
    by (simp add: Send_def SetSendBuffer_def SetBuf_def Write_def WriteNonBlocking_def IsNonBlocking_def
        sendable_def isConnected_def)
  then show ?thesis
    using c' nb assms(1) by (simp add: sendable_def isConnected_def sent_def)
qed

lemma shutdown_sendable:
  assumes "sendable c"
  shows "\<exists>c'. conn_shutdown c = ret c' \<and> sent c' = (fst (sent c), True)"
  using assms
  by (simp add: conn_shutdown_def sendable_def never_writes_def shutdownWrite_def sent_def)

lemma send_and_shut:
  assumes "sendable c" and "accepted (length msg) (outcomes (conn_sock c)) = Some (length msg)"
    and "CHR 0x00 \<notin> set msg"
  shows "\<exists>c'. obind (Send msg c) conn_shutdown = ret c' \<and> sent c' = (fst (sent c) @ msg, True)"
proof -
  obtain c1 where "Send msg c = ret c1" "sendable c1" "sent c1 = (fst (sent c) @ msg, snd (sent c))"
    using Send_all [OF assms] by auto
  then show ?thesis using shutdown_sendable [of c1] by auto
qed

lemma c_string_no_nul [simp]: "CHR 0x00 \<notin> set (c_string s)"
  using set_takeWhileD by (fastforce simp: c_string_def)

section \<open>Answers\<close>

lemma onRequest_answer:
  assumes "sendable c"
    and "closeConnection (cb req (HttpResponse True)) \<or> length (body (cb req (HttpResponse True))) < 10 ^ 13"
    and "accepted (length (c_string (reply_text iter (cb req (HttpResponse True))))) (outcomes (conn_sock c))
         = Some (length (c_string (reply_text iter (cb req (HttpResponse True)))))"
  shows "\<exists>c'. onRequest iter cb req c = ret c'
    \<and> sent c' = (fst (sent c) @ c_string (reply_text iter (cb req (HttpResponse True))),
                 snd (sent c) \<or> closeConnection (cb req (HttpResponse True)))"
proof -
  let ?r = "cb req (HttpResponse True)"
  let ?msg = "c_string (reply_text iter ?r)"
  have app: "appendToBuffer iter ?r [] = ret (reply_text iter ?r)"
    using appendToBuffer_text [OF assms(2), of iter "[]"] by simp
  obtain c1 where c1: "Send ?msg c = ret c1" "sendable c1" "sent c1 = (fst (sent c) @ ?msg, snd (sent c))"
    using Send_all [OF assms(1,3)] by auto
  show ?thesis
  proof (cases "closeConnection ?r")
    case True
    with c1 shutdown_sendable [OF c1(2)] show ?thesis by (auto simp: onRequest_def app ToStr_def)
  next
    case False
    with c1 show ?thesis by (simp add: onRequest_def app ToStr_def)
  qed
qed

text \<open>A reply to a request that cannot be parsed, and silence for a request without its blank line.\<close>

lemma onMessage_bad:
  assumes "sendable c" and "fst (parseRequest HttpContext (SetStr (ReadBuffer c) w)) = False"
    and "accepted (length bad_request) (outcomes (conn_sock c)) = Some (length bad_request)"
  shows "\<exists>w' c'. onMessage iter cb w c = ret (w', c') \<and> sent c' = (fst (sent c) @ bad_request, True)"
proof -
  obtain ctx w' where p: "parseRequest HttpContext (SetStr (ReadBuffer c) w) = (False, ctx, w')"
    using assms(2) by (cases "parseRequest HttpContext (SetStr (ReadBuffer c) w)") auto
  have not_all: "\<not> gotAll ctx"
    using parse_done [of HttpContext False "SetStr (ReadBuffer c) w"] p
    by (simp add: parseRequest_def gotAll_def HttpContext_def)
  have "CHR 0x00 \<notin> set bad_request" by (simp add: bad_request_def crlf_def newline_def)
  from send_and_shut [OF assms(1,3) this] show ?thesis
    using assms(1) p not_all by (auto simp: onMessage_def sendable_def)
qed

text \<open>The answer to a complete request, and what the handler leaves alone.\<close>

lemma onMessage_answer:
  fixes cb :: http_callback and m v path query hs
  defines "req \<equiv> \<lparr>req_method = m, req_version = v, req_path = path, req_query = query,
      req_headers = add_headers hs (\<lambda>_. None)\<rparr>"
  defines "resp \<equiv> cb req (HttpResponse True)"
  assumes "m \<noteq> Invalid" and "v \<noteq> Unknown" and "target_ok path query" and "\<forall>h \<in> set hs. header_ok h"
    and "read_buffer c = request_text m path query v hs @ rest"
    and "CHR 0x00 \<notin> set (read_buffer c)"
    and "sendable c" and "closeConnection resp \<or> length (body resp) < 10 ^ 13"
    and "accepted (length (c_string (reply_text iter resp))) (outcomes (conn_sock c))
           = Some (length (c_string (reply_text iter resp)))"
  shows "\<exists>w' c'. onMessage iter cb w c = ret (w', c')
    \<and> sent c' = (fst (sent c) @ c_string (reply_text iter resp), snd (sent c) \<or> closeConnection resp)"
proof -
  have "unread (SetStr (ReadBuffer c) w) = request_text m path query v hs @ rest"
    using assms(7,8) by (simp add: ReadBuffer_def ToStr_def)
  from parse_request_text [OF assms(3-6) this] obtain w' where
    "parseRequest HttpContext (SetStr (ReadBuffer c) w) = (True, \<lparr>ctx_state = GotAll, ctx_request = req\<rparr>, w')"
    by (auto simp: req_def)
  moreover have "isConnected c" using assms(9) by (simp add: sendable_def)
  ultimately show ?thesis
    using onRequest_answer [OF assms(9), of cb req iter] assms(10,11)
    by (auto simp: onMessage_def gotAll_def resp_def)
qed

lemma shutdown_channel: "conn_shutdown c = ret c' \<Longrightarrow> conn_channel c' = conn_channel c"
  by (auto simp: conn_shutdown_def elim!: obind_eq_retE split: if_splits)

lemma onRequest_channel: "onRequest iter cb req c = ret c' \<Longrightarrow> conn_channel c' = conn_channel c"
  by (auto simp: onRequest_def Let_def elim!: obind_eq_retE dest!: Send_frame shutdown_channel split: if_splits)

lemma onMessage_channel: "onMessage iter cb w c = ret (w', c') \<Longrightarrow> conn_channel c' = conn_channel c"
  by (auto simp: onMessage_def case_prod_unfold Let_def elim!: obind_eq_retE
      dest!: onRequest_channel Send_frame shutdown_channel split: if_splits)

end
