(* ===== verification/Server.thy ===== *)
theory Server
  imports Connection
begin

text \<open>
  The server (\<open>src/network/Server.cpp\<close>): one connection per descriptor, spread over the event loops
  of the sub reactors by \<open>fd % sub_reactors_.size()\<close>. A sub reactor is the state \<open>'k\<close> of its epoll
  instance. The order in which \<open>CheckActiveConnection\<close> walks the \<open>unordered_map\<close> and the clock
  readings it makes are inputs.
\<close>

section \<open>State and operations\<close>

record 'k server =
  connections :: "int \<rightharpoonup> connection"
  sub_reactors :: "'k list"

definition reactor :: "'k server \<Rightarrow> int \<Rightarrow> nat" where
  "reactor s fd = nat fd mod length (sub_reactors s)"

text \<open>Putting a connection and its reactor back after a callback has worked on them.\<close>

definition store :: "int \<Rightarrow> nat \<Rightarrow> 'k conn \<Rightarrow> 'k server \<Rightarrow> 'k server" where
  "store fd r = (\<lambda>(c, k) s. s\<lparr>connections := (connections s)(fd \<mapsto> c),
                             sub_reactors := (sub_reactors s)[r := k]\<rparr>)"

text \<open>
  \<open>so\<close> is the socket \<open>accept\<close> has returned, \<open>spare\<close> the descriptor of the socket the constructor of
  \<open>Connection\<close> makes; -1 for either ends the process.
\<close>

definition NewConnection ::
  "'k epoll_ctl \<Rightarrow> ('k conn \<Rightarrow> 'k conn outcome) option \<Rightarrow> int \<Rightarrow> sock \<Rightarrow> 'k server \<Rightarrow> 'k server outcome" where
  "NewConnection ctl new_connect spare so s =
     (let fd = sock_fd so in
      obind (ErrorIf (fd = -1) ''new connection error'') (\<lambda>_.
      if sub_reactors s = [] then fail Division_by_zero
      else
        (let r = reactor s fd in
         obind (Connection ctl spare so (sub_reactors s ! r)) (\<lambda>ck.
         obind (case new_connect of None \<Rightarrow> ret ck | Some cb \<Rightarrow> cb ck) (\<lambda>ck.
         ret (store fd r ck s))))))"

definition DeleteConnection :: "'k epoll_ctl \<Rightarrow> int \<Rightarrow> 'k server \<Rightarrow> 'k server outcome" where
  "DeleteConnection ctl fd s =
     (case connections s fd of
        None \<Rightarrow> ret s
      | Some c \<Rightarrow>
          (let r = reactor s fd in
           obind (deleteConnection ctl (c, sub_reactors s ! r)) (\<lambda>ck. ret (store fd r ck s))))"

text \<open>
  What \<open>EventLoop::Loop\<close> does with one ready channel of a connection: \<open>Poll\<close> has stored its events, and
  \<open>HandleEvent\<close> dispatches to the callbacks of the connection. Its constructor has set the close
  callback, \<open>SetOnMessageCallback\<close> the read callback; the write callback is never set. The delete
  callback the server installs finds the connection in the table and deletes it.
\<close>

definition delete_cb :: "'k epoll_ctl \<Rightarrow> 'k server \<Rightarrow> 'k delete_callback" where
  "delete_cb ctl s fd ck = (if connections s fd \<noteq> None then deleteConnection ctl ck else ret ck)"

definition connection_event ::
  "'k epoll_ctl \<Rightarrow> ('k conn \<Rightarrow> 'k conn outcome) \<Rightarrow> int \<Rightarrow> 32 word \<Rightarrow> 'k server \<Rightarrow> 'k server outcome" where
  "connection_event ctl on_message fd ev s =
     (case connections s fd of
        None \<Rightarrow> fail Bad_pointer
      | Some c \<Rightarrow>
          (let r = reactor s fd; c = c\<lparr>conn_channel := SetReadyEvents ev (conn_channel c)\<rparr> in
           obind (HandleEvent (\<lambda>(c, k). ready_events (conn_channel c))
                    (Some (Business (delete_cb ctl s) on_message)) None (Some (Close (delete_cb ctl s)))
                    (c, sub_reactors s ! r)) (\<lambda>ck. ret (store fd r ck s))))"

text \<open>The periodic check: connections idle for more than two minutes are told and deleted.\<close>

definition idle_limit :: "64 word" where
  "idle_limit = 1000 * 60 * 2"

fun check_loop ::
  "'k epoll_ctl \<Rightarrow> int list \<Rightarrow> 64 word list \<Rightarrow> 'k server \<Rightarrow> ('k server \<times> int list) outcome" where
  "check_loop ctl [] nows s = ret (s, [])"
| "check_loop ctl (fd # fds) [] s = None"
| "check_loop ctl (fd # fds) (now # nows) s =
     (case connections s fd of
        None \<Rightarrow> fail Bad_pointer
      | Some c \<Rightarrow>
          if now - conn_context c > idle_limit then
            (let r = reactor s fd in
             obind (Send ''You are cleared!'' c) (\<lambda>c.
             obind (deleteConnection ctl (c, sub_reactors s ! r)) (\<lambda>ck.
             obind (check_loop ctl fds nows (store fd r ck s)) (\<lambda>(s, del).
             ret (s, fd # del)))))
          else check_loop ctl fds nows s)"

fun delete_all :: "'k epoll_ctl \<Rightarrow> int list \<Rightarrow> 'k server \<Rightarrow> 'k server outcome" where
  "delete_all ctl [] s = ret s"
| "delete_all ctl (fd # fds) s = obind (DeleteConnection ctl fd s) (delete_all ctl fds)"

definition CheckActiveConnection ::
  "'k epoll_ctl \<Rightarrow> int list \<Rightarrow> 64 word list \<Rightarrow> 'k server \<Rightarrow> 'k server outcome" where
  "CheckActiveConnection ctl order nows s =
     obind (check_loop ctl order nows s) (\<lambda>(s, delete_after). delete_all ctl delete_after s)"

section \<open>Invariant\<close>

text \<open>
  Every connection is filed under its descriptor, its channel's flag agrees with the interest list
  of its reactor, it never asks for writability nor is told of it, and it is connected or closed.
\<close>

definition conn_ok :: "('k \<Rightarrow> int \<rightharpoonup> 32 word) \<Rightarrow> int \<Rightarrow> connection \<Rightarrow> 'k \<Rightarrow> bool" where
  "conn_ok interest fd c k \<longleftrightarrow>
     sock_fd (conn_sock c) = fd \<and> ch_fd (conn_channel c) = fd \<and> agrees interest (conn_channel c) k
     \<and> never_writes (conn_channel c) \<and> ready_events (conn_channel c) AND EPOLLOUT = 0
     \<and> conn_state c \<in> {Connected, Closed}"

definition server_ok :: "('k \<Rightarrow> int \<rightharpoonup> 32 word) \<Rightarrow> 'k server \<Rightarrow> bool" where
  "server_ok interest s \<longleftrightarrow>
     (\<forall>fd c. connections s fd = Some c \<longrightarrow>
        0 \<le> fd \<and> reactor s fd < length (sub_reactors s)
        \<and> conn_ok interest fd c (sub_reactors s ! reactor s fd))"

lemma reactor_store [simp]: "reactor (store fd r ck s) fd' = reactor s fd'"
  by (simp add: reactor_def store_def split: prod.splits)

lemma reactor_less: "sub_reactors s \<noteq> [] \<Longrightarrow> reactor s fd < length (sub_reactors s)"
  by (simp add: reactor_def)

lemma connections_store [simp]: "connections (store fd r (c, k) s) = (connections s)(fd \<mapsto> c)"
  by (simp add: store_def)

lemma reactors_store [simp]: "sub_reactors (store fd r (c, k) s) = (sub_reactors s)[r := k]"
  by (simp add: store_def)

text \<open>Storing a good connection keeps the others good when the reactor changed at this descriptor only.\<close>

lemma server_ok_store:
  assumes "server_ok interest s" and "0 \<le> fd" and "r = reactor s fd" and "r < length (sub_reactors s)"
    and "conn_ok interest fd c k"
    and "\<And>fd'. fd' \<noteq> fd \<Longrightarrow> interest k fd' = interest (sub_reactors s ! r) fd'"
  shows "server_ok interest (store fd r (c, k) s)"
  unfolding server_ok_def
proof (intro allI impI)
  fix fd' c'
  assume c': "connections (store fd r (c, k) s) fd' = Some c'"
  show "0 \<le> fd' \<and> reactor (store fd r (c, k) s) fd' < length (sub_reactors (store fd r (c, k) s)) \<and>
      conn_ok interest fd' c' (sub_reactors (store fd r (c, k) s) ! reactor (store fd r (c, k) s) fd')"
  proof (cases "fd' = fd")
    case True
    with c' assms show ?thesis by simp
  next
    case False
    with c' assms(1) have "0 \<le> fd' \<and> reactor s fd' < length (sub_reactors s)
        \<and> conn_ok interest fd' c' (sub_reactors s ! reactor s fd')"
      by (auto simp: server_ok_def)
    with False assms(3,4,6) show ?thesis
      by (auto simp: conn_ok_def agrees_def nth_list_update)
  qed
qed

text \<open>Deleting a connection always succeeds: it is closed and taken out of its reactor.\<close>

lemma deleteConnection_ok:
  assumes "epoll_instance ctl interest" and "conn_ok interest fd c k"
  shows "\<exists>c' k'. deleteConnection ctl (c, k) = ret (c', k') \<and> conn_ok interest fd c' k'
    \<and> conn_state c' = Closed \<and> interest k' = (interest k)(fd := None)
    \<and> conn_sock c' = conn_sock c \<and> conn_context c' = conn_context c"
proof -
  have "agrees interest (conn_channel c) k" "ch_fd (conn_channel c) = fd"
    using assms(2) by (auto simp: conn_ok_def)
  then obtain ch k' where
    d: "obind (disableAll ctl (conn_channel c) k) (\<lambda>(ch, k). DeleteChannel ctl ch k) = ret (ch, k')"
    and ch: "agrees interest ch k'" "ch_fd ch = fd" "listen_events ch = 0"
      "ready_events ch = ready_events (conn_channel c)"
      "interest k' = (interest k)(fd := None)"
    using epoll_instance.disable_delete_ok [OF assms(1)] by metis
  have "deleteConnection ctl (c, k) = ret (c\<lparr>conn_state := Closed, conn_channel := ch\<rparr>, k')"
    using d by (auto simp: deleteConnection_def Let_def elim!: obind_eq_retE split: prod.splits)
  then show ?thesis
    using ch assms(2) by (auto simp: conn_ok_def never_writes_def isWriting_def)
qed

lemma DeleteConnection_ok:
  assumes "epoll_instance ctl interest" and "server_ok interest s"
  shows "\<exists>s'. DeleteConnection ctl fd s = ret s' \<and> server_ok interest s'
    \<and> (\<forall>fd'. fd' \<noteq> fd \<longrightarrow> connections s' fd' = connections s fd')
    \<and> (\<forall>c. connections s fd = Some c \<longrightarrow> (\<exists>c'. connections s' fd = Some c' \<and> conn_state c' = Closed
          \<and> conn_sock c' = conn_sock c \<and> interest (sub_reactors s' ! reactor s' fd) fd = None))
    \<and> length (sub_reactors s') = length (sub_reactors s)"
proof (cases "connections s fd")
  case None
  with assms(2) show ?thesis by (auto simp: DeleteConnection_def)
next
  case (Some c)
  let ?r = "reactor s fd"
  have ok: "0 \<le> fd" "?r < length (sub_reactors s)" "conn_ok interest fd c (sub_reactors s ! ?r)"
    using assms(2) Some by (auto simp: server_ok_def)
  obtain c' k' where d: "deleteConnection ctl (c, sub_reactors s ! ?r) = ret (c', k')"
    "conn_ok interest fd c' k'" "conn_state c' = Closed" "conn_sock c' = conn_sock c"
    "interest k' = (interest (sub_reactors s ! ?r))(fd := None)"
    using deleteConnection_ok [OF assms(1) ok(3)] by auto
  have "server_ok interest (store fd ?r (c', k') s)"
    using server_ok_store [OF assms(2) ok(1) refl ok(2) d(2)] d(5) by simp
  then show ?thesis
    using Some d ok(2) by (simp add: DeleteConnection_def Let_def)
qed

text \<open>The constructor of \<open>Connection\<close> on a descriptor that its loop does not know.\<close>

lemma Connection_ok:
  assumes ei: "epoll_instance ctl interest" and "spare \<noteq> -1" and "interest k (sock_fd so) = None"
  shows "\<exists>c k'. Connection ctl spare so k = ret (c, k') \<and> conn_ok interest (sock_fd so) c k'
    \<and> isConnected c \<and> conn_sock c = so \<and> conn_context c = 0
    \<and> interest k' = (interest k)(sock_fd so \<mapsto> (EPOLLIN OR EPOLLPRI OR EPOLLET))"
proof -
  obtain ch1 k1 ch k' where ch: "EnableRead ctl (Channel (sock_fd so)) k = ret (ch1, k1)"
    "UseET ctl ch1 k1 = ret (ch, k')" "agrees interest ch k'"
    "ch = \<lparr>ch_fd = sock_fd so, listen_events = EPOLLIN OR EPOLLPRI OR EPOLLET, ready_events = 0, in_epoll = True\<rparr>"
    "interest k' = (interest k)(sock_fd so \<mapsto> (EPOLLIN OR EPOLLPRI OR EPOLLET))"
    using epoll_instance.enable_et_ok [OF ei assms(3)] by metis
  have "never_writes ch" by (simp add: ch(4) never_writes_def isWriting_def epoll_masks)
  then show ?thesis
    using assms(2) ch by (simp add: Connection_def conn_ok_def isConnected_def)
qed

text \<open>
  A callback for new connections that only writes fields of the connection the loop does not look
  at, and leaves the interest list alone.
\<close>

definition same_wiring :: "('k \<Rightarrow> int \<rightharpoonup> 32 word) \<Rightarrow> 'k conn \<Rightarrow> 'k conn \<Rightarrow> bool" where
  "same_wiring interest = (\<lambda>(c, k) (c', k').
     conn_sock c' = conn_sock c \<and> conn_channel c' = conn_channel c \<and> conn_state c' = conn_state c
     \<and> interest k' = interest k)"

definition benign_connect ::
  "('k \<Rightarrow> int \<rightharpoonup> 32 word) \<Rightarrow> ('k conn \<Rightarrow> 'k conn outcome) option \<Rightarrow> bool" where
  "benign_connect interest new_connect \<longleftrightarrow>
     (\<forall>cb ck. new_connect = Some cb \<longrightarrow> yields {} (same_wiring interest ck) (cb ck))"

lemma benign_None [simp]: "benign_connect interest None"
  by (simp add: benign_connect_def)

lemma NewConnection_benign:
  assumes "epoll_instance ctl interest" and "server_ok interest s" and "sub_reactors s \<noteq> []"
    and "spare \<noteq> -1" and "0 \<le> sock_fd so"
    and "interest (sub_reactors s ! reactor s (sock_fd so)) (sock_fd so) = None"
    and "benign_connect interest new_connect"
  shows "yields {} (\<lambda>s'. \<exists>c k'. s' = store (sock_fd so) (reactor s (sock_fd so)) (c, k') s \<and> server_ok interest s'
      \<and> isConnected c \<and> conn_sock c = so
      \<and> interest k' = (interest (sub_reactors s ! reactor s (sock_fd so)))
            (sock_fd so \<mapsto> (EPOLLIN OR EPOLLPRI OR EPOLLET)))
    (NewConnection ctl new_connect spare so s)
    \<and> (new_connect = None \<longrightarrow> NewConnection ctl new_connect spare so s \<noteq> None)"
proof -
  let ?fd = "sock_fd so" and ?r = "reactor s (sock_fd so)"
  obtain c k' where c: "Connection ctl spare so (sub_reactors s ! ?r) = ret (c, k')" "conn_ok interest ?fd c k'"
    "isConnected c" "conn_sock c = so"
    "interest k' = (interest (sub_reactors s ! ?r))(?fd \<mapsto> (EPOLLIN OR EPOLLPRI OR EPOLLET))"
    using Connection_ok [OF assms(1,4,6)] by blast
  let ?cb = "case new_connect of None \<Rightarrow> ret (c, k') | Some cb \<Rightarrow> cb (c, k')"
  have new: "NewConnection ctl new_connect spare so s = obind ?cb (\<lambda>ck. ret (store ?fd ?r ck s))"
    using c(1) assms(3,5) by (simp add: NewConnection_def Let_def)
  have cb: "yields {} (same_wiring interest (c, k')) ?cb"
    using assms(7) by (cases new_connect) (auto simp: benign_connect_def same_wiring_def)
  have "server_ok interest (store ?fd ?r (c1, k1) s)"
    if "same_wiring interest (c, k') (c1, k1)" for c1 k1
  proof -
    have "conn_ok interest ?fd c1 k1" using that c(2) by (simp add: same_wiring_def conn_ok_def agrees_def)
    then show ?thesis
      using server_ok_store [OF assms(2,5) refl reactor_less [OF assms(3)]] c(5) that by (simp add: same_wiring_def)
  qed
  then have "yields {} (\<lambda>s'. \<exists>c k'. s' = store ?fd ?r (c, k') s \<and> server_ok interest s' \<and> isConnected c \<and> conn_sock c = so
      \<and> interest k' = (interest (sub_reactors s ! ?r))(?fd \<mapsto> (EPOLLIN OR EPOLLPRI OR EPOLLET)))
    (NewConnection ctl new_connect spare so s)"
    unfolding new using c(3-5)
    by (intro yields_bind [OF cb]) (fastforce simp: same_wiring_def isConnected_def)
  moreover have "new_connect = None \<longrightarrow> NewConnection ctl new_connect spare so s \<noteq> None"
    unfolding new by (simp add: ret_def obind_def)
  ultimately show ?thesis by (rule conjI)
qed

lemma NewConnection_ok:
  assumes "epoll_instance ctl interest" and "server_ok interest s" and "sub_reactors s \<noteq> []"
    and "spare \<noteq> -1" and "0 \<le> sock_fd so" and "interest (sub_reactors s ! reactor s (sock_fd so)) (sock_fd so) = None"
  shows "\<exists>s'. NewConnection ctl None spare so s = ret s' \<and> server_ok interest s'
    \<and> (\<forall>fd'. fd' \<noteq> sock_fd so \<longrightarrow> connections s' fd' = connections s fd')
    \<and> (\<exists>c. connections s' (sock_fd so) = Some c \<and> isConnected c \<and> conn_sock c = so)
    \<and> interest (sub_reactors s' ! reactor s' (sock_fd so)) (sock_fd so)
      = Some (EPOLLIN OR EPOLLPRI OR EPOLLET)"
  using NewConnection_benign [OF assms benign_None] reactor_less [OF assms(3)]
  by (fastforce simp: yields_def)

section \<open>The periodic check\<close>

text \<open>The connections that the check drops: idle for more than the limit, by unsigned subtraction.\<close>

definition expired :: "'k server \<Rightarrow> int \<times> 64 word \<Rightarrow> bool" where
  "expired s = (\<lambda>(fd, now). case connections s fd of
     None \<Rightarrow> False | Some c \<Rightarrow> now - conn_context c > idle_limit)"

definition expired_fds :: "'k server \<Rightarrow> int list \<Rightarrow> 64 word list \<Rightarrow> int list" where
  "expired_fds s order nows = map fst (filter (expired s) (zip order nows))"

definition dropped :: "int \<Rightarrow> 'k server \<Rightarrow> bool" where
  "dropped fd s \<longleftrightarrow>
     (case connections s fd of None \<Rightarrow> False
      | Some c \<Rightarrow> conn_state c = Closed \<and> \<not> in_epoll (conn_channel c))"

lemma dropped_interest:
  "server_ok interest s \<Longrightarrow> dropped fd s \<Longrightarrow> interest (sub_reactors s ! reactor s fd) fd = None"
  by (auto simp: server_ok_def conn_ok_def dropped_def agrees_def split: option.splits)

lemma expired_cong:
  assumes "\<And>fd. fd \<in> set fds \<Longrightarrow> connections s' fd = connections s fd"
  shows "expired_fds s' fds nows = expired_fds s fds nows"
proof -
  have "filter (expired s') (zip fds nows) = filter (expired s) (zip fds nows)"
  proof (rule filter_cong [OF refl])
    fix x assume "x \<in> set (zip fds nows)"
    then have "fst x \<in> set fds" using set_zip_leftD [of "fst x" "snd x"] by simp
    then show "expired s' x = expired s x" using assms by (cases x) (simp add: expired_def)
  qed
  then show ?thesis by (simp add: expired_fds_def)
qed

text \<open>One idle connection: told, closed, taken out of its reactor; nothing else changes.\<close>

lemma drop_one:
  assumes ei: "epoll_instance ctl interest" and ok: "server_ok interest s"
    and c: "connections s fd = Some c" and snd: "Send msg c = ret c1"
  shows "\<exists>ck. deleteConnection ctl (c1, sub_reactors s ! reactor s fd) = ret ck
    \<and> server_ok interest (store fd (reactor s fd) ck s)
    \<and> dropped fd (store fd (reactor s fd) ck s)
    \<and> (\<forall>fd'. fd' \<noteq> fd \<longrightarrow> connections (store fd (reactor s fd) ck s) fd' = connections s fd')"
proof -
  let ?r = "reactor s fd"
  have good: "0 \<le> fd" "?r < length (sub_reactors s)" "conn_ok interest fd c (sub_reactors s ! ?r)"
    using ok c by (auto simp: server_ok_def)
  have "conn_ok interest fd c1 (sub_reactors s ! ?r)"
    using good(3) Send_frame [OF snd] by (auto simp: conn_ok_def)
  then obtain c' k' where d: "deleteConnection ctl (c1, sub_reactors s ! ?r) = ret (c', k')"
    "conn_ok interest fd c' k'" "conn_state c' = Closed"
    "interest k' = (interest (sub_reactors s ! ?r))(fd := None)"
    using deleteConnection_ok [OF ei] by blast
  have "server_ok interest (store fd ?r (c', k') s)"
    using server_ok_store [OF ok good(1) refl good(2) d(2)] d(4) by simp
  moreover have "\<not> in_epoll (conn_channel c')"
    using d(2,4) by (auto simp: conn_ok_def agrees_def)
  ultimately show ?thesis using d by (auto simp: dropped_def)
qed

lemma check_loop_ok:
  assumes "epoll_instance ctl interest" and "server_ok interest s" and "distinct order"
    and "length order \<le> length nows"
    and "\<And>fd. fd \<in> set order \<Longrightarrow> \<exists>c c'. connections s fd = Some c \<and> Send ''You are cleared!'' c = ret c'"
  shows "\<exists>s'. check_loop ctl order nows s = ret (s', expired_fds s order nows) \<and> server_ok interest s'
    \<and> (\<forall>fd \<in> set (expired_fds s order nows). dropped fd s')
    \<and> (\<forall>fd. fd \<notin> set (expired_fds s order nows) \<longrightarrow> connections s' fd = connections s fd)"
  using assms(2-)
proof (induction order arbitrary: nows s)
  case Nil
  then show ?case by (simp add: expired_fds_def)
next
  case (Cons fd fds)
  obtain now nows' where nows: "nows = now # nows'" using Cons.prems(3) by (cases nows) auto
  obtain c c1 where c: "connections s fd = Some c" "Send ''You are cleared!'' c = ret c1"
    using Cons.prems(4) [of fd] by auto
  have sub: "set (expired_fds s fds nows') \<subseteq> set fds" for s :: "'a server"
    by (auto simp: expired_fds_def dest: set_zip_leftD)
  show ?case
  proof (cases "now - conn_context c > idle_limit")
    case False
    then have "expired_fds s (fd # fds) nows = expired_fds s fds nows'"
      using c nows by (simp add: expired_fds_def expired_def)
    then show ?thesis
      using Cons.IH [of s nows'] Cons.prems False c nows by simp
  next
    case True
    then have ex: "expired_fds s (fd # fds) nows = fd # expired_fds s fds nows'"
      using c nows by (simp add: expired_fds_def expired_def)
    obtain ck where d: "deleteConnection ctl (c1, sub_reactors s ! reactor s fd) = ret ck"
      and s1: "server_ok interest (store fd (reactor s fd) ck s)"
      and dr: "dropped fd (store fd (reactor s fd) ck s)"
      and fr: "\<And>fd'. fd' \<noteq> fd \<Longrightarrow> connections (store fd (reactor s fd) ck s) fd' = connections s fd'"
      using drop_one [OF assms(1) Cons.prems(1) c] by auto
    let ?s1 = "store fd (reactor s fd) ck s"
    have same: "expired_fds ?s1 fds nows' = expired_fds s fds nows'"
    proof (rule expired_cong)
      fix fd' assume "fd' \<in> set fds"
      then show "connections ?s1 fd' = connections s fd'" using Cons.prems(2) by (intro fr) auto
    qed
    have "\<exists>s'. check_loop ctl fds nows' ?s1 = ret (s', expired_fds ?s1 fds nows') \<and> server_ok interest s'
      \<and> (\<forall>fd \<in> set (expired_fds ?s1 fds nows'). dropped fd s')
      \<and> (\<forall>fd. fd \<notin> set (expired_fds ?s1 fds nows') \<longrightarrow> connections s' fd = connections ?s1 fd)"
    proof (rule Cons.IH [OF s1])
      fix fd' assume fd': "fd' \<in> set fds"
      then have "fd' \<noteq> fd" using Cons.prems(2) by auto
      then show "\<exists>c c'. connections ?s1 fd' = Some c \<and> Send ''You are cleared!'' c = ret c'"
        using fd' Cons.prems(4) [of fd'] by (simp add: fr)
    qed (use Cons.prems nows in auto)
    then obtain s' where s': "check_loop ctl fds nows' ?s1 = ret (s', expired_fds s fds nows')"
      "server_ok interest s'" "\<forall>fd \<in> set (expired_fds s fds nows'). dropped fd s'"
      "\<forall>fd. fd \<notin> set (expired_fds s fds nows') \<longrightarrow> connections s' fd = connections ?s1 fd"
      unfolding same by blast
    have "fd \<notin> set (expired_fds s fds nows')" using sub Cons.prems(2) by auto
    then have "dropped fd s'" using s'(4) dr by (simp add: dropped_def)
    then show ?thesis
      using s' ex c d True nows fr by (auto simp: Let_def)
  qed
qed

lemma delete_all_ok:
  assumes "epoll_instance ctl interest" and "server_ok interest s"
  shows "\<exists>s'. delete_all ctl fds s = ret s' \<and> server_ok interest s'
    \<and> (\<forall>fd \<in> set fds. dropped fd s \<longrightarrow> dropped fd s')
    \<and> (\<forall>fd. fd \<notin> set fds \<longrightarrow> connections s' fd = connections s fd)"
  using assms(2)
proof (induction fds arbitrary: s)
  case (Cons fd fds)
  obtain s1 where s1: "DeleteConnection ctl fd s = ret s1" "server_ok interest s1"
    "\<forall>fd'. fd' \<noteq> fd \<longrightarrow> connections s1 fd' = connections s fd'"
    "\<forall>c. connections s fd = Some c \<longrightarrow> (\<exists>c'. connections s1 fd = Some c' \<and> conn_state c' = Closed
        \<and> interest (sub_reactors s1 ! reactor s1 fd) fd = None)"
    using DeleteConnection_ok [OF assms(1) Cons.prems, of fd] by blast
  have "dropped fd s1" if "dropped fd s"
    using that s1(2,4) by (auto simp: dropped_def server_ok_def conn_ok_def agrees_def split: option.splits)
  moreover have "dropped fd' s1" if "dropped fd' s" "fd' \<noteq> fd" for fd'
    using that s1(3) by (simp add: dropped_def)
  ultimately have d: "dropped fd' s1" if "dropped fd' s" for fd' using that by blast
  obtain s2 where s2: "delete_all ctl fds s1 = ret s2" "server_ok interest s2"
    "\<forall>fd \<in> set fds. dropped fd s1 \<longrightarrow> dropped fd s2"
    "\<forall>fd. fd \<notin> set fds \<longrightarrow> connections s2 fd = connections s1 fd"
    using Cons.IH [OF s1(2)] by blast
  have "dropped fd' s2" if "fd' \<in> set (fd # fds)" "dropped fd' s" for fd'
    using that d s2(3,4) by (cases "fd' \<in> set fds") (auto simp: dropped_def)
  then show ?case using s1 s2 by auto
qed simp

text \<open>The whole check.\<close>

lemma check_ok:
  assumes "epoll_instance ctl interest" and "server_ok interest s" and "distinct order"
    and "length order \<le> length nows"
    and "\<And>fd. fd \<in> set order \<Longrightarrow> \<exists>c c'. connections s fd = Some c \<and> Send ''You are cleared!'' c = ret c'"
  shows "\<exists>s'. CheckActiveConnection ctl order nows s = ret s' \<and> server_ok interest s'
    \<and> (\<forall>fd \<in> set (expired_fds s order nows). dropped fd s')
    \<and> (\<forall>fd. fd \<notin> set (expired_fds s order nows) \<longrightarrow> connections s' fd = connections s fd)"
proof -
  obtain s1 where s1: "check_loop ctl order nows s = ret (s1, expired_fds s order nows)"
    "server_ok interest s1" "\<forall>fd \<in> set (expired_fds s order nows). dropped fd s1"
    "\<forall>fd. fd \<notin> set (expired_fds s order nows) \<longrightarrow> connections s1 fd = connections s fd"
    using check_loop_ok [OF assms] by blast
  then show ?thesis
    using delete_all_ok [OF assms(1) s1(2), of "expired_fds s order nows"]
    by (auto simp: CheckActiveConnection_def)
qed

section \<open>Events on a connection\<close>

text \<open>
  A step of connection \<open>fd\<close> is safe up to the ends in \<open>E\<close> when it waits for the environment, ends the
  process in one of these ways, or returns a good connection and leaves the rest of the interest list
  alone. It is good when it is safe and never ends the process.
\<close>

definition safe_step :: "fault set \<Rightarrow> ('k \<Rightarrow> int \<rightharpoonup> 32 word) \<Rightarrow> int \<Rightarrow> 'k \<Rightarrow> 'k conn outcome \<Rightarrow> bool" where
  "safe_step E interest fd k m \<longleftrightarrow>
     m = None \<or> (\<exists>f \<in> E. m = fail f)
     \<or> (\<exists>c' k'. m = ret (c', k') \<and> conn_ok interest fd c' k'
             \<and> (\<forall>fd'. fd' \<noteq> fd \<longrightarrow> interest k' fd' = interest k fd'))"

abbreviation good_step :: "('k \<Rightarrow> int \<rightharpoonup> 32 word) \<Rightarrow> int \<Rightarrow> 'k \<Rightarrow> 'k conn outcome \<Rightarrow> bool" where
  "good_step \<equiv> safe_step {}"

lemma safe_step_mono: "safe_step E interest fd k m \<Longrightarrow> E \<subseteq> E' \<Longrightarrow> safe_step E' interest fd k m"
  by (auto simp: safe_step_def)

lemma safe_step_ret: "conn_ok interest fd c k \<Longrightarrow> safe_step E interest fd k (ret (c, k))"
  by (auto simp: safe_step_def)

lemma safe_step_bind:
  assumes "safe_step E interest fd k m"
    and "\<And>c' k'. conn_ok interest fd c' k' \<Longrightarrow> safe_step E interest fd k' (f (c', k'))"
  shows "safe_step E interest fd k (obind m f)"
proof -
  consider "m = None" | e where "e \<in> E" "m = fail e" | c' k' where "m = ret (c', k')" "conn_ok interest fd c' k'"
    "\<forall>fd'. fd' \<noteq> fd \<longrightarrow> interest k' fd' = interest k fd'"
    using assms(1) by (auto simp: safe_step_def)
  then show ?thesis
  proof cases
    case 3
    then show ?thesis using assms(2) [OF 3(2)] by (auto simp: safe_step_def)
  qed (auto simp: safe_step_def)
qed

lemma conn_ok_update [simp]:
  "conn_ok interest fd (c\<lparr>read_buffer := b\<rparr>) k = conn_ok interest fd c k"
  "conn_ok interest fd (c\<lparr>conn_sock := (conn_sock c)\<lparr>incoming := rs\<rparr>\<rparr>) k = conn_ok interest fd c k"
  "conn_ok interest fd c k \<Longrightarrow> conn_ok interest fd (c\<lparr>conn_state := Closed\<rparr>) k"
  by (auto simp: conn_ok_def)

lemma safe_step_close:
  assumes "epoll_instance ctl interest" and "connections s fd \<noteq> None" and "conn_ok interest fd c k"
  shows "safe_step E interest fd k (Close (delete_cb ctl s) (c, k))"
proof -
  have "conn_ok interest fd (c\<lparr>conn_state := Closed\<rparr>) k" using assms(3) by simp
  from deleteConnection_ok [OF assms(1) this] obtain c' k' where
    "deleteConnection ctl (c\<lparr>conn_state := Closed\<rparr>, k) = ret (c', k')" "conn_ok interest fd c' k'"
    "interest k' = (interest k)(fd := None)" by blast
  moreover have "sock_fd (conn_sock c) = fd" using assms(3) by (simp add: conn_ok_def)
  ultimately show ?thesis using assms(2) by (auto simp: safe_step_def Close_def delete_cb_def)
qed

lemma safe_step_read_loop:
  assumes "epoll_instance ctl interest" and "connections s fd \<noteq> None" and "conn_ok interest fd c k"
  shows "safe_step E interest fd k (read_loop (delete_cb ctl s) rs (c, k))"
  using assms(3)
proof (induction rs arbitrary: c)
  case Nil
  then show ?case by (simp add: safe_step_def)
next
  case (Cons r rs)
  note close = safe_step_close [OF assms(1,2)]
  show ?case
    using Cons by (cases r) (auto simp: Let_def intro!: close safe_step_ret)
qed

lemma safe_step_Read:
  assumes "epoll_instance ctl interest" and "connections s fd \<noteq> None" and "conn_ok interest fd c k"
  shows "safe_step E interest fd k (Read (delete_cb ctl s) (c, k))"
proof -
  have blocking: "safe_step E interest fd k (ReadBlocking (c\<lparr>read_buffer := []\<rparr>, k))"
    using assms(3)
    by (auto simp: Let_def safe_step_def conn_ok_def split: list.splits read_result.splits)
  show ?thesis
    using assms(3) blocking safe_step_read_loop [OF assms(1,2)]
    by (simp add: Read_def ReadNonBlocking_def Let_def safe_step_ret del: ReadBlocking.simps)
qed

lemma event_ok:
  assumes "epoll_instance ctl interest" and "server_ok interest s" and "connections s fd = Some c"
    and "ev AND EPOLLOUT = 0"
    and msg: "\<And>c k. conn_ok interest fd c k \<Longrightarrow> safe_step E interest fd k (on_message (c, k))"
  shows "connection_event ctl on_message fd ev s = None
    \<or> (\<exists>f \<in> E. connection_event ctl on_message fd ev s = fail f)
    \<or> (\<exists>c' k'. connection_event ctl on_message fd ev s = ret (store fd (reactor s fd) (c', k') s)
        \<and> server_ok interest (store fd (reactor s fd) (c', k') s) \<and> conn_ok interest fd c' k'
        \<and> (\<forall>fd'. fd' \<noteq> fd \<longrightarrow> interest k' fd' = interest (sub_reactors s ! reactor s fd) fd'))"
proof -
  let ?r = "reactor s fd" and ?c = "c\<lparr>conn_channel := SetReadyEvents ev (conn_channel c)\<rparr>"
  let ?k = "sub_reactors s ! ?r"
  let ?ready = "\<lambda>ck :: 'a conn. ready_events (conn_channel (fst ck))"
  have good: "0 \<le> fd" "?r < length (sub_reactors s)" "conn_ok interest fd c ?k"
    using assms(2,3) by (auto simp: server_ok_def)
  have c0: "conn_ok interest fd ?c ?k"
    using good(3) assms(4)
    by (simp add: conn_ok_def SetReadyEvents_def agrees_def never_writes_def isWriting_def)
  have found: "connections s fd \<noteq> None" using assms(3) by simp
  let ?handle = "HandleEvent ?ready (Some (Business (delete_cb ctl s) on_message)) None
    (Some (Close (delete_cb ctl s))) (?c, ?k)"
  have "safe_step E interest fd ?k ?handle"
    unfolding HandleEvent_def
  proof (intro safe_step_bind)
    show "safe_step E interest fd ?k (if ?ready (?c, ?k) AND EPOLLHUP \<noteq> 0
        \<and> \<not> (?ready (?c, ?k) AND EPOLLIN \<noteq> 0)
      then if Some (Close (delete_cb ctl s)) \<noteq> None then call (Some (Close (delete_cb ctl s))) (?c, ?k)
        else ret (?c, ?k) else ret (?c, ?k))"
      using safe_step_close [OF assms(1) found c0] safe_step_ret [OF c0] by (simp add: call_def)
  next
    fix c' k' assume "conn_ok interest fd c' k'"
    then show "safe_step E interest fd k' (if ?ready (c', k') AND (EPOLLIN OR EPOLLPRI) \<noteq> 0
      then call (Some (Business (delete_cb ctl s) on_message)) (c', k') else ret (c', k'))"
      using safe_step_bind [OF safe_step_Read [OF assms(1) found] msg] safe_step_ret [of interest fd c' k']
      by (simp add: call_def Business_def)
  next
    fix c' k' assume "conn_ok interest fd c' k'"
    then show "safe_step E interest fd k' (if ?ready (c', k') AND EPOLLOUT \<noteq> 0
      then call None (c', k') else ret (c', k'))"
      using safe_step_ret [of interest fd c' k'] by (simp add: conn_ok_def)
  qed
  then consider "?handle = None" | e where "e \<in> E" "?handle = fail e"
    | c' k' where "?handle = ret (c', k')" "conn_ok interest fd c' k'"
        "\<forall>fd'. fd' \<noteq> fd \<longrightarrow> interest k' fd' = interest ?k fd'"
    by (auto simp: safe_step_def)
  then show ?thesis
  proof cases
    case (3 c' k')
    then show ?thesis
      using assms(3) server_ok_store [OF assms(2) good(1) refl good(2) 3(2)]
      by (auto simp: connection_event_def Let_def case_prod_unfold)
  qed (use assms(3) in \<open>auto simp: connection_event_def Let_def case_prod_unfold\<close>)
qed

section \<open>An event that brings input\<close>

lemma input_event [simp]:
  "EPOLLIN AND EPOLLHUP = 0" "EPOLLIN \<noteq> 0" "EPOLLIN AND EPOLLOUT = 0"
  by (simp_all add: epoll_masks)

lemma chunks_no_nul: "CHR 0x00 \<notin> set (concat bs) \<Longrightarrow> concat (map c_string bs) = concat bs"
  by (induction bs) auto

text \<open>The state in which the message callback finds a connection that has read a burst of chunks.\<close>

abbreviation after_read :: "string list \<Rightarrow> connection \<Rightarrow> connection" where
  "after_read chunks c \<equiv> c\<lparr>conn_channel := SetReadyEvents EPOLLIN (conn_channel c),
     conn_sock := (conn_sock c)\<lparr>incoming := after_burst (incoming (conn_sock c))\<rparr>, read_buffer := concat chunks\<rparr>"

lemma burst_read:
  assumes "isConnected c" and "nonblocking (conn_sock c)"
    and "burst (incoming (conn_sock c)) = Some chunks" and "CHR 0x00 \<notin> set (concat chunks)"
  shows "Read del_cb (c\<lparr>conn_channel := SetReadyEvents EPOLLIN (conn_channel c)\<rparr>, k) = ret (after_read chunks c, k)"
  using read_loop_burst [OF assms(3), of del_cb
      "c\<lparr>conn_channel := SetReadyEvents EPOLLIN (conn_channel c), read_buffer := []\<rparr>" k]
    chunks_no_nul [OF assms(4)] assms(1,2)
  by (simp add: Read_def ReadNonBlocking_def IsNonBlocking_def isConnected_def)

lemma burst_event:
  assumes "connections s fd = Some c" and "isConnected c" and "nonblocking (conn_sock c)"
    and "burst (incoming (conn_sock c)) = Some chunks" and "CHR 0x00 \<notin> set (concat chunks)"
    and "on_message (after_read chunks c, sub_reactors s ! reactor s fd) = ret (c', k')"
    and "ready_events (conn_channel c') = EPOLLIN"
  shows "connection_event ctl on_message fd EPOLLIN s = ret (store fd (reactor s fd) (c', k') s)"
  using assms(1,6,7) burst_read [OF assms(2-5), of "delete_cb ctl s" "sub_reactors s ! reactor s fd"]
  by (simp add: connection_event_def HandleEvent_def call_def Business_def SetReadyEvents_def Let_def)

lemma burst_event_fails:
  assumes "connections s fd = Some c" and "isConnected c" and "nonblocking (conn_sock c)"
    and "burst (incoming (conn_sock c)) = Some chunks" and "CHR 0x00 \<notin> set (concat chunks)"
    and "on_message (after_read chunks c, sub_reactors s ! reactor s fd) = fail f"
  shows "connection_event ctl on_message fd EPOLLIN s = fail f"
  using assms(1,6) burst_read [OF assms(2-5), of "delete_cb ctl s" "sub_reactors s ! reactor s fd"]
  by (simp add: connection_event_def HandleEvent_def call_def Business_def SetReadyEvents_def Let_def)

text \<open>A message that the kernel takes in one call.\<close>

lemma write_loop_done [simp]: "write_loop buf 0 ws c = ret c"
  by (cases ws) auto

lemma Send_whole:
  assumes "isConnected c" and "nonblocking (conn_sock c)" and "c_string msg \<noteq> []"
    and "outcomes (conn_sock c) = Wrote (length (c_string msg)) # ws"
  shows "Send msg c = ret (c\<lparr>conn_sock := (conn_sock c)\<lparr>outcomes := ws,
    wire := wire (conn_sock c) @ c_string msg\<rparr>, send_buffer := []\<rparr>)"
proof -
  have "c_string (c_string msg) = c_string msg" by simp
  then show ?thesis
    using assms by (simp add: Send_def SetSendBuffer_def SetBuf_def Write_def WriteNonBlocking_def
        IsNonBlocking_def isConnected_def Let_def)
qed

end
