(* ===== verification/Network_Properties.thy ===== *)
theory Network_Properties
  imports Http_Example Server
begin

text \<open>
  The properties of the HTTP server and of the network layer: what a buffer of bytes is answered
  with, the safety of the parser, reading and writing on a connection, and the server's table of
  connections.
\<close>

section \<open>Sample states for the witnesses\<close>

definition sample_sock :: sock where
  "sample_sock = \<lparr>sock_fd = 7, nonblocking = True, incoming = [], outcomes = [Wrote 20, Write_EINTR, Wrote 26, Wrote 2],
     wire = [], shutdown_fails = False, write_shut = False\<rparr>"

definition sample_conn :: connection where
  "sample_conn = \<lparr>conn_sock = sample_sock, conn_channel = (Channel 7)\<lparr>in_epoll := True\<rparr>,
     conn_state = Connected, read_buffer = [], send_buffer = [], conn_context = 0\<rparr>"

lemma sample_conn_sendable [simp]:
  "sendable (sample_conn\<lparr>read_buffer := b\<rparr>)" "sendable sample_conn"
  by (simp_all add: sendable_def isConnected_def sample_conn_def sample_sock_def never_writes_def isWriting_def
      Channel_def)

lemma sample_sent [simp]: "sent (sample_conn\<lparr>read_buffer := b\<rparr>) = ([], False)" "sent sample_conn = ([], False)"
  by (simp_all add: sent_def sample_conn_def sample_sock_def)

lemma sample_conn_fields [simp]:
  "conn_sock (sample_conn\<lparr>read_buffer := b\<rparr>) = sample_sock" "conn_sock sample_conn = sample_sock"
  by (simp_all add: sample_conn_def)

text \<open>An order of headers for responses without any.\<close>

definition no_headers :: header_order where
  "no_headers h = []"

definition simple_get :: string where
  "simple_get = ''GET / HTTP/1.1'' @ crlf @ crlf"

definition not_found_text :: string where
  "not_found_text = ''HTTP/1.1 404 Not Found'' @ crlf @ ''Connection: closer'' @ crlf @ crlf"

lemma not_found_reply:
  "reply_text no_headers (defaultHttpCallback req (HttpResponse True)) = not_found_text"
  by (simp add: reply_text_def defaultHttpCallback_def HttpResponse_def setCloseConnection_def
      setStatusMessage_def setStatusCode_def no_headers_def not_found_text_def decimal.simps digit_char_def
      char_of_def bit_0 crlf_def)

lemma not_found_sent [simp]: "c_string not_found_text = not_found_text" "length not_found_text = 46"
  by (simp_all add: not_found_text_def crlf_def newline_def)

lemma simple_get_text: "simple_get = request_text Get ''/'' [] Http11 []"
  by (simp add: simple_get_def request_text_def request_line_def header_lines_def)

lemma simple_get_ok: "target_ok ''/'' []" "CHR 0x00 \<notin> set simple_get"
  by (simp_all add: target_ok_def simple_get_def crlf_def newline_def)

section \<open>The HTTP server\<close>

text \<open>
  A buffer that starts with a complete request (any known method, a path, an optional query,
  version 1.0 or 1.1, any headers, the blank line) is answered with exactly the reply the user's
  callback has built for the parsed request, cut at its first NUL byte, and the writing side is
  shut when the reply says so. The kernel is assumed to take the bytes, in any number of pieces.
\<close>

theorem http_request_answered:
  fixes cb :: http_callback and m v path query hs
  defines "req \<equiv> \<lparr>req_method = m, req_version = v, req_path = path, req_query = query,
      req_headers = add_headers hs (\<lambda>_. None)\<rparr>"
  defines "resp \<equiv> cb req (HttpResponse True)"
  assumes "m \<noteq> Invalid" and "v \<noteq> Unknown" and "target_ok path query" and "\<forall>h \<in> set hs. header_ok h"
    and "read_buffer c = request_text m path query v hs @ rest"
    and "CHR 0x00 \<notin> set (read_buffer c)"
    and "sendable c" and "closeConnection resp \<or> length (body resp) < 10 ^ 13"
    and "accepted (length (c_string (reply_text iter resp))) (outcomes (conn_sock c))
           = Some (length (c_string (reply_text iter resp)))"
  shows "\<exists>w' c'. onMessage iter cb w c = ret (w', c')
    \<and> sent c' = (fst (sent c) @ c_string (reply_text iter resp), snd (sent c) \<or> closeConnection resp)"
  unfolding resp_def req_def by (rule onMessage_answer) (use assms in \<open>simp_all add: resp_def req_def\<close>)

theorem http_request_answered_witness:
  "\<exists>w' c'. onMessage no_headers defaultHttpCallback ParseWorker_init (sample_conn\<lparr>read_buffer := simple_get\<rparr>)
     = ret (w', c') \<and> sent c' = (not_found_text, True)"
proof -
  have "closeConnection (defaultHttpCallback req (HttpResponse True))" for req
    by (simp add: defaultHttpCallback_def setCloseConnection_def)
  moreover have "accepted 46 (outcomes sample_sock) = Some 46" by (simp add: sample_sock_def)
  ultimately show ?thesis
    using http_request_answered [of Get Http11 "''/''" "[]" "[]" "sample_conn\<lparr>read_buffer := simple_get\<rparr>" "[]"
        defaultHttpCallback no_headers ParseWorker_init] simple_get_ok
    by (simp add: not_found_reply simple_get_text)
qed

text \<open>
  A buffer with a valid request line and complete headers, but whose blank line has not arrived,
  is not answered at all: the connection stays exactly as it was.
\<close>

theorem incomplete_request_is_silent:
  assumes "m \<noteq> Invalid" and "v \<noteq> Unknown" and "target_ok path query" and "\<forall>h \<in> set hs. header_ok h"
    and "CR \<notin> set part" and "read_buffer c = request_line m path query v @ crlf @ header_lines hs @ part"
    and "CHR 0x00 \<notin> set (read_buffer c)"
  shows "\<exists>w'. onMessage iter cb w c = ret (w', c)"
proof -
  have "unread (SetStr (ReadBuffer c) w) = request_line m path query v @ crlf @ header_lines hs @ part"
    using assms(6,7) by (simp add: ReadBuffer_def ToStr_def)
  from parse_partial_text [OF assms(1-5) this] obtain ctx w' where
    "parseRequest HttpContext (SetStr (ReadBuffer c) w) = (True, ctx, w')" "ctx_state ctx = ExpectHeaders"
    by auto
  then show ?thesis by (auto simp: onMessage_def gotAll_def)
qed

theorem incomplete_request_is_silent_witness:
  "\<exists>w'. onMessage no_headers defaultHttpCallback ParseWorker_init
      (sample_conn\<lparr>read_buffer := ''GET / HTTP/1.1'' @ crlf @ ''Host''\<rparr>)
    = ret (w', sample_conn\<lparr>read_buffer := ''GET / HTTP/1.1'' @ crlf @ ''Host''\<rparr>)"
  using incomplete_request_is_silent [of Get Http11 "''/''" "[]" "[]" "''Host''"
      "sample_conn\<lparr>read_buffer := ''GET / HTTP/1.1'' @ crlf @ ''Host''\<rparr>" no_headers defaultHttpCallback ParseWorker_init]
  by (simp add: target_ok_def request_line_def header_lines_def CR_def crlf_def newline_def)

text \<open>
  C35. A buffer whose first line is not a request line, or that has no line end at all, is answered
  with the fixed 400 reply, once, and the writing side is shut.
\<close>

theorem bad_request_answered:
  assumes "CR \<notin> set (read_buffer c)
      \<or> (\<exists>l rest. read_buffer c = l @ crlf @ rest \<and> CR \<notin> set l \<and> \<not> fst (processRequestLine l HttpRequest))"
    and "CHR 0x00 \<notin> set (read_buffer c)" and "sendable c"
    and "accepted (length bad_request) (outcomes (conn_sock c)) = Some (length bad_request)"
  shows "\<exists>w' c'. onMessage iter cb w c = ret (w', c') \<and> sent c' = (fst (sent c) @ bad_request, True)"
proof -
  have "fst (parseRequest HttpContext (SetStr (ReadBuffer c) w)) = False"
    using assms(2) by (intro bad_first_line [OF assms(1)]) (simp add: ReadBuffer_def ToStr_def)
  from onMessage_bad [OF assms(3) this assms(4)] show ?thesis .
qed

theorem bad_request_answered_witness:
  "\<exists>w' c'. onMessage no_headers defaultHttpCallback ParseWorker_init
      (sample_conn\<lparr>read_buffer := ''PUT nothing'', conn_sock := sample_sock\<lparr>outcomes := [Wrote 28]\<rparr>\<rparr>)
     = ret (w', c') \<and> sent c' = (bad_request, True)"
proof -
  let ?c = "sample_conn\<lparr>read_buffer := ''PUT nothing'', conn_sock := sample_sock\<lparr>outcomes := [Wrote 28]\<rparr>\<rparr>"
  have "accepted (length bad_request) (outcomes (conn_sock ?c)) = Some (length bad_request)"
    by (simp add: bad_request_def crlf_def)
  moreover have "sendable ?c" "sent ?c = ([], False)"
    by (simp_all add: sendable_def isConnected_def sample_conn_def sample_sock_def never_writes_def
        isWriting_def Channel_def sent_def)
  ultimately show ?thesis
    using bad_request_answered [of ?c no_headers defaultHttpCallback ParseWorker_init]
    by (simp add: CR_def)
qed

text \<open>
  C36. For every buffer the parser returns with its cursor inside the buffer, and it never reports a
  complete request together with an error, so no buffer is answered twice.
\<close>

theorem parser_is_safe:
  "pw_ok (snd (snd (parseRequest HttpContext (SetStr s w))))
   \<and> \<not> (\<not> fst (parseRequest HttpContext (SetStr s w)) \<and> gotAll (fst (snd (parseRequest HttpContext (SetStr s w)))))"
  using parse_loop_ok [of "SetStr s w" False HttpContext] parse_done [of HttpContext False "SetStr s w"]
  by (auto simp: parseRequest_def gotAll_def HttpContext_def)

text \<open>
  C21. The parser inverts the printing of a request: method, path, query (with its question mark),
  version and headers come back, and the bytes after the blank line are left unread.
\<close>

theorem request_roundtrip:
  assumes "m \<noteq> Invalid" and "v \<noteq> Unknown" and "target_ok path query" and "\<forall>h \<in> set hs. header_ok h"
    and "unread w = request_text m path query v hs @ rest" and "pw_ok w"
  shows "\<exists>w'. parseRequest HttpContext w = (True,
      \<lparr>ctx_state = GotAll,
       ctx_request = \<lparr>req_method = m, req_version = v, req_path = path, req_query = query,
                      req_headers = add_headers hs (\<lambda>_. None)\<rparr>\<rparr>, w')
    \<and> unread w' = rest"
  using parse_request_text [OF assms] by blast

theorem request_roundtrip_witness:
  "\<exists>w'. parseRequest HttpContext (SetStr (request_text Post ''/a'' ''?x=1'' Http10 [(''Host'', ''me'')] @ ''body'') ParseWorker_init)
     = (True, \<lparr>ctx_state = GotAll, ctx_request = \<lparr>req_method = Post, req_version = Http10, req_path = ''/a'',
          req_query = ''?x=1'', req_headers = [''Host'' \<mapsto> ''me'']\<rparr>\<rparr>, w')
     \<and> unread w' = ''body''"
  using request_roundtrip [of Post Http10 "''/a''" "''?x=1''" "[(''Host'', ''me'')]"
      "SetStr (request_text Post ''/a'' ''?x=1'' Http10 [(''Host'', ''me'')] @ ''body'') ParseWorker_init" "''body''"]
  by (simp add: target_ok_def header_ok_def trimmed_def isspace_def)

text \<open>
  For a reply that closes the connection, or whose body has less than \<open>10 ^ 13\<close> bytes, building it
  stays within the 32 byte buffer and appends the status line, the connection header, the length
  unless the connection closes, the headers in map order, a blank line and the body.
\<close>

theorem reply_text_complete:
  assumes "closeConnection r \<or> length (body r) < 10 ^ 13"
  shows "appendToBuffer iter r out = ret (out @ reply_text iter r)"
  using appendToBuffer_text [OF assms] .

theorem reply_text_complete_witness:
  "appendToBuffer no_headers (setBody ''hi'' (setStatusMessage ''OK'' (setStatusCode Ok200 (HttpResponse False)))) []
   = ret (''HTTP/1.1 200 OK'' @ crlf @ ''Content-Length: 2'' @ crlf @ ''Connection: Keep-Alive'' @ crlf @ crlf @ ''hi'')"
  using reply_text_complete [of "setBody ''hi'' (setStatusMessage ''OK'' (setStatusCode Ok200 (HttpResponse False)))"
      no_headers "[]"]
  by (simp add: setBody_def setStatusMessage_def setStatusCode_def HttpResponse_def reply_text_def no_headers_def
      decimal.simps digit_char_def char_of_def bit_0)

text \<open>
  The example server cannot deliver its icon: of the 555 bytes of the picture only the first 8,
  those before the first NUL, are part of what is sent.
\<close>

theorem favicon_is_cut:
  assumes "req_path req = ''/favicon.ico''"
    and "map_of (iter [''Content-Type'' \<mapsto> ''image/png'']) = [''Content-Type'' \<mapsto> ''image/png'']"
    and "distinct (map fst (iter [''Content-Type'' \<mapsto> ''image/png'']))"
  shows "length (body (example_onRequest req (HttpResponse True))) = 555
    \<and> c_string (reply_text iter (example_onRequest req (HttpResponse True)))
      = ''HTTP/1.1 200 OK'' @ crlf @ ''Connection: closer'' @ crlf @ ''Content-Type: image/png'' @ crlf @ crlf
        @ map char_of [0x89, 0x50, 0x4E, 0x47, 0x0D, 0x0A, 0x1A, 0x0A :: nat]"
proof -
  let ?h = "[''Content-Type'' \<mapsto> ''image/png'']" and ?r = "example_onRequest req (HttpResponse True)"
  have "fst ` set (iter ?h) = {''Content-Type''}" using assms(2) dom_map_of_conv_image_fst [of "iter ?h"] by simp
  moreover have "length (iter ?h) = card (fst ` set (iter ?h))"
    using assms(3) distinct_card [of "map fst (iter ?h)"] by simp
  ultimately have "length (iter ?h) = 1" by simp
  then obtain p where p: "iter ?h = [p]" by (auto simp: length_Suc_conv)
  then have iter: "iter ?h = [(''Content-Type'', ''image/png'')]"
    using assms(2) by (cases p) (auto simp: fun_eq_iff split: if_splits)
  have r: "resp_headers ?r = ?h" "statusCode ?r = Ok200" "statusMessage ?r = ''OK''" "closeConnection ?r"
    "body ?r = favicon"
    using assms(1) by (simp_all add: example_onRequest_def setStatusCode_def setStatusMessage_def setContentType_def
        resp_addHeader_def setBody_def HttpResponse_def)
  define header where "header = ''HTTP/1.1 200 OK'' @ crlf @ ''Connection: closer'' @ crlf
    @ ''Content-Type: image/png'' @ crlf @ crlf"
  have reply: "reply_text iter ?r = header @ favicon"
    by (simp add: reply_text_def r iter decimal.simps digit_char_def char_of_def bit_0 header_def)
  have "CHR 0x00 \<notin> set header" by (simp add: header_def crlf_def newline_def)
  then have "c_string (reply_text iter ?r) = header @ c_string favicon" by (simp add: reply c_string_append)
  then show ?thesis by (simp add: r favicon_length favicon_cut favicon_codes_def header_def)
qed

theorem favicon_is_cut_witness:
  "length (c_string (reply_text (\<lambda>h. [(''Content-Type'', ''image/png'')])
     (example_onRequest (setPath ''/favicon.ico'' HttpRequest) (HttpResponse True)))) = 72"
  using favicon_is_cut [of "setPath ''/favicon.ico'' HttpRequest" "\<lambda>h. [(''Content-Type'', ''image/png'')]"]
  by (simp add: setPath_def crlf_def)

section \<open>Connections\<close>

text \<open>
  A read on a non-blocking connection collects every chunk up to the first \<open>EAGAIN\<close>, across
  interrupted calls, each chunk up to its first NUL, and drops what an earlier read had left.
\<close>

theorem read_collects_burst:
  assumes "isConnected c" and "nonblocking (conn_sock c)" and "burst (incoming (conn_sock c)) = Some bs"
  shows "Read del_cb (c, k) =
    ret (c\<lparr>conn_sock := (conn_sock c)\<lparr>incoming := after_burst (incoming (conn_sock c))\<rparr>,
           read_buffer := concat (map c_string bs)\<rparr>, k)"
  using assms read_loop_burst [OF assms(3), of del_cb "c\<lparr>read_buffer := []\<rparr>" k]
  by (simp add: Read_def ReadNonBlocking_def IsNonBlocking_def isConnected_def)

theorem read_collects_burst_witness:
  "\<exists>c'. Read (\<lambda>fd ck. ret ck)
      (sample_conn\<lparr>conn_sock := sample_sock\<lparr>incoming := [Read_bytes ''GE'', Read_EINTR, Read_bytes ''T'', Read_EAGAIN]\<rparr>\<rparr>, ())
    = ret (c', ()) \<and> read_buffer c' = ''GET''"
  using read_collects_burst [of "sample_conn\<lparr>conn_sock := sample_sock\<lparr>incoming :=
      [Read_bytes ''GE'', Read_EINTR, Read_bytes ''T'', Read_EAGAIN]\<rparr>\<rparr>" "[''GE'', ''T'']" "\<lambda>fd ck. ret ck" "()"]
  by (simp add: isConnected_def sample_conn_def sample_sock_def)

text \<open>
  A send hands over, in order, exactly the bytes the kernel accepts before it would block; what
  is left is dropped, since the send buffer is empty afterwards in every case.
\<close>

theorem send_delivers_accepted_prefix:
  assumes "isConnected c" and "nonblocking (conn_sock c)"
    and "accepted (length (c_string msg)) (outcomes (conn_sock c)) = Some n"
  shows "\<exists>c'. Send msg c = ret c' \<and> wire (conn_sock c') = wire (conn_sock c) @ take n (c_string msg)
    \<and> send_buffer c' = [] \<and> conn_channel c' = conn_channel c"
  using Send_accepted [OF assms] by blast

theorem send_delivers_accepted_prefix_witness:
  "\<exists>c'. Send ''hello'' (sample_conn\<lparr>conn_sock := sample_sock\<lparr>outcomes := [Wrote 3, Write_EAGAIN]\<rparr>\<rparr>) = ret c'
     \<and> wire (conn_sock c') = ''hel'' \<and> send_buffer c' = []"
proof -
  let ?c = "sample_conn\<lparr>conn_sock := sample_sock\<lparr>outcomes := [Wrote 3, Write_EAGAIN]\<rparr>\<rparr>"
  have "isConnected ?c" "nonblocking (conn_sock ?c)" "wire (conn_sock ?c) = []"
    by (simp_all add: isConnected_def sample_conn_def sample_sock_def)
  moreover have "accepted (length (c_string ''hello'')) (outcomes (conn_sock ?c)) = Some 3" by simp
  ultimately show ?thesis
    using send_delivers_accepted_prefix [of ?c "''hello''" 3] by (auto simp: numeral_3_eq_3)
qed

text \<open>On a connection that is not open, reading, writing and the HTTP handler change nothing.\<close>

theorem closed_connection_is_inert:
  assumes "\<not> isConnected c"
  shows "Read del_cb (c, k) = ret (c, k) \<and> Write c = ret c \<and> onMessage iter cb w c = ret (w, c)
    \<and> wire (conn_sock c) = wire (conn_sock (SetSendBuffer msg c))"
  using assms by (simp add: Read_def Write_def onMessage_def isConnected_def SetSendBuffer_def)

theorem closed_connection_is_inert_witness:
  "Write (sample_conn\<lparr>conn_state := Closed\<rparr>) = ret (sample_conn\<lparr>conn_state := Closed\<rparr>)"
  using closed_connection_is_inert [of "sample_conn\<lparr>conn_state := Closed\<rparr>" "\<lambda>fd ck. ret ck" "()"
      no_headers defaultHttpCallback ParseWorker_init "[]"]
  by (simp add: isConnected_def)

section \<open>The server\<close>

definition sample_server :: "(int \<rightharpoonup> 32 word) server" where
  "sample_server = \<lparr>connections = [7 \<mapsto> sample_conn], sub_reactors = [(\<lambda>_. None), [7 \<mapsto> 0]]\<rparr>"

lemma sample_reactor: "reactor sample_server 7 = 1" "reactor sample_server 8 = 0"
  by (simp_all add: sample_server_def reactor_def flip: numeral_2_eq_2)

lemma sample_conn_ok:
  "conn_ok (\<lambda>k. k) 7 (sample_conn\<lparr>conn_context := t, conn_sock := sample_sock\<lparr>outcomes := os\<rparr>\<rparr>) [7 \<mapsto> 0]"
  "conn_ok (\<lambda>k. k) 7 sample_conn [7 \<mapsto> 0]"
  by (simp_all add: conn_ok_def agrees_def sample_conn_def sample_sock_def Channel_def never_writes_def
      isWriting_def)

lemma sample_server_ok: "server_ok (\<lambda>k. k) sample_server"
  using sample_reactor(1) sample_conn_ok(2) by (simp add: server_ok_def sample_server_def)

lemmas sample_epoll = map_epoll.epoll_instance_axioms



text \<open>
  A new descriptor that its reactor does not know yet gets a connection filed under it,
  registered for edge-triggered input there, and disturbs no other connection.
\<close>

theorem new_connection_registered:
  assumes "epoll_instance ctl interest" and "server_ok interest s" and "sub_reactors s \<noteq> []"
    and "spare \<noteq> -1" and "0 \<le> sock_fd so" and "interest (sub_reactors s ! reactor s (sock_fd so)) (sock_fd so) = None"
  shows "\<exists>s'. NewConnection ctl None spare so s = ret s' \<and> server_ok interest s'
    \<and> (\<forall>fd'. fd' \<noteq> sock_fd so \<longrightarrow> connections s' fd' = connections s fd')
    \<and> (\<exists>c. connections s' (sock_fd so) = Some c \<and> isConnected c \<and> conn_sock c = so)
    \<and> interest (sub_reactors s' ! reactor s' (sock_fd so)) (sock_fd so)
      = Some (EPOLLIN OR EPOLLPRI OR EPOLLET)"
  using NewConnection_ok [OF assms] .

theorem new_connection_registered_witness:
  "\<exists>s' c. NewConnection map_ctl None 9 (sample_sock\<lparr>sock_fd := 8\<rparr>) sample_server = ret s'
     \<and> connections s' 8 = Some c \<and> isConnected c"
proof -
  have "sub_reactors sample_server \<noteq> []"
    "(sub_reactors sample_server ! reactor sample_server 8) 8 = None"
    unfolding sample_reactor by (simp_all add: sample_server_def)
  then show ?thesis
    using new_connection_registered [OF sample_epoll sample_server_ok, of 9 "sample_sock\<lparr>sock_fd := 8\<rparr>"] by auto
qed

text \<open>
  Deleting a connection by its descriptor always succeeds, also for an unknown descriptor and for
  a connection that is closed already: it ends up closed and out of its reactor, and the others stay.
\<close>

theorem delete_connection_total:
  assumes "epoll_instance ctl interest" and "server_ok interest s"
  shows "\<exists>s'. DeleteConnection ctl fd s = ret s' \<and> server_ok interest s'
    \<and> (\<forall>fd'. fd' \<noteq> fd \<longrightarrow> connections s' fd' = connections s fd')
    \<and> (\<forall>c. connections s fd = Some c \<longrightarrow> (\<exists>c'. connections s' fd = Some c' \<and> conn_state c' = Closed
          \<and> interest (sub_reactors s' ! reactor s' fd) fd = None))"
  using DeleteConnection_ok [OF assms] by metis

theorem delete_connection_total_witness:
  "\<exists>s' c. DeleteConnection map_ctl 7 sample_server = ret s' \<and> connections s' 7 = Some c \<and> conn_state c = Closed"
  using delete_connection_total [OF sample_epoll sample_server_ok, of 7] by (auto simp: sample_server_def)

text \<open>
  The periodic check closes and deregisters exactly the connections whose last activity is more
  than two minutes before the clock reading made for them, by unsigned 64 bit subtraction, and
  leaves the others untouched.
\<close>

theorem check_drops_idle_connections:
  assumes "epoll_instance ctl interest" and "server_ok interest s" and "distinct order"
    and "length order \<le> length nows"
    and "\<And>fd. fd \<in> set order \<Longrightarrow> \<exists>c c'. connections s fd = Some c \<and> Send ''You are cleared!'' c = ret c'"
  shows "\<exists>s'. CheckActiveConnection ctl order nows s = ret s' \<and> server_ok interest s'
    \<and> (\<forall>fd \<in> set (expired_fds s order nows). dropped fd s')
    \<and> (\<forall>fd. fd \<notin> set (expired_fds s order nows) \<longrightarrow> connections s' fd = connections s fd)"
  using check_ok [OF assms] .

text \<open>
  In the witness the connection's last activity is after the reading, as when the clock has wrapped:
  the unsigned difference is huge and an active connection is dropped.
\<close>

theorem check_drops_idle_connections_witness:
  "\<exists>s'. CheckActiveConnection map_ctl [7] [5]
      (sample_server\<lparr>connections := [7 \<mapsto> sample_conn\<lparr>conn_context := 6, conn_sock := sample_sock\<lparr>outcomes := [Wrote 16]\<rparr>\<rparr>]\<rparr>)
    = ret s' \<and> dropped 7 s'"
proof -
  let ?c = "sample_conn\<lparr>conn_context := 6, conn_sock := sample_sock\<lparr>outcomes := [Wrote 16]\<rparr>\<rparr>"
  let ?s = "sample_server\<lparr>connections := [7 \<mapsto> ?c]\<rparr>"
  have ok: "server_ok (\<lambda>k. k) ?s"
    using sample_reactor(1) sample_conn_ok(1) by (simp add: server_ok_def sample_server_def reactor_def)
  have sends: "\<exists>c c'. connections ?s fd = Some c \<and> Send ''You are cleared!'' c = ret c'" if "fd \<in> set [7]" for fd
    using that write_loop_wire [of 16 "[Wrote 16]" 16 "''You are cleared!''"]
    by (auto simp: Send_def SetSendBuffer_def SetBuf_def Write_def WriteNonBlocking_def IsNonBlocking_def
        sample_conn_def sample_sock_def)
  have "expired_fds ?s [7] [5] = [7]"
    by (simp add: expired_fds_def expired_def idle_limit_def sample_conn_def)
  then show ?thesis
    using check_drops_idle_connections [OF sample_epoll ok, of "[7]" "[5]"] sends by auto
qed

end
