(* ===== verification/TimerQueue.thy ===== *)
theory TimerQueue
  imports Prelude "HOL-Library.Word" "HOL-Library.Multiset"
begin

text \<open>
  Timers (\<open>src/timer/TimerNode.h\<close>, \<open>TimerNode.cpp\<close>, \<open>TimerQueue.h\<close>, \<open>TimerQueue.cpp\<close>). Every call of
  \<open>gettimeofday\<close> is an input: a pair of seconds and microseconds. \<open>std::priority_queue\<close> is the list of
  its elements with a function \<open>pick\<close> that says where its \<open>top\<close> is: the standard only promises that no
  element is less urgent, not which of several equal ones is chosen. The interval is a \<open>double\<close> in
  the source, but every caller hands it an \<open>int\<close>; a sum below \<open>2 ^ 53\<close> is exact in a \<open>double\<close>.
\<close>

section \<open>The clock\<close>

type_synonym timeval = "nat \<times> nat"

text \<open>Milliseconds, in a window of 10000 seconds: \<open>(tv_sec % 10000) * 1000 + tv_usec / 1000\<close>.\<close>

definition ms_of :: "timeval \<Rightarrow> 64 word" where
  "ms_of = (\<lambda>(sec, usec). word_of_nat ((sec mod 10000) * 1000 + usec div 1000))"

section \<open>Timer nodes\<close>

record timer_node =
  callback :: nat
  expiration :: "64 word"
  interval :: int
  repeating :: bool
  deleted :: bool

definition TimerNode :: "nat \<Rightarrow> int \<Rightarrow> int \<Rightarrow> timeval \<Rightarrow> timer_node" where
  "TimerNode cb timeout ivl now =
     \<lparr>callback = cb, expiration = ms_of now + word_of_int timeout, interval = ivl,
      repeating = (ivl > 0), deleted = False\<rparr>"

definition timer_update :: "int \<Rightarrow> timeval \<Rightarrow> timer_node \<Rightarrow> timer_node" where
  "timer_update timeout now t = t\<lparr>expiration := ms_of now + word_of_int timeout\<rparr>"

definition setDeleted :: "timer_node \<Rightarrow> timer_node" where
  "setDeleted t = t\<lparr>deleted := True\<rparr>"

definition isValid :: "timeval \<Rightarrow> timer_node \<Rightarrow> bool \<times> timer_node" where
  "isValid now t = (if ms_of now < expiration t then (True, t) else (False, setDeleted t))"

definition restart :: "timeval \<Rightarrow> timer_node \<Rightarrow> timer_node" where
  "restart now t =
     (if repeating t then t\<lparr>expiration := expiration t + word_of_int (interval t), deleted := False\<rparr>
      else t\<lparr>expiration := ms_of now\<rparr>)"

section \<open>The queue\<close>

type_synonym queue_top = "timer_node list \<Rightarrow> nat"

definition pop :: "queue_top \<Rightarrow> timer_node list \<Rightarrow> timer_node list" where
  "pop pick q = take (pick q) q @ drop (pick q + 1) q"

record timer_queue =
  timerNodeQueue :: "timer_node list"
  armed :: "(nat \<times> nat) option"
  fired :: "nat list"
  callingExpiredTimers :: bool

text \<open>\<open>insert\<close> says whether the earliest expiration has changed.\<close>

definition insert_timer :: "queue_top \<Rightarrow> timer_node \<Rightarrow> timer_node list \<Rightarrow> bool \<times> timer_node list" where
  "insert_timer pick t q =
     (if q = [] then True else expiration t < expiration (q ! pick q), q @ [t])"

text \<open>The delay the timer descriptor is armed with, in seconds and nanoseconds.\<close>

definition delay :: "64 word \<Rightarrow> timeval \<Rightarrow> nat \<times> nat" where
  "delay ex now =
     (let dif = ex - ms_of now; dif = (if dif < 100 then 100 else dif)
      in (unat (dif div 1000), unat ((dif mod 1000) * 1000000)))"

definition resetTimerfd :: "64 word \<Rightarrow> timeval \<Rightarrow> timer_queue \<Rightarrow> timer_queue" where
  "resetTimerfd ex now tq = tq\<lparr>armed := Some (delay ex now)\<rparr>"

definition addTimerInLoop :: "queue_top \<Rightarrow> timer_node \<Rightarrow> timeval \<Rightarrow> timer_queue \<Rightarrow> timer_queue" where
  "addTimerInLoop pick t now tq =
     (let (changed, q) = insert_timer pick t (timerNodeQueue tq); tq = tq\<lparr>timerNodeQueue := q\<rparr>
      in if changed then resetTimerfd (expiration t) now tq else tq)"

definition addTimer :: "queue_top \<Rightarrow> nat \<Rightarrow> int \<Rightarrow> int \<Rightarrow> timeval \<Rightarrow> timeval \<Rightarrow> timer_queue \<Rightarrow> timer_queue" where
  "addTimer pick cb timeout ivl now1 now2 tq =
     addTimerInLoop pick (TimerNode cb timeout ivl now1) now2 tq"

definition runAt :: "queue_top \<Rightarrow> nat \<Rightarrow> int \<Rightarrow> timeval \<Rightarrow> timeval \<Rightarrow> timer_queue \<Rightarrow> timer_queue" where
  "runAt pick cb timeout = addTimer pick cb timeout 0"

definition runAfter :: "queue_top \<Rightarrow> nat \<Rightarrow> int \<Rightarrow> timeval \<Rightarrow> timeval \<Rightarrow> timer_queue \<Rightarrow> timer_queue" where
  "runAfter pick cb waitTime = runAt pick cb waitTime"

definition runEvery :: "queue_top \<Rightarrow> nat \<Rightarrow> int \<Rightarrow> timeval \<Rightarrow> timeval \<Rightarrow> timer_queue \<Rightarrow> timer_queue" where
  "runEvery pick cb ivl = addTimer pick cb ivl ivl"

text \<open>
  The loop of \<open>handleRead\<close>: \<open>nows\<close> are the readings \<open>isValid\<close> will make. The callbacks that run are
  recorded in order; the callbacks of this program do not touch the queue.
\<close>

function handle_loop ::
  "queue_top \<Rightarrow> timeval list \<Rightarrow> timer_node list \<Rightarrow> nat list \<Rightarrow> (timer_node list \<times> nat list \<times> timeval list) outcome"
where
  "handle_loop pick nows q runs =
     (if q = [] then ret (q, runs, nows)
      else if \<not> pick q < length q then fail Out_of_range
      else
        (let t = q ! pick q in
         if deleted t then handle_loop pick nows (pop pick q) runs
         else
           (case nows of
              [] \<Rightarrow> None
            | now # nows' \<Rightarrow>
                (let (valid, t) = isValid now t in
                 if valid then ret (q, runs, nows')
                 else
                   (let runs = runs @ [callback t]; q = pop pick q in
                    if repeating t
                    then handle_loop pick nows' (snd (insert_timer pick (restart now t) q)) runs
                    else handle_loop pick nows' q runs)))))"
  by pat_completeness auto
termination
  by (relation "measures [\<lambda>(pick, nows, q, runs). length nows, \<lambda>(pick, nows, q, runs). length q]")
    (auto simp: pop_def)

declare handle_loop.simps [simp del]

definition handleRead :: "queue_top \<Rightarrow> timeval list \<Rightarrow> timer_queue \<Rightarrow> timer_queue outcome" where
  "handleRead pick nows tq =
     (let tq = tq\<lparr>callingExpiredTimers := True\<rparr> in
      obind (handle_loop pick nows (timerNodeQueue tq) (fired tq)) (\<lambda>(q, runs, nows').
      let tq = tq\<lparr>timerNodeQueue := q, fired := runs, callingExpiredTimers := False\<rparr> in
      if q = [] then ret tq
      else (case nows' of [] \<Rightarrow> None | now # _ \<Rightarrow> ret (resetTimerfd (expiration (q ! pick q)) now tq))))"

text \<open>\<open>handleExpiredEvent\<close> only throws expired timers out.\<close>

function handleExpiredEvent :: "queue_top \<Rightarrow> timeval list \<Rightarrow> timer_node list \<Rightarrow> timer_node list outcome" where
  "handleExpiredEvent pick nows q =
     (if q = [] then ret q
      else if \<not> pick q < length q then fail Out_of_range
      else if deleted (q ! pick q) then handleExpiredEvent pick nows (pop pick q)
      else
        (case nows of
           [] \<Rightarrow> None
         | now # nows' \<Rightarrow>
             if \<not> fst (isValid now (q ! pick q)) then handleExpiredEvent pick nows' (pop pick q) else ret q))"
  by pat_completeness auto
termination
  by (relation "measures [\<lambda>(pick, nows, q). length nows, \<lambda>(pick, nows, q). length q]")
    (auto simp: pop_def)

declare handleExpiredEvent.simps [simp del]

section \<open>What the priority queue promises\<close>

locale timer_order =
  fixes pick :: queue_top
  assumes top_law: "q \<noteq> [] \<Longrightarrow> pick q < length q \<and> (\<forall>t \<in> set q. expiration (q ! pick q) \<le> expiration t)"
begin

lemma pick_less: "q \<noteq> [] \<Longrightarrow> pick q < length q"
  using top_law by blast

lemma mset_pop: "q \<noteq> [] \<Longrightarrow> mset q = add_mset (q ! pick q) (mset (pop pick q))"
  using id_take_nth_drop [OF pick_less [of q]]
  by (metis mset.simps(2) mset_append pop_def union_mset_add_mset_right Suc_eq_plus1)

lemma top_least: "t \<in> set q \<Longrightarrow> expiration (q ! pick q) \<le> expiration t"
  using top_law [of q] by (cases q) auto

lemma top_unique:
  assumes "t \<in> set q" and "\<forall>u \<in> set q. expiration t \<le> expiration u"
  shows "expiration (q ! pick q) = expiration t"
proof -
  have "q \<noteq> []" using assms(1) by auto
  then have "q ! pick q \<in> set q" using pick_less by simp
  then show ?thesis using assms top_least by (meson order_antisym)
qed

end

text \<open>The first of the least elements is one such choice.\<close>

fun first_min :: queue_top where
  "first_min [] = 0"
| "first_min [t] = 0"
| "first_min (t # u # q) =
     (let i = first_min (u # q) in if expiration t \<le> expiration ((u # q) ! i) then 0 else i + 1)"

lemma first_min_least:
  "q \<noteq> [] \<Longrightarrow> first_min q < length q \<and> (\<forall>t \<in> set q. expiration (q ! first_min q) \<le> expiration t)"
  by (induction q rule: first_min.induct) (auto simp: Let_def)

interpretation first_min: timer_order first_min
  by unfold_locales (rule first_min_least)

section \<open>Running the expired timers at one reading of the clock\<close>

text \<open>
  \<open>firings now t\<close> is how often \<open>t\<close> is due at \<open>now\<close>: once for a single timer, once per elapsed
  interval for a repeating one. \<open>settled now t\<close> is what stays in the queue of it.
\<close>

definition due :: "timeval \<Rightarrow> timer_node \<Rightarrow> bool" where
  "due now t \<longleftrightarrow> expiration t \<le> ms_of now"

definition firings :: "timeval \<Rightarrow> timer_node \<Rightarrow> nat" where
  "firings now t =
     (if \<not> due now t then 0
      else if repeating t then (unat (ms_of now) - unat (expiration t)) div nat (interval t) + 1 else 1)"

definition settled :: "timeval \<Rightarrow> timer_node \<Rightarrow> timer_node list" where
  "settled now t =
     (if \<not> due now t then [t]
      else if repeating t
      then [t\<lparr>expiration := expiration t + word_of_nat (firings now t) * word_of_int (interval t)\<rparr>]
      else [])"

text \<open>A timer that the code can have built: live, and with an interval that fits an \<open>int\<close>.\<close>

definition timer_ok :: "timer_node \<Rightarrow> bool" where
  "timer_ok t \<longleftrightarrow> \<not> deleted t \<and> (repeating t \<longleftrightarrow> 0 < interval t) \<and> interval t < 2 ^ 31"

lemma ms_of_bound: "usec < 1000000 \<Longrightarrow> unat (ms_of (sec, usec)) < 10000000"
proof -
  assume u: "usec < 1000000"
  have "(sec mod 10000) * 1000 + usec div 1000 < 10000000"
  proof -
    have "sec mod 10000 \<le> 9999" using mod_less_divisor [of 10000 sec] by simp
    moreover have "usec div 1000 \<le> 999" using u by simp
    ultimately show ?thesis by linarith
  qed
  then show ?thesis
    by (simp add: ms_of_def take_bit_nat_eq_self unsigned_of_nat del: of_nat_add of_nat_mult)
qed

lemma restart_unat:
  assumes "timer_ok t" and "repeating t" and "unat (expiration t) < 10000000"
  shows "unat (expiration t + word_of_int (interval t)) = unat (expiration t) + nat (interval t)"
proof -
  have i: "0 < interval t" "interval t < 2 ^ 31" using assms(1,2) by (auto simp: timer_ok_def)
  then have "unat (word_of_int (interval t) :: 64 word) = nat (interval t)"
    by (simp add: unat_eq_nat_uint uint_word_of_int)
  then show ?thesis using assms(3) i by (simp add: unat_plus_simple unat_word_ariths)
qed

text \<open>Restarting a due timer takes one firing away and keeps what it settles to.\<close>

lemma restart_firings:
  assumes "timer_ok t" and "repeating t" and "due now t" and "unat (ms_of now) < 10000000"
  shows "firings now t = Suc (firings now (restart now t))"
    and "settled now (restart now t) = settled now t"
    and "timer_ok (restart now t)"
proof -
  let ?e = "unat (expiration t)" and ?i = "nat (interval t)" and ?n = "unat (ms_of now)"
  have i: "0 < ?i" using assms(1,2) by (simp add: timer_ok_def)
  have e: "?e \<le> ?n" using assms(3) by (simp add: due_def word_le_nat_alt)
  have e': "unat (expiration (restart now t)) = ?e + ?i"
    using restart_unat [OF assms(1,2)] e assms(2,4) by (simp add: restart_def)
  have d': "due now (restart now t) \<longleftrightarrow> ?e + ?i \<le> ?n" by (simp add: due_def word_le_nat_alt e')
  have r': "repeating (restart now t)" "interval (restart now t) = interval t"
    using assms(2) by (simp_all add: restart_def)
  show f: "firings now t = Suc (firings now (restart now t))"
  proof (cases "?e + ?i \<le> ?n")
    case True
    then have "(?n - ?e) div ?i = (?n - (?e + ?i)) div ?i + 1"
      using i le_div_geq [of ?i "?n - ?e"] by simp
    then show ?thesis using True assms(2,3) d' r' e' by (simp add: firings_def)
  next
    case False
    then have "(?n - ?e) div ?i = 0" using e i by simp
    then show ?thesis using False assms(2,3) d' r' by (simp add: firings_def)
  qed
  show "settled now (restart now t) = settled now t"
  proof (cases "due now (restart now t)")
    case True
    then show ?thesis
      using assms(1-3) r' f by (simp add: settled_def restart_def timer_ok_def algebra_simps)
  next
    case False
    then have "firings now t = 1" using f by (simp add: firings_def)
    then show ?thesis
      using False assms(1-3) r' by (simp add: settled_def restart_def timer_ok_def)
  qed
  show "timer_ok (restart now t)" using assms(1,2) by (simp add: timer_ok_def restart_def)
qed

definition total :: "timeval \<Rightarrow> timer_node list \<Rightarrow> nat" where
  "total now q = (\<Sum>t \<in># mset q. firings now t)"

definition all_settled :: "timeval \<Rightarrow> timer_node list \<Rightarrow> timer_node multiset" where
  "all_settled now q = (\<Sum>t \<in># mset q. mset (settled now t))"

definition all_fired :: "timeval \<Rightarrow> timer_node list \<Rightarrow> nat multiset" where
  "all_fired now q = (\<Sum>t \<in># mset q. replicate_mset (firings now t) (callback t))"

lemma firings_due: "timer_ok t \<Longrightarrow> 0 < firings now t \<longleftrightarrow> due now t"
  by (simp add: firings_def)

lemma not_due_idle:
  assumes "\<forall>t \<in> set q. \<not> due now t"
  shows "total now q = 0" "all_settled now q = mset q" "all_fired now q = {#}"
  using assms
  by (induction q) (auto simp: total_def all_settled_def all_fired_def firings_def settled_def)

context timer_order begin

text \<open>One round of the loop on a due timer.\<close>

lemma handle_loop_due:
  assumes "q \<noteq> []" and "t = q ! pick q" and "\<not> deleted t" and "due now t"
  shows "handle_loop pick (now # nows) q runs =
    handle_loop pick nows (if repeating t then pop pick q @ [restart now t] else pop pick q)
      (runs @ [callback t])"
proof -
  have "restart now (setDeleted t) = restart now t" if "repeating t"
    using that assms(3) by (simp add: restart_def setDeleted_def)
  moreover have "\<not> ms_of now < expiration t" using assms(4) by (simp add: due_def)
  ultimately show ?thesis
    using assms(1-3) pick_less [OF assms(1)]
    by (simp add: handle_loop.simps [of pick "now # nows" q runs] isValid_def
        insert_timer_def setDeleted_def Let_def)
qed

lemma top_due:
  assumes "q \<noteq> []" and "\<not> due now (q ! pick q)"
  shows "\<forall>t \<in> set q. \<not> due now t"
  using assms top_least [of _ q] by (fastforce simp: due_def)

lemma pop_ok:
  assumes "q \<noteq> []" and "\<forall>t \<in> set q. timer_ok t"
  shows "timer_ok (q ! pick q)" and "\<forall>t \<in> set (pop pick q). timer_ok t"
proof -
  show "timer_ok (q ! pick q)" using assms pick_less [OF assms(1)] by simp
  have "set_mset (mset (pop pick q)) \<subseteq> set q" using mset_pop [OF assms(1)] by (metis set_mset_mset
        set_mset_add_mset_insert subset_insertI)
  then show "\<forall>t \<in> set (pop pick q). timer_ok t" using assms(2) by auto
qed

lemma handle_loop_settles:
  assumes "\<forall>t \<in> set q. timer_ok t" and "unat (ms_of now) < 10000000"
  shows "\<exists>q' runs'. handle_loop pick (replicate (Suc (total now q)) now @ rest) q runs
      = ret (q', runs', if q' = [] then now # rest else rest)
    \<and> mset q' = all_settled now q \<and> mset runs' = mset runs + all_fired now q"
  using assms(1)
proof (induction "total now q" arbitrary: q runs)
  case 0
  show ?case
  proof (cases "q = []")
    case True
    then show ?thesis
      by (simp add: handle_loop.simps total_def all_settled_def all_fired_def)
  next
    case False
    let ?t = "q ! pick q"
    have "firings now ?t = 0" using 0(1) mset_pop [OF False] by (simp add: total_def)
    then have nd: "\<not> due now ?t" by (auto simp: firings_def split: if_splits)
    have "\<not> deleted ?t" using pop_ok(1) [OF False 0(2)] by (simp add: timer_ok_def)
    then have "handle_loop pick (now # rest) q runs = ret (q, runs, rest)"
      using False nd pick_less [OF False]
      by (simp add: handle_loop.simps [of pick "now # rest" q runs] isValid_def due_def not_le)
    then show ?thesis using not_due_idle [OF top_due [OF False nd]] False by simp
  qed
next
  case (Suc n)
  have ne: "q \<noteq> []" using Suc(2) by (auto simp: total_def)
  let ?t = "q ! pick q"
  have ok: "timer_ok ?t" "\<forall>t \<in> set (pop pick q). timer_ok t" using pop_ok [OF ne Suc(3)] by auto
  have d: "due now ?t"
    using Suc(2) not_due_idle(1) [OF top_due [OF ne]] by fastforce
  define q1 where "q1 = (if repeating ?t then pop pick q @ [restart now ?t] else pop pick q)"
  have split: "mset q = add_mset ?t (mset (pop pick q))" using mset_pop [OF ne] .
  have "total now q = Suc (total now q1) \<and> all_settled now q1 = all_settled now q \<and>
      all_fired now q = add_mset (callback ?t) (all_fired now q1) \<and> (\<forall>t \<in> set q1. timer_ok t)"
  proof (cases "repeating ?t")
    case True
    note r = restart_firings [OF ok(1) True d assms(2)]
    have "callback (restart now ?t) = callback ?t" by (simp add: restart_def)
    then show ?thesis
      using True ok r by (simp add: q1_def total_def all_settled_def all_fired_def split)
  next
    case False
    then show ?thesis
      using ok d by (simp add: q1_def total_def all_settled_def all_fired_def split firings_def settled_def)
  qed
  then have q1: "total now q = Suc (total now q1)" "all_settled now q1 = all_settled now q"
    "all_fired now q = add_mset (callback ?t) (all_fired now q1)" "\<forall>t \<in> set q1. timer_ok t"
    by auto
  have "n = total now q1" using Suc(2) q1(1) by simp
  from Suc(1) [OF this q1(4), of "runs @ [callback ?t]"] show ?case
    using handle_loop_due [OF ne refl _ d] ok(1) q1 by (simp add: timer_ok_def flip: q1_def)
qed

end

text \<open>Every timer that stays is due later.\<close>

lemma all_settled_later:
  assumes "\<forall>t \<in> set q. timer_ok t" and "unat (ms_of now) < 10000000" and "u \<in># all_settled now q"
  shows "\<not> due now u"
proof -
  obtain t where t: "t \<in> set q" "u \<in> set (settled now t)"
    using assms(3) by (auto simp: all_settled_def)
  have "timer_ok t \<Longrightarrow> u \<in> set (settled now t) \<Longrightarrow> \<not> due now u"
  proof (induction "firings now t" arbitrary: t)
    case 0
    then show ?case by (auto simp: settled_def firings_def split: if_splits)
  next
    case (Suc n)
    have d: "due now t" using Suc(2) by (auto simp: firings_def split: if_splits)
    show ?case
    proof (cases "repeating t")
      case True
      note r = restart_firings [OF Suc(3) True d assms(2)]
      show ?thesis using Suc(1) [of "restart now t"] Suc(2,4) r by simp
    next
      case False
      then show ?thesis using Suc(4) d by (simp add: settled_def)
    qed
  qed
  then show ?thesis using t assms(1) by blast
qed

section \<open>A repeating timer does not repeat for ever\<close>

text \<open>A run of timer events, each with the readings of the clock it makes.\<close>

fun timer_events :: "queue_top \<Rightarrow> timeval list list \<Rightarrow> timer_queue \<Rightarrow> timer_queue outcome" where
  "timer_events pick [] tq = ret tq"
| "timer_events pick (nows # nowss) tq = obind (handleRead pick nows tq) (timer_events pick nowss)"

text \<open>
  \<open>moved k t\<close> is the timer after \<open>k\<close> restarts, each of which took place while its expiration was still in
  the clock's window.
\<close>

definition moved :: "nat \<Rightarrow> timer_node \<Rightarrow> timer_node" where
  "moved k t = t\<lparr>expiration := word_of_nat (unat (expiration t) + k * nat (interval t))\<rparr>"

definition in_window :: "nat \<Rightarrow> timer_node \<Rightarrow> bool" where
  "in_window k t \<longleftrightarrow> k = 0 \<or> unat (expiration t) + (k - 1) * nat (interval t) < 10000000"

lemma moved_0 [simp]: "moved 0 t = t"
  by (simp add: moved_def)

lemma moved_fields [simp]:
  "interval (moved k t) = interval t" "callback (moved k t) = callback t" "repeating (moved k t) = repeating t"
  "timer_ok (moved k t) = timer_ok t"
  by (simp_all add: moved_def timer_ok_def)

lemma moved_unat:
  assumes "in_window k t" and "timer_ok t" and "repeating t" and "unat (expiration t) < 2 ^ 40"
  shows "unat (expiration (moved k t)) = unat (expiration t) + k * nat (interval t)"
proof -
  have i: "nat (interval t) < 2 ^ 31" using assms(2) by (simp add: timer_ok_def) linarith
  have "unat (expiration t) + k * nat (interval t) < 2 ^ 40 + 2 ^ 31"
  proof (cases k)
    case (Suc j)
    then show ?thesis using assms(1) i by (simp add: in_window_def)
  qed (use assms(4) in simp)
  then show ?thesis
    by (simp add: moved_def unat_of_nat take_bit_nat_eq_self del: of_nat_add of_nat_mult)
qed

lemma moved_moved:
  assumes "in_window j t" and "timer_ok t" and "repeating t" and "unat (expiration t) < 2 ^ 40"
  shows "moved k (moved j t) = moved (j + k) t"
  using moved_unat [OF assms] by (simp add: moved_def algebra_simps)

lemma in_window_add:
  assumes "in_window j t" and "timer_ok t" and "repeating t" and "unat (expiration t) < 2 ^ 40"
    and "in_window k (moved j t)"
  shows "in_window (j + k) t"
  using assms(1,5) moved_unat [OF assms(1-4)] by (cases k) (auto simp: in_window_def algebra_simps)

context timer_order begin

lemma pick_single [simp]: "pick [t] = 0"
  using pick_less [of "[t]"] by simp

lemma single_loop:
  assumes "timer_ok t" and "repeating t" and "unat (expiration t) < 2 ^ 40"
    and "\<forall>now \<in> set nows. unat (ms_of now) < 10000000"
    and "handle_loop pick nows [t] runs = ret (q, runs', later)"
  shows "\<exists>k. q = [moved k t] \<and> runs' = runs @ replicate k (callback t) \<and> in_window k t"
  using assms
proof (induction nows arbitrary: t runs)
  case Nil
  then show ?case by (simp add: handle_loop.simps [of pick "[]"] timer_ok_def)
next
  case (Cons now nows)
  show ?case
  proof (cases "due now t")
    case False
    then have "q = [t]" "runs' = runs"
      using Cons.prems(1,5) by (simp_all add: handle_loop.simps [of pick "now # nows"] timer_ok_def isValid_def due_def not_le)
    then show ?thesis by (intro exI [of _ 0]) (simp add: in_window_def)
  next
    case True
    let ?t = "restart now t"
    have e: "unat (expiration t) < 10000000"
      using True Cons.prems(4) by (auto simp: due_def word_le_nat_alt)
    have "word_of_int (interval t) = (word_of_nat (nat (interval t)) :: 64 word)"
      using Cons.prems(1,2) by (simp add: timer_ok_def)
    then have t: "?t = moved 1 t" using Cons.prems(1,2) by (simp add: restart_def moved_def timer_ok_def)
    have w: "in_window 1 t" using e by (simp add: in_window_def)
    have "unat (expiration ?t) < 2 ^ 40"
      using moved_unat [OF w Cons.prems(1-3)] e Cons.prems(1) unfolding t by (simp add: timer_ok_def) linarith
    moreover have "handle_loop pick nows [?t] (runs @ [callback t]) = ret (q, runs', later)"
      using handle_loop_due [of "[t]" t now nows runs] Cons.prems(1,2,5) True by (simp add: timer_ok_def pop_def)
    ultimately obtain k where k: "q = [moved k ?t]" "runs' = (runs @ [callback t]) @ replicate k (callback ?t)" "in_window k ?t"
      using Cons.IH [of ?t "runs @ [callback t]"] Cons.prems(1,2,4) t by auto
    then show ?thesis
      using moved_moved [OF w Cons.prems(1-3)] in_window_add [OF w Cons.prems(1-3)] unfolding t
      by (intro exI [of _ "Suc k"]) simp
  qed
qed

lemma single_events:
  assumes "timerNodeQueue tq = [t]" and "timer_ok t" and "repeating t" and "unat (expiration t) < 2 ^ 40"
    and "\<forall>nows \<in> set nowss. \<forall>now \<in> set nows. unat (ms_of now) < 10000000"
    and "timer_events pick nowss tq = ret tq'"
  shows "\<exists>k. timerNodeQueue tq' = [moved k t] \<and> fired tq' = fired tq @ replicate k (callback t) \<and> in_window k t"
  using assms
proof (induction nowss arbitrary: tq t)
  case Nil
  then show ?case by (intro exI [of _ 0]) (simp add: in_window_def)
next
  case (Cons nows nowss)
  from Cons.prems(6) obtain tq1 where tq1: "handleRead pick nows tq = ret tq1" "timer_events pick nowss tq1 = ret tq'"
    by (auto elim: obind_eq_retE)
  then obtain q runs later where loop: "handle_loop pick nows [t] (fired tq) = ret (q, runs, later)"
    and q: "timerNodeQueue tq1 = q" "fired tq1 = runs"
    using Cons.prems(1)
    by (auto simp: handleRead_def Let_def resetTimerfd_def elim!: obind_eq_retE split: if_splits list.splits)
  obtain j where j: "q = [moved j t]" "runs = fired tq @ replicate j (callback t)" "in_window j t"
    using single_loop [OF Cons.prems(2-4) _ loop] Cons.prems(5) by auto
  have "unat (expiration (moved j t)) < 2 ^ 40"
  proof (cases j)
    case (Suc i)
    have "nat (interval t) < 2 ^ 31" using Cons.prems(2) by (simp add: timer_ok_def) linarith
    then show ?thesis using moved_unat [OF j(3) Cons.prems(2-4)] j(3) Suc by (simp add: in_window_def)
  qed (use Cons.prems(4) in simp)
  then obtain k where "timerNodeQueue tq' = [moved k (moved j t)]"
    "fired tq' = fired tq1 @ replicate k (callback t)" "in_window k (moved j t)"
    using Cons.IH [of tq1 "moved j t"] q j(1) Cons.prems(2,3,5) tq1(2) by auto
  then show ?case
    using moved_moved [OF j(3) Cons.prems(2-4)] in_window_add [OF j(3) Cons.prems(2-4)] q(2) j(2)
    by (intro exI [of _ "j + k"]) (simp add: replicate_add)
qed

end

end
