(* ===== verification/LogStream.thy ===== *)
theory LogStream
  imports Prelude "HOL-Library.Word" "HOL-Library.Signed_Division"
begin

text \<open>
  Formatting of log records (\<open>src/logger/LogStream.h\<close>, \<open>LogStream.cpp\<close>, \<open>Logging.cpp\<close>). A
  \<open>FixedBuffer\<close> is the bytes written so far, with its capacity as a parameter. The text
  \<open>snprintf\<close> makes of a floating point number and \<open>strftime\<close> of the time are parameters.
\<close>

section \<open>Fixed buffers\<close>

definition kSmallBuffer :: nat where "kSmallBuffer = 4000"
definition kLargeBuffer :: nat where "kLargeBuffer = 4000 * 4000"

definition avail :: "nat \<Rightarrow> string \<Rightarrow> int" where
  "avail cap b = int cap - int (length b)"

text \<open>
  \<open>append(buf, len)\<close> compares the room with \<open>static_cast<int>(len)\<close> and then copies \<open>len\<close> bytes: a
  length of \<open>2 ^ 31\<close> or more would pass the test and be written past the end.
\<close>

definition as_int :: "nat \<Rightarrow> int" where
  "as_int len = sint (word_of_nat len :: 32 word)"

definition buf_append :: "nat \<Rightarrow> string \<Rightarrow> nat \<Rightarrow> string \<Rightarrow> string outcome" where
  "buf_append cap s len b =
     (if avail cap b > as_int len then
        (if len \<le> length s \<and> length b + len \<le> cap then ret (b @ take len s) else fail Out_of_range)
      else ret b)"

definition buf_reset :: "string \<Rightarrow> string" where
  "buf_reset b = []"

section \<open>Integers\<close>

text \<open>
  The digits of \<open>i\<close> from the last to the first, by C's truncating \<open>%\<close> and \<open>/\<close>; \<open>zero\<close> points
  into the middle of \<open>digits\<close>, so a negative remainder finds its digit on the left.
\<close>

definition digits :: string where
  "digits = ''9876543210123456789''"

function convert_loop :: "int \<Rightarrow> string" where
  "convert_loop i =
     (let lsd = i smod 10; i' = i sdiv 10 in
      digits ! nat (9 + lsd) # (if i' \<noteq> 0 then convert_loop i' else []))"
  by auto
termination
proof (relation "measure (\<lambda>i. nat \<bar>i\<bar>)")
  fix i lsd i' :: int
  assume "i' = i sdiv 10" and "i' \<noteq> 0"
  then show "(i', i) \<in> measure (\<lambda>i. nat \<bar>i\<bar>)"
    by (auto simp: signed_divide_int_def sgn_if split: if_splits)
qed simp

declare convert_loop.simps [simp del]

definition convert :: "int \<Rightarrow> string" where
  "convert v = rev (convert_loop v @ (if v < 0 then ''-'' else []))"

text \<open>\<open>convert\<close> writes its text and a NUL at \<open>current()\<close> without looking at the room.\<close>

definition kMaxNumericSize :: int where
  "kMaxNumericSize = 32"

definition formatInteger :: "nat \<Rightarrow> int \<Rightarrow> string \<Rightarrow> string outcome" where
  "formatInteger cap v b =
     (if avail cap b \<ge> kMaxNumericSize then
        (if length b + length (convert v) + 1 \<le> cap then ret (b @ convert v) else fail Out_of_range)
      else ret b)"

section \<open>Stream operators\<close>

definition put_bool :: "bool \<Rightarrow> string \<Rightarrow> string outcome" where
  "put_bool v b = buf_append kSmallBuffer (if v then ''1'' else ''0'') 1 b"

definition put_int :: "32 word \<Rightarrow> string \<Rightarrow> string outcome" where
  "put_int v b = formatInteger kSmallBuffer (sint v) b"

definition put_uint :: "32 word \<Rightarrow> string \<Rightarrow> string outcome" where
  "put_uint v b = formatInteger kSmallBuffer (uint v) b"

definition put_short :: "16 word \<Rightarrow> string \<Rightarrow> string outcome" where
  "put_short v b = put_int (word_of_int (sint v)) b"

definition put_ushort :: "16 word \<Rightarrow> string \<Rightarrow> string outcome" where
  "put_ushort v b = put_uint (word_of_int (uint v)) b"

definition put_long :: "64 word \<Rightarrow> string \<Rightarrow> string outcome" where
  "put_long v b = formatInteger kSmallBuffer (sint v) b"

definition put_ulong :: "64 word \<Rightarrow> string \<Rightarrow> string outcome" where
  "put_ulong v b = formatInteger kSmallBuffer (uint v) b"

text \<open>\<open>text\<close> is what \<open>snprintf(_, 32, "%.12g", v)\<close> makes of a \<open>double\<close>.\<close>

definition put_double :: "('d \<Rightarrow> string) \<Rightarrow> 'd \<Rightarrow> string \<Rightarrow> string outcome" where
  "put_double fmt v b = ret (if avail kSmallBuffer b \<ge> kMaxNumericSize then b @ fmt v else b)"

text \<open>
  \<open>long long\<close> has the width of \<open>long\<close>. A \<open>float\<close> is widened by \<open>conv\<close>; the text of a \<open>long double\<close> is what
  \<open>snprintf(_, 32, "%.12Lg", v)\<close> makes.
\<close>

definition put_llong :: "64 word \<Rightarrow> string \<Rightarrow> string outcome" where
  "put_llong v b = formatInteger kSmallBuffer (sint v) b"

definition put_ullong :: "64 word \<Rightarrow> string \<Rightarrow> string outcome" where
  "put_ullong v b = formatInteger kSmallBuffer (uint v) b"

definition put_float :: "('f \<Rightarrow> 'd) \<Rightarrow> ('d \<Rightarrow> string) \<Rightarrow> 'f \<Rightarrow> string \<Rightarrow> string outcome" where
  "put_float conv fmt v b = put_double fmt (conv v) b"

definition put_ldouble :: "('l \<Rightarrow> string) \<Rightarrow> 'l \<Rightarrow> string \<Rightarrow> string outcome" where
  "put_ldouble fmt v b = ret (if avail kSmallBuffer b \<ge> kMaxNumericSize then b @ fmt v else b)"

definition put_char :: "char \<Rightarrow> string \<Rightarrow> string outcome" where
  "put_char v b = buf_append kSmallBuffer [v] 1 b"

definition put_cstr :: "string option \<Rightarrow> string \<Rightarrow> string outcome" where
  "put_cstr str b =
     (case str of
        Some s \<Rightarrow> buf_append kSmallBuffer s (length (c_string s)) b
      | None \<Rightarrow> buf_append kSmallBuffer ''(null)'' 6 b)"

definition put_ustr :: "string option \<Rightarrow> string \<Rightarrow> string outcome" where
  "put_ustr str b = put_cstr str b"

definition put_string :: "string \<Rightarrow> string \<Rightarrow> string outcome" where
  "put_string v b = buf_append kSmallBuffer v (length v) b"

definition put_template :: "string \<Rightarrow> nat \<Rightarrow> string \<Rightarrow> string outcome" where
  "put_template s len b = buf_append kSmallBuffer s len b"

definition stream_append :: "string \<Rightarrow> nat \<Rightarrow> string \<Rightarrow> string outcome" where
  "stream_append s len b = buf_append kSmallBuffer s len b"

definition resetBuffer :: "string \<Rightarrow> string" where
  "resetBuffer b = buf_reset b"

section \<open>Log records\<close>

datatype log_level = INFO | WARN | ERROR

text \<open>The arrays behind the level names, with their terminating NUL.\<close>

fun getLevelName :: "log_level \<Rightarrow> string" where
  "getLevelName INFO = ''INFO '' @ [CHR 0x00]"
| "getLevelName WARN = ''WARN '' @ [CHR 0x00]"
| "getLevelName ERROR = ''ERROR '' @ [CHR 0x00]"

record log_impl =
  log_stream :: string
  log_line :: "32 word"
  log_basename :: string

definition formatTime :: "string \<Rightarrow> log_impl \<Rightarrow> log_impl outcome" where
  "formatTime str_t i =
     obind (put_cstr (Some str_t) (log_stream i)) (\<lambda>b. ret (i\<lparr>log_stream := b\<rparr>))"

definition Logger :: "string \<Rightarrow> string \<Rightarrow> 32 word \<Rightarrow> log_level \<Rightarrow> log_impl outcome" where
  "Logger str_t file line level =
     obind (formatTime str_t \<lparr>log_stream = [], log_line = line, log_basename = file\<rparr>) (\<lambda>i.
     obind (put_template (getLevelName level) 6 (log_stream i)) (\<lambda>b.
     ret (i\<lparr>log_stream := b\<rparr>)))"

definition Logger_func :: "string \<Rightarrow> string \<Rightarrow> 32 word \<Rightarrow> log_level \<Rightarrow> string \<Rightarrow> log_impl outcome" where
  "Logger_func str_t file line level func =
     obind (Logger str_t file line level) (\<lambda>i.
     obind (put_cstr (Some func) (log_stream i)) (\<lambda>b.
     obind (put_char CHR '' '' b) (\<lambda>b.
     ret (i\<lparr>log_stream := b\<rparr>))))"

definition finish :: "log_impl \<Rightarrow> log_impl outcome" where
  "finish i =
     obind (put_cstr (Some '' - '') (log_stream i)) (\<lambda>b.
     obind (put_string (log_basename i) b) (\<lambda>b.
     obind (put_char CHR '':'' b) (\<lambda>b.
     obind (put_int (log_line i) b) (\<lambda>b.
     obind (put_char newline b) (\<lambda>b.
     ret (i\<lparr>log_stream := b\<rparr>))))))"

text \<open>The destructor hands the record to the output function.\<close>

definition Logger_end :: "(string \<Rightarrow> 's \<Rightarrow> 's outcome) \<Rightarrow> log_impl \<Rightarrow> 's \<Rightarrow> 's outcome" where
  "Logger_end output i s = obind (finish i) (\<lambda>i. output (log_stream i) s)"

section \<open>Correctness of the conversion\<close>

definition int_text :: "int \<Rightarrow> string" where
  "int_text v = (if v < 0 then ''-'' @ decimal (nat (- v)) else decimal (nat v))"

lemma digits_at: "k < 10 \<Longrightarrow> digits ! (9 + k) = digit_char k \<and> digits ! (9 - k) = digit_char k"
proof -
  assume "k < 10"
  then have "k \<in> {0, 1, 2, 3, 4, 5, 6, 7, 8, 9}" by auto
  then show ?thesis by (auto simp: digits_def digit_char_def char_of_def bit_0)
qed

lemma convert_loop_abs: "rev (convert_loop i) = decimal (nat \<bar>i\<bar>)"
proof (induction i rule: convert_loop.induct)
  case (1 i)
  let ?n = "nat \<bar>i\<bar>"
  have d: "nat \<bar>i sdiv 10\<bar> = ?n div 10"
    by (simp add: signed_divide_int_def abs_mult sgn_if nat_div_distrib)
  have zero: "i sdiv 10 = 0 \<longleftrightarrow> ?n < 10"
    using d by (metis abs_eq_0 abs_ge_zero div_eq_0_iff nat_eq_iff2 nat_0 nat_eq_iff zero_neq_numeral)
  have dig: "digits ! nat (9 + i smod 10) = digit_char (?n mod 10)"
  proof (cases "0 \<le> i")
    case True
    then have "nat (9 + i smod 10) = 9 + ?n mod 10"
      by (simp add: signed_modulo_int_def sgn_if nat_add_distrib nat_mod_distrib)
    then show ?thesis using digits_at [of "?n mod 10"] by simp
  next
    case False
    then have "nat (9 + i smod 10) = nat (9 - int (?n mod 10))"
      by (simp add: signed_modulo_int_def sgn_if zmod_int)
    also have "\<dots> = 9 - ?n mod 10" by simp
    finally show ?thesis using digits_at [of "?n mod 10"] by simp
  qed
  show ?case
    using 1 d zero dig by (simp add: convert_loop.simps [of i] decimal.simps [of ?n] Let_def)
qed

lemma convert_text: "convert v = int_text v"
  using convert_loop_abs [of v] by (simp add: convert_def int_text_def)

lemma convert_length:
  assumes "\<bar>v\<bar> < 10 ^ d" and "0 < d"
  shows "length (convert v) \<le> d + 1"
proof -
  have "nat \<bar>v\<bar> < 10 ^ d" using assms(1) by (simp add: nat_less_iff)
  then have "length (decimal (nat \<bar>v\<bar>)) \<le> d" using assms(2) by (rule decimal_length)
  then show ?thesis by (auto simp: convert_text int_text_def)
qed

lemma sint_bound: "\<bar>sint (v :: 64 word)\<bar> < 10 ^ 20" "\<bar>sint (u :: 32 word)\<bar> < 10 ^ 20"
  using sint_range_size [of v] sint_range_size [of u] by (auto simp: word_size)

lemma uint_bound: "\<bar>uint (v :: 64 word)\<bar> < 10 ^ 20" "\<bar>uint (u :: 32 word)\<bar> < 10 ^ 20"
  using uint_bounded [of v] uint_bounded [of u] by auto

section \<open>Records never leave the buffer\<close>

text \<open>What the operators do: they add a text that fits, and drop one that does not.\<close>

definition add_text :: "string \<Rightarrow> string \<Rightarrow> string" where
  "add_text t b = (if length b + length t < kSmallBuffer then b @ t else b)"

definition add_number :: "string \<Rightarrow> string \<Rightarrow> string" where
  "add_number t b = (if length b + 32 \<le> kSmallBuffer then b @ t else b)"

lemma as_int_small [simp]: "len < 2 ^ 31 \<Longrightarrow> as_int len = int len"
  by (simp add: as_int_def signed_of_nat signed_take_bit_int_eq_self)

lemma buf_append_small:
  assumes "len < 2 ^ 31" and "len \<le> length s"
  shows "buf_append cap s len b = ret (if length b + len < cap then b @ take len s else b)"
  using assms by (auto simp: buf_append_def avail_def)

lemma formatInteger_small:
  assumes "\<bar>v\<bar> < 10 ^ 20"
  shows "formatInteger kSmallBuffer v b = ret (add_number (int_text v) b)"
  using convert_length [OF assms] 
  by (auto simp: formatInteger_def avail_def kMaxNumericSize_def add_number_def convert_text)

lemma put_string_small: "length v < 2 ^ 31 \<Longrightarrow> put_string v b = ret (add_text v b)"
  by (simp add: put_string_def buf_append_small add_text_def)

lemma c_string_take: "take (length (c_string s)) s = c_string s"
  unfolding c_string_def by (metis append_eq_conv_conj takeWhile_dropWhile_id)

lemma c_string_length: "length (c_string s) \<le> length s"
  by (simp add: c_string_def length_takeWhile_le)

lemma put_cstr_small: "length s < 2 ^ 31 \<Longrightarrow> put_cstr (Some s) b = ret (add_text (c_string s) b)"
  using c_string_length [of s] by (simp add: put_cstr_def buf_append_small add_text_def c_string_take)

lemma put_char_small: "put_char v b = ret (add_text [v] b)"
  by (simp add: put_char_def buf_append_small add_text_def)

lemma put_int_small: "put_int v b = ret (add_number (int_text (sint v)) b)"
  unfolding put_int_def by (rule formatInteger_small) (rule sint_bound)

text \<open>Six bytes of the level's array: \<open>INFO\<close> and \<open>WARN\<close> bring their NUL along.\<close>

definition level_bytes :: "log_level \<Rightarrow> string" where
  "level_bytes l = take 6 (getLevelName l)"

lemma put_level: "put_template (getLevelName l) 6 b = ret (add_text (level_bytes l) b)"
  by (cases l) (simp_all add: put_template_def buf_append_small add_text_def level_bytes_def)

lemmas put_small = put_string_small put_cstr_small put_char_small put_int_small put_level

lemma add_text_le: "length b \<le> kSmallBuffer \<Longrightarrow> length (add_text t b) \<le> kSmallBuffer"
  by (simp add: add_text_def)

text \<open>A record whose text leaves room for a number is written out in full.\<close>

definition record_text :: "string \<Rightarrow> string \<Rightarrow> 32 word \<Rightarrow> log_level \<Rightarrow> string \<Rightarrow> string" where
  "record_text time file line level message =
     time @ level_bytes level @ message @ '' - '' @ file @ '':'' @ int_text (sint line) @ [newline]"

lemma int_text_length32: "length (int_text (sint (v :: 32 word))) \<le> 21"
  using convert_length [OF sint_bound(2), of v] by (simp add: convert_text)

lemma level_length [simp]: "length (level_bytes l) = 6"
  by (cases l) (simp_all add: level_bytes_def)

lemma Logger_small:
  assumes "length time < 2 ^ 31" and "CHR 0x00 \<notin> set time"
  shows "Logger time file line level =
    ret \<lparr>log_stream = add_text (level_bytes level) (add_text time []), log_line = line, log_basename = file\<rparr>"
  using assms by (simp add: Logger_def formatTime_def put_small)

lemma finish_small:
  assumes "length (log_basename i) < 2 ^ 31"
  shows "finish i = ret (i\<lparr>log_stream := add_text [newline] (add_number (int_text (sint (log_line i)))
     (add_text '':'' (add_text (log_basename i) (add_text '' - '' (log_stream i)))))\<rparr>)"
  using assms by (simp add: finish_def put_small)

text \<open>\<open>put\<close> is the chain of operators between a record's head and its destruction.\<close>

lemma record_put:
  assumes "CHR 0x00 \<notin> set time" and "length (record_text time file line level message) + 32 < kSmallBuffer"
    and "put (time @ level_bytes level) = ret (time @ level_bytes level @ message)"
  shows "obind (Logger time file line level) (\<lambda>i.
         obind (put (log_stream i)) (\<lambda>b. Logger_end out (i\<lparr>log_stream := b\<rparr>) s))
    = out (record_text time file line level message) s"
proof -
  have len: "length time + (length message + length file) < 3958"
    using assms(2) by (simp add: record_text_def kSmallBuffer_def)
  then have "length time < 2 ^ 31" "length file < 2 ^ 31" by simp_all
  then show ?thesis
    using assms(1,3) len int_text_length32 [of line]
    by (simp add: Logger_small put_small Logger_end_def finish_small add_text_def add_number_def kSmallBuffer_def
        record_text_def)
qed

lemma record_written:
  assumes "CHR 0x00 \<notin> set time" and "CHR 0x00 \<notin> set message"
    and "length (record_text time file line level message) + 32 < kSmallBuffer"
  shows "obind (Logger time file line level) (\<lambda>i.
         obind (put_cstr (Some message) (log_stream i)) (\<lambda>b. Logger_end out (i\<lparr>log_stream := b\<rparr>) s))
    = out (record_text time file line level message) s"
proof (rule record_put [OF assms(1,3)])
  have "length time + (length message + length file) < 3958"
    using assms(3) by (simp add: record_text_def kSmallBuffer_def)
  then show "put_cstr (Some message) (time @ level_bytes level) = ret (time @ level_bytes level @ message)"
    using assms(2) by (simp add: put_cstr_small add_text_def kSmallBuffer_def)
qed

end
