(* ===== verification/LogFile.thy ===== *)
theory LogFile
  imports Prelude
begin

text \<open>
  Log files (\<open>src/logger/FileUtil.cpp\<close>, \<open>src/logger/LogFile.cpp\<close>). How many bytes \<open>fwrite_unlocked\<close>
  takes is a parameter \<open>fw\<close>: a function of the number of the call and of the bytes offered. The bytes
  taken sit in the stream's buffer until \<open>fflush\<close>.
\<close>

section \<open>Appending to a file\<close>

record append_file =
  pending :: string
  disk :: string
  calls :: nat

type_synonym fwrite = "nat \<Rightarrow> nat \<Rightarrow> nat"

definition AppendFile :: append_file where
  "AppendFile = \<lparr>pending = [], disk = [], calls = 0\<rparr>"

definition file_write :: "fwrite \<Rightarrow> string \<Rightarrow> append_file \<Rightarrow> nat \<times> append_file" where
  "file_write fw s f =
     (let n = fw (calls f) (length s)
      in (n, f\<lparr>pending := pending f @ take n s, calls := calls f + 1\<rparr>))"

function append_loop :: "fwrite \<Rightarrow> string \<Rightarrow> nat \<Rightarrow> append_file \<Rightarrow> append_file" where
  "append_loop fw logline n f =
     (let remain = length logline - n in
      if 0 < remain then
        (let (x, f) = file_write fw (drop n logline) f in
         if x = 0 then f else append_loop fw logline (n + x) f)
      else f)"
  by auto
termination by (relation "measure (\<lambda>(fw, s, n, f). length s - n)") auto

declare append_loop.simps [simp del]

definition file_append :: "fwrite \<Rightarrow> string \<Rightarrow> append_file \<Rightarrow> append_file" where
  "file_append fw logline f =
     (let (n, f) = file_write fw logline f in append_loop fw logline n f)"

definition file_flush :: "append_file \<Rightarrow> append_file" where
  "file_flush f = f\<lparr>disk := disk f @ pending f, pending := []\<rparr>"

section \<open>Log files\<close>

record log_file =
  flushEveryN :: int
  count :: int
  log_out :: append_file

definition LogFile :: "int \<Rightarrow> log_file" where
  "LogFile n = \<lparr>flushEveryN = n, count = 0, log_out = AppendFile\<rparr>"

definition append_unlocked :: "fwrite \<Rightarrow> string \<Rightarrow> log_file \<Rightarrow> log_file" where
  "append_unlocked fw logline l =
     (let l = l\<lparr>log_out := file_append fw logline (log_out l), count := count l + 1\<rparr>
      in if count l \<ge> flushEveryN l then l\<lparr>count := 0, log_out := file_flush (log_out l)\<rparr> else l)"

definition log_append :: "fwrite \<Rightarrow> string \<Rightarrow> log_file \<Rightarrow> log_file" where
  "log_append fw logline l = append_unlocked fw logline l"

definition log_flush :: "log_file \<Rightarrow> log_file" where
  "log_flush l = l\<lparr>log_out := file_flush (log_out l)\<rparr>"

section \<open>What reaches the file\<close>

text \<open>\<open>fwrite\<close> never takes more than it is offered, and takes something unless there is an error.\<close>

definition fwrite_ok :: "fwrite \<Rightarrow> bool" where
  "fwrite_ok fw \<longleftrightarrow> (\<forall>c n. fw c n \<le> n \<and> (0 < n \<longrightarrow> 0 < fw c n))"

definition written :: "append_file \<Rightarrow> string" where
  "written f = disk f @ pending f"

lemma append_loop_written:
  assumes "fwrite_ok fw"
  shows "written (append_loop fw s n f) = written f @ drop n s"
  using assms
proof (induction fw s n f rule: append_loop.induct)
  case (1 fw s n f)
  show ?case
  proof (cases "n < length s")
    case False
    then show ?thesis by (simp add: append_loop.simps [of fw s n f])
  next
    case True
    let ?x = "fw (calls f) (length s - n)"
    let ?f = "f\<lparr>pending := pending f @ take ?x (drop n s), calls := calls f + 1\<rparr>"
    have x: "0 < ?x" using "1.prems" True by (simp add: fwrite_ok_def)
    then have "append_loop fw s n f = append_loop fw s (n + ?x) ?f"
      using True by (simp add: append_loop.simps [of fw s n f] file_write_def Let_def)
    moreover have "written (append_loop fw s (n + ?x) ?f) = written ?f @ drop (n + ?x) s"
      using "1.IH" [of "length s - n" "(?x, ?f)" ?x ?f] "1.prems" True x
      by (simp add: file_write_def Let_def)
    moreover have "take ?x (drop n s) @ drop (n + ?x) s = drop n s"
      by (metis add.commute append_take_drop_id drop_drop)
    ultimately show ?thesis by (simp add: written_def)
  qed
qed

lemma file_append_written:
  assumes "fwrite_ok fw"
  shows "written (file_append fw s f) = written f @ s"
proof -
  let ?n = "fw (calls f) (length s)"
  have "?n \<le> length s" using assms by (simp add: fwrite_ok_def)
  then show ?thesis
    using append_loop_written [OF assms, of s ?n]
    by (simp add: file_append_def file_write_def Let_def written_def)
qed

lemma written_flush [simp]: "written (file_flush f) = written f" "disk (file_flush f) = written f"
  by (simp_all add: file_flush_def written_def)

lemma log_append_written:
  "fwrite_ok fw \<Longrightarrow> written (log_out (log_append fw s l)) = written (log_out l) @ s"
  by (simp add: log_append_def append_unlocked_def Let_def file_append_written)

lemma log_flush_disk [simp]:
  "disk (log_out (log_flush l)) = written (log_out l)" "written (log_out (log_flush l)) = written (log_out l)"
  by (simp_all add: log_flush_def)

text \<open>A log file made with \<open>flushEveryN = 0\<close> flushes after every record.\<close>

lemma log_append_flushed:
  assumes "fwrite_ok fw" and "flushEveryN l \<le> 1" and "0 \<le> count l"
  shows "disk (log_out (log_append fw s l)) = written (log_out l) @ s"
  using assms by (simp add: log_append_def append_unlocked_def Let_def file_append_written)

end
