(* ===== verification/AsyncLogging.thy ===== *)
theory AsyncLogging
  imports LogStream LogFile
begin

text \<open>
  The asynchronous logger (\<open>src/logger/AsyncLogging.h\<close>, \<open>AsyncLogging.cpp\<close>): any number of threads
  append records to a front buffer; one backend thread swaps the filled buffers out and writes them.
  The critical sections under \<open>mutex_\<close> are single steps, and the backend's work between two of them
  is another, so every interleaving of the threads is a sequence of these steps.
\<close>

section \<open>State\<close>

text \<open>
  A \<open>unique_ptr\<close> is an option. \<open>new1\<close>, \<open>new2\<close>, \<open>to_write\<close> and \<open>log_output\<close> are the local variables of the
  backend thread; \<open>appended\<close> records what \<open>append\<close> was called with and is only used in statements.
\<close>

datatype backend = Top | Writing | Finished

record async =
  current_buffer :: "string option"
  next_buffer :: "string option"
  full_buffers :: "string list"
  running :: bool
  pc :: backend
  new1 :: "string option"
  new2 :: "string option"
  to_write :: "string list"
  log_output :: log_file
  appended :: "string list"

text \<open>The logger after \<open>start()\<close>, its backend at the top of its loop: \<open>async_started\<close> below.\<close>

definition AsyncLogging :: async where
  "AsyncLogging =
     \<lparr>current_buffer = Some [], next_buffer = Some [], full_buffers = [], running = True, pc = Top,
      new1 = Some [], new2 = Some [], to_write = [], log_output = LogFile 0, appended = []\<rparr>"

text \<open>The constructor, \<open>start\<close>, and what the backend does before its loop.\<close>

definition AsyncLogging_new :: async where
  "AsyncLogging_new =
     \<lparr>current_buffer = Some [], next_buffer = Some [], full_buffers = [], running = False, pc = Finished,
      new1 = None, new2 = None, to_write = [], log_output = LogFile 0, appended = []\<rparr>"

definition threadFunc_enter :: "async \<Rightarrow> async" where
  "threadFunc_enter s =
     s\<lparr>log_output := LogFile 0, new1 := Some [], new2 := Some [], to_write := [], pc := Top\<rparr>"

definition async_start :: "async \<Rightarrow> async" where
  "async_start s = threadFunc_enter (s\<lparr>running := True\<rparr>)"

lemma async_started: "async_start AsyncLogging_new = AsyncLogging"
  by (simp add: async_start_def threadFunc_enter_def AsyncLogging_new_def AsyncLogging_def)

section \<open>Steps\<close>

definition deref_buffer :: "string option \<Rightarrow> string outcome" where
  "deref_buffer p = (case p of None \<Rightarrow> fail Null_pointer | Some b \<Rightarrow> ret b)"

text \<open>\<open>AsyncLogging::append\<close>, under the lock.\<close>

definition async_append :: "string \<Rightarrow> async \<Rightarrow> async outcome" where
  "async_append logline s =
     (let s = s\<lparr>appended := appended s @ [logline]\<rparr> in
      obind (deref_buffer (current_buffer s)) (\<lambda>cur.
      if avail kLargeBuffer cur > int (length logline) then
        obind (buf_append kLargeBuffer logline (length logline) cur) (\<lambda>b.
        ret (s\<lparr>current_buffer := Some b\<rparr>))
      else
        (let s = s\<lparr>full_buffers := full_buffers s @ [cur]\<rparr>;
             s = (case next_buffer s of
                    Some n \<Rightarrow> s\<lparr>current_buffer := Some n, next_buffer := None\<rparr>
                  | None \<Rightarrow> s\<lparr>current_buffer := Some []\<rparr>)
         in obind (deref_buffer (current_buffer s)) (\<lambda>cur.
            obind (buf_append kLargeBuffer logline (length logline) cur) (\<lambda>b.
            ret (s\<lparr>current_buffer := Some b\<rparr>))))))"

text \<open>
  The backend at the top of its loop: the assertions, then the critical section that takes the
  buffers over. The wait for a notification or three seconds changes nothing.
\<close>

definition assert_empty :: "string option \<Rightarrow> unit outcome" where
  "assert_empty p = (case p of Some b \<Rightarrow> if length b = 0 then ret () else fail Assertion | None \<Rightarrow> fail Assertion)"

definition backend_swap :: "async \<Rightarrow> async outcome" where
  "backend_swap s =
     obind (assert_empty (new1 s)) (\<lambda>_.
     obind (assert_empty (new2 s)) (\<lambda>_.
     obind (if to_write s = [] then ret () else fail Assertion) (\<lambda>_.
     obind (deref_buffer (current_buffer s)) (\<lambda>cur.
     let s = s\<lparr>full_buffers := full_buffers s @ [cur]\<rparr>;
         s = s\<lparr>current_buffer := new1 s, new1 := None\<rparr>;
         s = s\<lparr>to_write := full_buffers s, full_buffers := to_write s\<rparr>;
         s = (if next_buffer s = None then s\<lparr>next_buffer := new2 s, new2 := None\<rparr> else s)
     in ret (s\<lparr>pc := Writing\<rparr>)))))"

text \<open>Handing a buffer back to the backend: the last one of the vector, emptied.\<close>

definition give_back :: "string option \<Rightarrow> string list \<Rightarrow> (string option \<times> string list) outcome" where
  "give_back p bs =
     (case p of
        Some b \<Rightarrow> ret (Some b, bs)
      | None \<Rightarrow> if bs = [] then fail Empty_vector else ret (Some (buf_reset (last bs)), butlast bs))"

fun write_buffers :: "fwrite \<Rightarrow> string list \<Rightarrow> log_file \<Rightarrow> log_file" where
  "write_buffers fw [] l = l"
| "write_buffers fw (b # bs) l = write_buffers fw bs (log_append fw b l)"

definition backend_write :: "fwrite \<Rightarrow> async \<Rightarrow> async outcome" where
  "backend_write fw s =
     (let s = s\<lparr>log_output := write_buffers fw (to_write s) (log_output s)\<rparr>;
          bs = (if length (to_write s) > 2 then take 2 (to_write s) else to_write s)
      in obind (give_back (new1 s) bs) (\<lambda>(n1, bs).
         obind (give_back (new2 s) bs) (\<lambda>(n2, bs).
         ret (s\<lparr>new1 := n1, new2 := n2, to_write := [], log_output := log_flush (log_output s), pc := Top\<rparr>))))"

text \<open>\<open>stop()\<close> clears the flag; the backend leaves its loop when it tests the flag at the top.\<close>

definition async_stop :: "async \<Rightarrow> async" where
  "async_stop s = s\<lparr>running := False\<rparr>"

definition backend_finish :: "async \<Rightarrow> async" where
  "backend_finish s = s\<lparr>log_output := log_flush (log_output s), pc := Finished\<rparr>"

inductive async_step :: "fwrite \<Rightarrow> async \<Rightarrow> async \<Rightarrow> bool" for fw where
  Append: "length logline < kLargeBuffer \<Longrightarrow> async_append logline s = ret s' \<Longrightarrow> async_step fw s s'"
| Swap: "pc s = Top \<Longrightarrow> running s \<Longrightarrow> backend_swap s = ret s' \<Longrightarrow> async_step fw s s'"
| Write: "pc s = Writing \<Longrightarrow> backend_write fw s = ret s' \<Longrightarrow> async_step fw s s'"
| Stop: "async_step fw s (async_stop s)"
| Finish: "pc s = Top \<Longrightarrow> \<not> running s \<Longrightarrow> async_step fw s (backend_finish s)"

inductive async_reachable :: "fwrite \<Rightarrow> async \<Rightarrow> bool" for fw where
  init: "async_reachable fw AsyncLogging"
| step: "async_reachable fw s \<Longrightarrow> async_step fw s s' \<Longrightarrow> async_reachable fw s'"

section \<open>Invariant\<close>

text \<open>
  The front always has a current buffer, and is short of a spare one only while a full buffer
  waits. The backend's own buffers are empty when it starts a round, and after a swap there are as
  many buffers to write as it has to take back.
\<close>

definition async_ok :: "async \<Rightarrow> bool" where
  "async_ok s \<longleftrightarrow>
     (\<exists>cur. current_buffer s = Some cur \<and> length cur \<le> kLargeBuffer)
     \<and> (case next_buffer s of None \<Rightarrow> full_buffers s \<noteq> [] | Some b \<Rightarrow> b = [])
     \<and> (case pc s of
          Writing \<Rightarrow> new1 s = None \<and>
            (case new2 s of None \<Rightarrow> 2 \<le> length (to_write s) | Some b \<Rightarrow> b = [] \<and> to_write s \<noteq> [])
        | _ \<Rightarrow> new1 s = Some [] \<and> new2 s = Some [] \<and> to_write s = [])"

text \<open>Everything that was appended is in the file or on its way there, in order.\<close>

definition in_flight :: "async \<Rightarrow> string" where
  "in_flight s =
     (if pc s = Writing then concat (to_write s) else []) @ concat (full_buffers s)
     @ (case current_buffer s of None \<Rightarrow> [] | Some b \<Rightarrow> b)"

definition complete :: "async \<Rightarrow> bool" where
  "complete s \<longleftrightarrow> written (log_out (log_output s)) @ in_flight s = concat (appended s)"

lemma kLargeBuffer_bound: "kLargeBuffer < 2 ^ 31"
  by (simp add: kLargeBuffer_def)

lemma async_append_ok:
  assumes "async_ok s" and "complete s" and "length m < kLargeBuffer"
  shows "\<exists>s'. async_append m s = ret s' \<and> async_ok s' \<and> complete s' \<and> pc s' = pc s \<and> running s' = running s
    \<and> appended s' = appended s @ [m]"
proof -
  obtain cur where cur: "current_buffer s = Some cur" "length cur \<le> kLargeBuffer"
    using assms(1) by (auto simp: async_ok_def)
  have m: "length m < 2 ^ 31" using assms(3) kLargeBuffer_bound by simp
  have app: "buf_append kLargeBuffer m (length m) b = ret (if length b + length m < kLargeBuffer then b @ m else b)"
    for b using buf_append_small [OF m order_refl] by simp
  show ?thesis
  proof (cases "avail kLargeBuffer cur > int (length m)")
    case True
    then have "length cur + length m < kLargeBuffer" by (simp add: avail_def)
    then show ?thesis
      using assms(1,2) cur True app
      by (auto simp: async_append_def deref_buffer_def async_ok_def complete_def in_flight_def Let_def
          split: backend.splits option.splits)
  next
    case False
    show ?thesis
    proof (cases "next_buffer s")
      case None
      then show ?thesis
        using assms cur False app
        by (auto simp: async_append_def deref_buffer_def async_ok_def complete_def in_flight_def Let_def
            split: backend.splits option.splits)
    next
      case (Some n)
      then have "n = []" using assms(1) by (simp add: async_ok_def)
      then show ?thesis
        using Some assms cur False app
        by (auto simp: async_append_def deref_buffer_def async_ok_def complete_def in_flight_def Let_def
            split: backend.splits option.splits)
    qed
  qed
qed

lemma backend_swap_ok:
  assumes "async_ok s" and "complete s" and "pc s = Top"
  shows "\<exists>s'. backend_swap s = ret s' \<and> async_ok s' \<and> complete s' \<and> pc s' = Writing
    \<and> appended s' = appended s \<and> full_buffers s' = [] \<and> current_buffer s' = Some []"
proof -
  obtain cur where cur: "current_buffer s = Some cur" using assms(1) by (auto simp: async_ok_def)
  have own: "new1 s = Some []" "new2 s = Some []" "to_write s = []"
    using assms(1,3) by (auto simp: async_ok_def)
  show ?thesis
  proof (cases "next_buffer s")
    case None
    then have "full_buffers s \<noteq> []" using assms(1) by (simp add: async_ok_def)
    then have "2 \<le> length (full_buffers s @ [cur])" by (cases "full_buffers s") auto
    then show ?thesis
      using None assms(2,3) cur own
      by (simp add: backend_swap_def assert_empty_def deref_buffer_def async_ok_def complete_def
          in_flight_def Let_def)
  next
    case (Some n)
    then have "n = []" using assms(1) by (simp add: async_ok_def)
    then show ?thesis
      using Some assms(2,3) cur own
      by (simp add: backend_swap_def assert_empty_def deref_buffer_def async_ok_def complete_def
          in_flight_def Let_def)
  qed
qed

lemma write_buffers_written:
  "fwrite_ok fw \<Longrightarrow> written (log_out (write_buffers fw bs l)) = written (log_out l) @ concat bs"
  by (induction bs arbitrary: l) (simp_all add: log_append_written)

lemma backend_write_ok:
  assumes "async_ok s" and "complete s" and "pc s = Writing" and "fwrite_ok fw"
  shows "\<exists>s'. backend_write fw s = ret s' \<and> async_ok s' \<and> complete s' \<and> pc s' = Top
    \<and> appended s' = appended s \<and> full_buffers s' = full_buffers s \<and> current_buffer s' = current_buffer s
    \<and> disk (log_out (log_output s')) = written (log_out (log_output s'))"
proof -
  have n1: "new1 s = None" using assms(1,3) by (simp add: async_ok_def)
  let ?bs = "if length (to_write s) > 2 then take 2 (to_write s) else to_write s"
  have bs: "?bs \<noteq> []" "new2 s = None \<Longrightarrow> butlast ?bs \<noteq> []"
    using assms(1,3) by (cases "to_write s"; cases "tl (to_write s)"; auto simp: async_ok_def split: option.splits)+
  have n2: "new2 s = None \<or> new2 s = Some []"
    using assms(1,3) by (auto simp: async_ok_def split: option.splits)
  have gb: "obind (give_back None ?bs) (\<lambda>(n1, bs). obind (give_back (new2 s) bs) (\<lambda>(n2, bs). f n1 n2))
      = f (Some []) (Some [])" for f :: "string option \<Rightarrow> string option \<Rightarrow> async outcome"
    using n2
  proof
    assume none: "new2 s = None"
    show ?thesis using bs(1) bs(2) [OF none] none by (simp add: give_back_def buf_reset_def)
  next
    assume "new2 s = Some []"
    then show ?thesis using bs(1) by (simp add: give_back_def buf_reset_def)
  qed
  let ?s = "s\<lparr>new1 := Some [], new2 := Some [], to_write := [],
    log_output := log_flush (write_buffers fw (to_write s) (log_output s)), pc := Top\<rparr>"
  have "backend_write fw s = ret ?s"
    using gb [of "\<lambda>n1 n2. ret (s\<lparr>new1 := n1, new2 := n2, to_write := [],
      log_output := log_flush (write_buffers fw (to_write s) (log_output s)), pc := Top\<rparr>)"]
    by (simp add: backend_write_def n1 Let_def split del: if_split cong del: if_weak_cong)
  moreover have "async_ok ?s" using assms(1) by (auto simp: async_ok_def split: option.splits)
  moreover have "complete ?s"
    using assms(2,3) write_buffers_written [OF assms(4)] by (simp add: complete_def in_flight_def)
  ultimately show ?thesis by auto
qed

lemma reachable_inv:
  assumes "async_reachable fw s" and "fwrite_ok fw"
  shows "async_ok s \<and> complete s"
  using assms(1)
proof induction
  case init
  then show ?case
    by (simp add: async_ok_def complete_def in_flight_def AsyncLogging_def LogFile_def AppendFile_def written_def)
next
  case (step s s')
  from step(2) show ?case
  proof cases
    case (Append logline)
    then show ?thesis using async_append_ok [of s logline] step(3) by auto
  next
    case Swap
    then show ?thesis using backend_swap_ok [of s] step(3) by auto
  next
    case Write
    then show ?thesis using backend_write_ok [of s fw] step(3) assms(2) by auto
  next
    case Stop
    then show ?thesis using step(3) 
      by (auto simp: async_stop_def async_ok_def complete_def in_flight_def split: backend.splits option.splits)
  next
    case Finish
    then show ?thesis
      using step(3)
      by (auto simp: backend_finish_def async_ok_def complete_def in_flight_def split: option.splits)
  qed
qed

end
