(* ===== verification/ThreadPool.thy ===== *)
theory ThreadPool
  imports Prelude
begin

text \<open>
  The thread pool (\<open>src/network/ThreadPool.cpp\<close>, \<open>src/network/include/ThreadPool.h\<close>). A task is a
  number. The critical sections under \<open>queue_mutex_\<close> are single steps; every thread of \<open>workers_\<close> has
  a state of its own.
\<close>

section \<open>State and steps\<close>

text \<open>
  The threads the constructor starts wait for a task in a loop; a thread started by \<open>Add\<close> was handed
  its task directly (\<open>Fresh\<close>) and ends after it.
\<close>

datatype pool_thread = Waiting | Busy nat | Fresh nat | Last nat | Ended

record thread_pool =
  workers :: "pool_thread list"
  tasks :: "nat list"
  stopped :: bool
  begun :: "nat list"
  done_tasks :: "nat list"

definition ThreadPool :: "nat \<Rightarrow> thread_pool" where
  "ThreadPool n = \<lparr>workers = replicate n Waiting, tasks = [], stopped = False, begun = [], done_tasks = []\<rparr>"

definition pool_add :: "nat \<Rightarrow> thread_pool \<Rightarrow> thread_pool outcome" where
  "pool_add t p =
     (if stopped p then fail (Runtime_error ''enqueue on stopped ThreadPool'')
      else ret (p\<lparr>workers := workers p @ [Fresh t]\<rparr>))"

text \<open>
  One round of a waiting thread: \<open>None\<close> while the condition \<open>stop_ || !tasks_.empty()\<close> does not hold.
\<close>

definition worker_wake :: "nat \<Rightarrow> thread_pool \<Rightarrow> thread_pool outcome" where
  "worker_wake i p =
     (if \<not> (stopped p \<or> tasks p \<noteq> []) then None
      else if stopped p \<and> tasks p = [] then ret (p\<lparr>workers := (workers p)[i := Ended]\<rparr>)
      else (case tasks p of
              [] \<Rightarrow> fail Empty_vector
            | t # ts \<Rightarrow> ret (p\<lparr>workers := (workers p)[i := Busy t], tasks := ts, begun := begun p @ [t]\<rparr>)))"

definition worker_done :: "nat \<Rightarrow> nat \<Rightarrow> thread_pool \<Rightarrow> thread_pool" where
  "worker_done i t p = p\<lparr>workers := (workers p)[i := Waiting], done_tasks := done_tasks p @ [t]\<rparr>"

definition fresh_start :: "nat \<Rightarrow> nat \<Rightarrow> thread_pool \<Rightarrow> thread_pool" where
  "fresh_start i t p = p\<lparr>workers := (workers p)[i := Last t], begun := begun p @ [t]\<rparr>"

definition fresh_done :: "nat \<Rightarrow> nat \<Rightarrow> thread_pool \<Rightarrow> thread_pool" where
  "fresh_done i t p = p\<lparr>workers := (workers p)[i := Ended], done_tasks := done_tasks p @ [t]\<rparr>"

text \<open>The destructor sets the flag; its joins are done when every thread has ended.\<close>

definition pool_stop :: "thread_pool \<Rightarrow> thread_pool" where
  "pool_stop p = p\<lparr>stopped := True\<rparr>"

definition all_joined :: "thread_pool \<Rightarrow> bool" where
  "all_joined p \<longleftrightarrow> stopped p \<and> (\<forall>w \<in> set (workers p). w = Ended)"

inductive pool_step :: "thread_pool \<Rightarrow> thread_pool \<Rightarrow> bool" where
  Add: "pool_add t p = ret p' \<Longrightarrow> pool_step p p'"
| Wake: "i < length (workers p) \<Longrightarrow> workers p ! i = Waiting \<Longrightarrow> worker_wake i p = ret p' \<Longrightarrow> pool_step p p'"
| Done: "i < length (workers p) \<Longrightarrow> workers p ! i = Busy t \<Longrightarrow> pool_step p (worker_done i t p)"
| Start: "i < length (workers p) \<Longrightarrow> workers p ! i = Fresh t \<Longrightarrow> pool_step p (fresh_start i t p)"
| End: "i < length (workers p) \<Longrightarrow> workers p ! i = Last t \<Longrightarrow> pool_step p (fresh_done i t p)"
| Stop: "pool_step p (pool_stop p)"

inductive pool_reachable :: "nat \<Rightarrow> thread_pool \<Rightarrow> bool" for n where
  init: "pool_reachable n (ThreadPool n)"
| step: "pool_reachable n p \<Longrightarrow> pool_step p p' \<Longrightarrow> pool_reachable n p'"

section \<open>Invariant\<close>

text \<open>
  Nothing ever puts a task into the queue: the first \<open>n\<close> threads only wait and end, and the others
  were each handed one task.
\<close>

fun own_task :: "pool_thread \<Rightarrow> bool" where
  "own_task (Busy t) = False"
| "own_task _ = True"

definition pool_ok :: "nat \<Rightarrow> thread_pool \<Rightarrow> bool" where
  "pool_ok n p \<longleftrightarrow>
     tasks p = [] \<and> n \<le> length (workers p)
     \<and> (\<forall>i < n. workers p ! i = Waiting \<or> workers p ! i = Ended)
     \<and> (\<forall>i < length (workers p). n \<le> i \<longrightarrow>
          (\<exists>t. workers p ! i = Fresh t \<or> workers p ! i = Last t) \<or> workers p ! i = Ended)
     \<and> (\<not> stopped p \<longrightarrow> (\<forall>i < n. workers p ! i = Waiting))"

lemma pool_ok_step:
  assumes "pool_ok n p" and "pool_step p p'"
  shows "pool_ok n p'"
  using assms(2)
proof cases
  case (Add t)
  then show ?thesis using assms(1)
    by (auto simp: pool_add_def pool_ok_def nth_append less_Suc_eq split: if_splits)
next
  case (Wake i)
  then show ?thesis using assms(1)
    by (auto simp: worker_wake_def pool_ok_def nth_list_update split: if_splits)
next
  case (Done i t)
  then have "workers p ! i \<noteq> Busy t"
    using assms(1) by (cases "i < n") (auto simp: pool_ok_def)
  then show ?thesis using Done by simp
next
  case (Start i t)
  then have "n \<le> i" using assms(1) by (cases "i < n") (auto simp: pool_ok_def)
  then show ?thesis using Start assms(1) by (auto simp: fresh_start_def pool_ok_def nth_list_update)
next
  case (End i t)
  then have "n \<le> i" using assms(1) by (cases "i < n") (auto simp: pool_ok_def)
  then show ?thesis using End assms(1) by (auto simp: fresh_done_def pool_ok_def nth_list_update)
next
  case Stop
  then show ?thesis using assms(1) by (simp add: pool_stop_def pool_ok_def)
qed

lemma pool_reachable_ok: "pool_reachable n p \<Longrightarrow> pool_ok n p"
proof (induction rule: pool_reachable.induct)
  case init
  then show ?case by (simp add: ThreadPool_def pool_ok_def)
next
  case (step p p')
  then show ?case using pool_ok_step by blast
qed

text \<open>How many steps the threads still have to take once the pool is stopped.\<close>

fun thread_work :: "pool_thread \<Rightarrow> nat" where
  "thread_work Ended = 0"
| "thread_work Waiting = 1"
| "thread_work (Last t) = 1"
| "thread_work (Fresh t) = 2"
| "thread_work (Busy t) = 2"

definition pool_work :: "thread_pool \<Rightarrow> nat" where
  "pool_work p = sum_list (map thread_work (workers p))"

lemma pool_work_update:
  assumes "i < length (workers p)" and "thread_work w < thread_work (workers p ! i)"
  shows "sum_list (map thread_work ((workers p)[i := w])) < pool_work p"
proof -
  have "map thread_work ((workers p)[i := w]) = (map thread_work (workers p))[i := thread_work w]"
    by (simp add: map_update)
  then show ?thesis
    using assms elem_le_sum_list [of i "map thread_work (workers p)"]
    by (simp add: pool_work_def sum_list_update)
qed

text \<open>A stopped pool drains: some thread can step as long as one has not ended.\<close>

lemma pool_progress:
  assumes "pool_ok n p" and "stopped p" and "\<not> all_joined p"
  shows "\<exists>p'. pool_step p p' \<and> stopped p' \<and> pool_work p' < pool_work p"
proof -
  obtain i where i: "i < length (workers p)" "workers p ! i \<noteq> Ended"
    using assms(2,3) by (auto simp: all_joined_def in_set_conv_nth)
  then consider "workers p ! i = Waiting" | t where "workers p ! i = Fresh t" | t where "workers p ! i = Last t"
    using assms(1) by (cases "i < n") (auto simp: pool_ok_def not_less)
  then show ?thesis
  proof cases
    case 1
    let ?p = "p\<lparr>workers := (workers p)[i := Ended]\<rparr>"
    have "worker_wake i p = ret ?p" using assms(1,2) by (simp add: worker_wake_def pool_ok_def)
    then show ?thesis
      using pool_step.Wake [OF i(1) 1] assms(2) pool_work_update [OF i(1), of Ended] 1
      by (intro exI [of _ ?p]) (simp add: pool_work_def)
  next
    case (2 t)
    show ?thesis
      using pool_step.Start [OF i(1) 2] assms(2) pool_work_update [OF i(1), of "Last t"] 2
      by (intro exI [of _ "fresh_start i t p"]) (simp add: fresh_start_def pool_work_def)
  next
    case (3 t)
    show ?thesis
      using pool_step.End [OF i(1) 3] assms(2) pool_work_update [OF i(1), of Ended] 3
      by (intro exI [of _ "fresh_done i t p"]) (simp add: fresh_done_def pool_work_def)
  qed
qed

text \<open>So the destructor's joins can all be passed.\<close>

lemma pool_drains:
  assumes "pool_ok n p" and "stopped p"
  shows "\<exists>p'. pool_step\<^sup>*\<^sup>* p p' \<and> all_joined p'"
  using assms
proof (induction "pool_work p" arbitrary: p rule: less_induct)
  case less
  show ?case
  proof (cases "all_joined p")
    case False
    then obtain p1 where "pool_step p p1" "stopped p1" "pool_work p1 < pool_work p"
      using pool_progress less.prems by blast
    then show ?thesis
      using less.hyps [of p1] pool_ok_step [OF less.prems(1)] by (meson converse_rtranclp_into_rtranclp)
  qed blast
qed

end
