(* ===== verification/Runtime_Properties.thy ===== *)
theory Runtime_Properties
  imports TimerQueue AsyncLogging ThreadPool
begin

text \<open>
  The properties of the timers, the logger and the thread pool.
\<close>

section \<open>Timers\<close>

definition sample_timers :: "timer_node list" where
  "sample_timers =
     [\<lparr>callback = 1, expiration = 1900, interval = 0, repeating = False, deleted = False\<rparr>,
      \<lparr>callback = 2, expiration = 1500, interval = 300, repeating = True, deleted = False\<rparr>]"

definition sample_queue :: timer_queue where
  "sample_queue = \<lparr>timerNodeQueue = sample_timers, armed = None, fired = [], callingExpiredTimers = False\<rparr>"

lemma sample_timers_ok: "\<forall>t \<in> set sample_timers. timer_ok t"
  by (simp add: sample_timers_def timer_ok_def)

lemma sample_now: "ms_of (2, 0) = 2000"
  by (simp add: ms_of_def)

lemma replicate_two: "replicate_mset 2 x = {#x, x#}"
  by (simp add: numeral_2_eq_2)

lemmas sample_top = first_min.timer_order_axioms

text \<open>
  C19. When the timer descriptor fires, and the clock reads the same during the handler, every
  callback runs exactly as often as it is due (a repeating timer once per elapsed interval), the
  queue keeps exactly the timers that are due later, each repeating one moved on, and the
  descriptor is armed for the earliest of them. The handler returns after as many readings of the
  clock as there are callbacks to run, and two more.
\<close>

theorem handleRead_runs_due_timers:
  assumes "timer_order pick" and "\<forall>t \<in> set (timerNodeQueue tq). timer_ok t" and "unat (ms_of now) < 10000000"
  shows "\<exists>tq'. handleRead pick (replicate (total now (timerNodeQueue tq) + 2) now) tq = ret tq'
    \<and> mset (fired tq') = mset (fired tq) + all_fired now (timerNodeQueue tq)
    \<and> mset (timerNodeQueue tq') = all_settled now (timerNodeQueue tq)
    \<and> (\<forall>t \<in> set (timerNodeQueue tq'). ms_of now < expiration t)
    \<and> armed tq' = (if timerNodeQueue tq' = [] then armed tq
        else Some (delay (expiration (timerNodeQueue tq' ! pick (timerNodeQueue tq'))) now))"
proof -
  let ?q = "timerNodeQueue tq"
  have rep: "replicate (total now ?q + 2) now = replicate (Suc (total now ?q)) now @ [now]"
    by (simp add: replicate_append_same)
  obtain q runs where q: "handle_loop pick (replicate (total now ?q + 2) now) ?q (fired tq)
      = ret (q, runs, if q = [] then [now, now] else [now])"
    "mset q = all_settled now ?q" "mset runs = mset (fired tq) + all_fired now ?q"
    using timer_order.handle_loop_settles [OF assms, of "[now]" "fired tq"] unfolding rep by auto
  have "\<not> due now t" if "t \<in> set q" for t
    using all_settled_later [OF assms(2,3), of t] that q(2) by (metis set_mset_mset)
  then have later: "\<forall>t \<in> set q. ms_of now < expiration t" by (auto simp: due_def not_le)
  show ?thesis
    using q later by (auto simp: handleRead_def Let_def resetTimerfd_def)
qed

theorem handleRead_runs_due_timers_witness:
  "\<exists>tq' n. handleRead first_min (replicate n (2, 0)) sample_queue = ret tq'
     \<and> mset (fired tq') = {#1, 2, 2#} \<and> map expiration (timerNodeQueue tq') = [2100]"
proof -
  have ms: "unat (ms_of (2, 0)) < 10000000" by (simp add: sample_now)
  have f: "all_fired (2, 0) sample_timers = {#1, 2, 2#}"
    by (simp add: all_fired_def sample_timers_def firings_def due_def sample_now replicate_two)
  have s: "all_settled (2, 0) sample_timers =
      {#\<lparr>callback = 2, expiration = 2100, interval = 300, repeating = True, deleted = False\<rparr>#}"
    by (simp add: all_settled_def sample_timers_def settled_def firings_def due_def sample_now)
  have "\<forall>t \<in> set (timerNodeQueue sample_queue). timer_ok t"
    using sample_timers_ok by (simp add: sample_queue_def)
  from handleRead_runs_due_timers [OF sample_top this ms] obtain tq' where
    run: "handleRead first_min (replicate (total (2, 0) (timerNodeQueue sample_queue) + 2) (2, 0)) sample_queue = ret tq'"
    and "mset (fired tq') = mset (fired sample_queue) + all_fired (2, 0) (timerNodeQueue sample_queue)"
    and "mset (timerNodeQueue tq') = all_settled (2, 0) (timerNodeQueue sample_queue)"
    by blast
  then have "mset (fired tq') = {#1, 2, 2#}" "map expiration (timerNodeQueue tq') = [2100]"
    using f s by (auto simp: sample_queue_def)
  with run show ?thesis
    by (intro exI [of _ tq'] exI [of _ "total (2, 0) (timerNodeQueue sample_queue) + 2"] conjI)
qed

text \<open>
  C38. The periodic check of the server dies: a timer added by \<open>runEvery\<close> runs less than \<open>10 ^ 7 / interval\<close>
  times in all, however many timer events follow, since its expiration grows past the window of 10000
  seconds in which the clock counts and is never due again. With the interval of 5000 ms that the example
  server uses, these are fewer than 2000 checks.
\<close>

theorem periodic_check_stops:
  assumes "timer_order pick" and "timerNodeQueue tq = []" and "0 < ivl" and "ivl < 2 ^ 31"
    and "snd now1 < 1000000" and "\<forall>nows \<in> set nowss. \<forall>now \<in> set nows. snd now < 1000000"
    and "timer_events pick nowss (runEvery pick cb ivl now1 now2 tq) = ret tq'"
  shows "\<exists>k. fired tq' = fired tq @ replicate k cb \<and> k * nat ivl < 10000000"
proof -
  let ?t = "TimerNode cb ivl ivl now1" and ?tq = "runEvery pick cb ivl now1 now2 tq"
  have tq: "timerNodeQueue ?tq = [?t]" "fired ?tq = fired tq"
    using assms(2) by (simp_all add: runEvery_def addTimer_def addTimerInLoop_def insert_timer_def resetTimerfd_def Let_def)
  have ms: "unat (ms_of now1) < 10000000" using ms_of_bound assms(5) by (cases now1) auto
  have "unat (word_of_int ivl :: 64 word) = nat ivl"
    using assms(3,4) by (simp add: unat_eq_nat_uint uint_word_of_int)
  moreover have "nat ivl < 2 ^ 31" using assms(3,4) by simp
  ultimately have e: "unat (expiration ?t) = unat (ms_of now1) + nat ivl"
    using ms by (simp add: TimerNode_def unat_word_ariths)
  have t: "timer_ok ?t" "repeating ?t" "callback ?t = cb" "interval ?t = ivl"
    using assms(3,4) by (simp_all add: TimerNode_def timer_ok_def)
  have "unat (expiration ?t) < 2 ^ 40" using e ms \<open>nat ivl < 2 ^ 31\<close> by simp
  moreover have "\<forall>nows \<in> set nowss. \<forall>now \<in> set nows. unat (ms_of now) < 10000000"
    using assms(6) ms_of_bound by force
  ultimately obtain k where k: "fired tq' = fired tq @ replicate k cb" "in_window k ?t"
    using timer_order.single_events [OF assms(1) tq(1) t(1,2) _ _ assms(7)] t(3) tq(2) by auto
  have "k * nat ivl < 10000000"
    using k(2) e t(4) by (cases k) (simp_all add: in_window_def)
  then show ?thesis using k(1) by blast
qed

text \<open>
  In the witness the server starts 4 seconds before the window ends: the first expiration lies past it
  already, and no check ever runs.
\<close>

theorem periodic_check_stops_witness:
  "\<exists>tq'. timer_events first_min [[(9999, 999999), (9999, 999999)], [(3, 0), (3, 0)]]
      (runEvery first_min 1 5000 (9996, 0) (9996, 0) (sample_queue\<lparr>timerNodeQueue := []\<rparr>)) = ret tq'
    \<and> (\<exists>k. fired tq' = replicate k 1 \<and> k * 5000 < 10000000) \<and> fired tq' = []"
proof -
  let ?tq = "runEvery first_min 1 5000 (9996, 0) (9996, 0) (sample_queue\<lparr>timerNodeQueue := []\<rparr>)"
  have "\<exists>tq'. timer_events first_min [[(9999, 999999), (9999, 999999)], [(3, 0), (3, 0)]] ?tq = ret tq' \<and> fired tq' = []"
    by (simp add: runEvery_def addTimer_def addTimerInLoop_def insert_timer_def resetTimerfd_def Let_def sample_queue_def
        handleRead_def handle_loop.simps isValid_def TimerNode_def ms_of_def)
  then obtain tq' where tq': "timer_events first_min [[(9999, 999999), (9999, 999999)], [(3, 0), (3, 0)]] ?tq = ret tq'"
    "fired tq' = []" by blast
  have "\<exists>k. fired tq' = fired (sample_queue\<lparr>timerNodeQueue := []\<rparr>) @ replicate k 1 \<and> k * nat 5000 < 10000000"
    by (rule periodic_check_stops [OF sample_top _ _ _ _ _ tq'(1)]) simp_all
  then show ?thesis using tq' by (auto simp: sample_queue_def)
qed

text \<open>
  For a timer that is not due yet the descriptor is armed with the distance to its expiration,
  but at least with 100 ms, and with a number of nanoseconds below one second.
\<close>

theorem delay_of_later_timer:
  assumes "ms_of now \<le> ex"
  shows "fst (delay ex now) * 1000 + snd (delay ex now) div 1000000 = max 100 (unat ex - unat (ms_of now))
    \<and> snd (delay ex now) < 1000000000 \<and> delay ex now \<noteq> (0, 0)"
proof -
  define d where "d = (if ex - ms_of now < 100 then 100 else ex - ms_of now)"
  have sub: "unat (ex - ms_of now) = unat ex - unat (ms_of now)" using assms by (rule unat_sub)
  have d: "unat d = max 100 (unat ex - unat (ms_of now))"
    by (auto simp: d_def word_less_nat_alt sub)
  have m: "unat (d mod 1000) < 1000" by (simp add: unat_mod)
  have n: "unat ((d mod 1000) * 1000000) = unat d mod 1000 * 1000000"
    using m by (simp add: unat_mult_lem [THEN iffD1] unat_mod unat_word_ariths)
  have "delay ex now = (unat d div 1000, unat d mod 1000 * 1000000)"
    using n by (simp add: delay_def Let_def unat_div flip: d_def)
  then show ?thesis using d by auto
qed

theorem delay_of_later_timer_witness: "delay 4500 (2, 0) = (2, 500000000)"
proof -
  have "fst (delay 4500 (2, 0)) * 1000 + snd (delay 4500 (2, 0)) div 1000000 = 2500"
    using delay_of_later_timer [of "(2, 0)" 4500] by (simp add: sample_now)
  then show ?thesis by (simp add: delay_def sample_now unat_div unat_mod)
qed

text \<open>
  For a timer that is already due the unsigned difference wraps, and the descriptor is armed
  for more than five hundred million years.
\<close>

theorem delay_of_late_timer:
  assumes "ex < ms_of (sec, usec)" and "usec < 1000000"
  shows "18446744073699551 \<le> fst (delay ex (sec, usec))"
proof -
  let ?n = "ms_of (sec, usec)"
  have less: "unat ex < unat ?n" using assms(1) by (simp add: word_less_nat_alt)
  have n: "unat ?n < 10000000" using ms_of_bound [OF assms(2)] .
  have "unat (ex - ?n) = unat ex + 2 ^ 64 - unat ?n"
    using less by (simp add: unat_sub_if_size word_size)
  then have d: "18446744073699551616 \<le> unat (ex - ?n)" using n by simp
  then have "\<not> ex - ?n < 100" by (simp add: word_less_nat_alt)
  then have "fst (delay ex (sec, usec)) = unat (ex - ?n) div 1000" by (simp add: delay_def unat_div Let_def)
  then show ?thesis using div_le_mono [OF d, of 1000] by simp
qed

theorem delay_of_late_timer_witness: "18446744073699551 \<le> fst (delay 1999 (2, 0))"
  using delay_of_late_timer [of 1999 2 0] by (simp add: sample_now)

text \<open>
  The clock counts milliseconds in a window of 10000 seconds, so a timer with an expiration of
  \<open>10 ^ 7\<close> or more is valid at every time: it never runs.
\<close>

theorem late_expiration_never_due:
  assumes "10000000 \<le> unat (expiration t)" and "usec < 1000000"
  shows "isValid (sec, usec) t = (True, t)"
  using assms(1) ms_of_bound [OF assms(2), of sec] by (simp add: isValid_def word_less_nat_alt)

theorem late_expiration_never_due_witness:
  "isValid (123456, 0) (TimerNode 1 20000 0 (9990, 0)) = (True, TimerNode 1 20000 0 (9990, 0))"
  using late_expiration_never_due [of "TimerNode 1 20000 0 (9990, 0)" 0 123456]
  by (simp add: TimerNode_def ms_of_def)

text \<open>
  Adding a timer puts exactly that timer into the queue, and arms the descriptor exactly when
  the earliest expiration has changed.
\<close>

theorem addTimer_arms_earliest:
  assumes "timer_order pick"
  shows "mset (timerNodeQueue (addTimer pick cb timeout ivl now1 now2 tq))
      = add_mset (TimerNode cb timeout ivl now1) (mset (timerNodeQueue tq))
    \<and> (let q = timerNodeQueue tq; tq' = addTimer pick cb timeout ivl now1 now2 tq; q' = timerNodeQueue tq';
           first = expiration (q' ! pick q')
       in armed tq' = (if q = [] \<or> first \<noteq> expiration (q ! pick q) then Some (delay first now2) else armed tq))"
proof -
  let ?t = "TimerNode cb timeout ivl now1" and ?q = "timerNodeQueue tq"
  have top: "expiration ((?q @ [?t]) ! pick (?q @ [?t])) =
      (if ?q = [] \<or> expiration ?t < expiration (?q ! pick ?q) then expiration ?t else expiration (?q ! pick ?q))"
  proof (cases "?q = []")
    case True
    then show ?thesis using timer_order.pick_less [OF assms, of "[?t]"] by simp
  next
    case False
    let ?u = "if expiration ?t < expiration (?q ! pick ?q) then ?t else ?q ! pick ?q"
    have "?q ! pick ?q \<in> set ?q" using timer_order.pick_less [OF assms False] by simp
    then have "expiration ((?q @ [?t]) ! pick (?q @ [?t])) = expiration ?u"
      using timer_order.top_least [OF assms] by (intro timer_order.top_unique [OF assms]) fastforce+
    then show ?thesis using False by simp
  qed
  then show ?thesis
    by (auto simp: addTimer_def addTimerInLoop_def insert_timer_def resetTimerfd_def Let_def)
qed

theorem addTimer_arms_earliest_witness:
  "armed (addTimer first_min 3 1000 0 (2, 0) (2, 0) sample_queue) = None
   \<and> mset (map callback (timerNodeQueue (addTimer first_min 3 1000 0 (2, 0) (2, 0) sample_queue))) = {#1, 2, 3#}"
proof -
  let ?q = "timerNodeQueue sample_queue" and ?tq = "addTimer first_min 3 1000 0 (2, 0) (2, 0) sample_queue"
  note add = addTimer_arms_earliest [OF sample_top, of 3 1000 0 "(2, 0)" "(2, 0)" sample_queue]
  have q: "timerNodeQueue ?tq = ?q @ [TimerNode 3 1000 0 (2, 0)]"
    by (simp add: addTimer_def addTimerInLoop_def insert_timer_def resetTimerfd_def Let_def)
  have top: "expiration (?q ! first_min ?q) = 1500"
    "expiration (timerNodeQueue ?tq ! first_min (timerNodeQueue ?tq)) = 1500" "?q \<noteq> []"
    unfolding q by (simp_all add: sample_queue_def sample_timers_def TimerNode_def sample_now Let_def)
  have "armed sample_queue = None" by (simp add: sample_queue_def)
  then have "armed ?tq = None" using add top by (simp add: Let_def)
  moreover have "mset (map callback (timerNodeQueue ?tq)) = {#1, 2, 3#}"
    unfolding q by (simp add: sample_queue_def sample_timers_def TimerNode_def)
  ultimately show ?thesis ..
qed

section \<open>The logger\<close>

text \<open>
  C37. The integer operators of the log stream append the decimal text of the value, for every value
  of every width, when 32 bytes are free, and nothing otherwise; they never write outside the buffer.
\<close>

theorem integers_printed_exactly:
  "put_short v16 b = ret (add_number (int_text (sint v16)) b)
   \<and> put_ushort v16 b = ret (add_number (int_text (uint v16)) b)
   \<and> put_int v32 b = ret (add_number (int_text (sint v32)) b)
   \<and> put_uint v32 b = ret (add_number (int_text (uint v32)) b)
   \<and> put_long v64 b = ret (add_number (int_text (sint v64)) b)
   \<and> put_ulong v64 b = ret (add_number (int_text (uint v64)) b)"
proof -
  have s: "sint (word_of_int (sint v16) :: 32 word) = sint v16"
    unfolding signed_of_int using sint_range_size [of v16]
    by (simp add: word_size signed_take_bit_int_eq_self)
  have u: "uint (word_of_int (uint v16) :: 32 word) = uint v16"
    unfolding unsigned_of_int using uint_bounded [of v16] by (simp add: take_bit_int_eq_self)
  have "\<bar>sint v16\<bar> < 10 ^ 20" "\<bar>uint v16\<bar> < 10 ^ 20"
    using sint_range_size [of v16] uint_bounded [of v16] by (auto simp: word_size)
  then show ?thesis
    using sint_bound uint_bound
    by (simp add: put_short_def put_ushort_def put_int_def put_uint_def put_long_def put_ulong_def
        formatInteger_small s [simplified] u [simplified])
qed

text \<open>
  A log statement hands the output function the time, six bytes of level name, the message, the
  file and the line, in this order, whenever that text leaves 32 bytes of the buffer unused.
\<close>

theorem log_record_complete:
  assumes "CHR 0x00 \<notin> set time" and "CHR 0x00 \<notin> set message"
    and "length (record_text time file line level message) + 32 < kSmallBuffer"
  shows "obind (Logger time file line level) (\<lambda>i.
         obind (put_cstr (Some message) (log_stream i)) (\<lambda>b. Logger_end out (i\<lparr>log_stream := b\<rparr>) s))
    = out (record_text time file line level message) s"
  using assms by (rule record_written)

theorem log_record_complete_witness:
  "obind (Logger ''T'' ''f.cpp'' 7 WARN) (\<lambda>i.
   obind (put_cstr (Some ''hi'') (log_stream i)) (\<lambda>b. Logger_end (\<lambda>t s. ret (s @ t)) (i\<lparr>log_stream := b\<rparr>) []))
   = ret (''TWARN '' @ [CHR 0x00] @ ''hi - f.cpp:7'' @ [newline])"
  using log_record_complete [of "''T''" "''hi''" "''f.cpp''" 7 WARN "\<lambda>t s. ret (s @ t)" "[]"]
  by (simp add: record_text_def kSmallBuffer_def int_text_def decimal.simps digit_char_def char_of_def bit_0
      level_bytes_def)

text \<open>
  C9. Whatever the interleaving of the appending threads, the backend and \<open>stop\<close>: the file's content
  followed by the buffers still in memory is exactly the concatenation of all appended records, so
  nothing is lost, repeated or reordered while it runs.
\<close>

theorem async_log_is_lossless:
  assumes "async_reachable fw s" and "fwrite_ok fw"
  shows "written (log_out (log_output s)) @ in_flight s = concat (appended s)"
  using reachable_inv [OF assms] by (simp add: complete_def)

definition sample_fwrite :: fwrite where
  "sample_fwrite c n = min n 4096"

lemma sample_fwrite_ok: "fwrite_ok sample_fwrite"
  by (simp add: fwrite_ok_def sample_fwrite_def)

theorem async_log_is_lossless_witness:
  "\<exists>s. async_reachable sample_fwrite s \<and> appended s = [''one'']
     \<and> written (log_out (log_output s)) @ in_flight s = ''one''"
proof -
  have "async_ok AsyncLogging \<and> complete AsyncLogging"
    using reachable_inv [OF async_reachable.init sample_fwrite_ok] .
  moreover have small: "length ''one'' < kLargeBuffer" by (simp add: kLargeBuffer_def)
  ultimately obtain s where s: "async_append ''one'' AsyncLogging = ret s"
    "appended s = appended AsyncLogging @ [''one'']"
    using async_append_ok by metis
  have "async_reachable sample_fwrite s"
    using async_reachable.step [OF async_reachable.init async_step.Append [OF small s(1)]] .
  then show ?thesis
    using async_log_is_lossless [OF _ sample_fwrite_ok] s(2) by (auto simp: AsyncLogging_def)
qed

text \<open>
  C16. In no reachable state can the logger fail: an append of less than a whole buffer succeeds, and
  the backend's assertions hold, it never takes from an empty vector and never follows a null
  pointer, in each of its two phases.
\<close>

theorem async_log_never_fails:
  assumes "async_reachable fw s" and "fwrite_ok fw" and "length logline < kLargeBuffer"
  shows "(\<exists>s'. async_append logline s = ret s')
    \<and> (case pc s of Top \<Rightarrow> \<exists>s'. backend_swap s = ret s' | Writing \<Rightarrow> \<exists>s'. backend_write fw s = ret s'
        | Finished \<Rightarrow> True)"
proof -
  have inv: "async_ok s" "complete s" using reachable_inv [OF assms(1,2)] by auto
  show ?thesis
    using async_append_ok [OF inv assms(3)] backend_swap_ok [OF inv] backend_write_ok [OF inv _ assms(2)]
    by (auto split: backend.splits)
qed

theorem async_log_never_fails_witness: "\<exists>s'. backend_swap AsyncLogging = ret s'"
  using async_log_never_fails [OF async_reachable.init sample_fwrite_ok, of "[]"]
  by (simp add: kLargeBuffer_def AsyncLogging_def)

text \<open>
  One round of the backend brings everything appended before it to the disk: after a swap and
  a write, with no append in between, the file on disk holds all records.
\<close>

theorem backend_round_reaches_disk:
  assumes "async_reachable fw s" and "fwrite_ok fw" and "pc s = Top"
  shows "\<exists>s1 s2. backend_swap s = ret s1 \<and> backend_write fw s1 = ret s2
    \<and> disk (log_out (log_output s2)) = concat (appended s)"
proof -
  have inv: "async_ok s" "complete s" using reachable_inv [OF assms(1,2)] by auto
  obtain s1 where s1: "backend_swap s = ret s1" "async_ok s1" "complete s1" "pc s1 = Writing"
    "appended s1 = appended s" "full_buffers s1 = []" "current_buffer s1 = Some []"
    using backend_swap_ok [OF inv assms(3)] by blast
  then show ?thesis
    using backend_write_ok [OF s1(2-4) assms(2)] by (auto simp: complete_def in_flight_def)
qed

theorem backend_round_reaches_disk_witness:
  "\<exists>s1 s2. backend_swap AsyncLogging = ret s1 \<and> backend_write sample_fwrite s1 = ret s2
     \<and> disk (log_out (log_output s2)) = []"
  using backend_round_reaches_disk [OF async_reachable.init sample_fwrite_ok] by (auto simp: AsyncLogging_def)

section \<open>The thread pool\<close>

text \<open>
  Nothing is ever queued: in every reachable state the task queue is empty and the \<open>n\<close> threads
  of the constructor have run nothing; each added task has a thread of its own.
\<close>

theorem pool_queue_unused:
  assumes "pool_reachable n p"
  shows "tasks p = [] \<and> n \<le> length (workers p) \<and> (\<forall>i < n. workers p ! i = Waiting \<or> workers p ! i = Ended)"
  using pool_reachable_ok [OF assms] by (simp add: pool_ok_def)

theorem pool_queue_unused_witness:
  "tasks (fresh_start 1 5 ((ThreadPool 1)\<lparr>workers := [Waiting, Fresh 5]\<rparr>)) = []
   \<and> workers (fresh_start 1 5 ((ThreadPool 1)\<lparr>workers := [Waiting, Fresh 5]\<rparr>)) ! 0 = Waiting"
proof -
  let ?p = "(ThreadPool 1)\<lparr>workers := [Waiting, Fresh 5]\<rparr>"
  have "pool_add 5 (ThreadPool 1) = ret ?p" by (simp add: pool_add_def ThreadPool_def)
  then have "pool_reachable 1 ?p"
    using pool_reachable.step [OF pool_reachable.init pool_step.Add] by blast
  moreover have "pool_step ?p (fresh_start 1 5 ?p)" by (rule pool_step.Start) simp_all
  ultimately have "pool_reachable 1 (fresh_start 1 5 ?p)" using pool_reachable.step by blast
  from pool_queue_unused [OF this] show ?thesis by (simp add: fresh_start_def)
qed



end
