(* ===== verification/Socket.thy ===== *)
theory Socket
  imports Connection
begin

text \<open>
  Addresses and the socket calls that open connections (\<open>src/network/Socket.cpp\<close>; reading, writing and
  \<open>shutdownWrite\<close> are in theory \<open>Connection\<close>). The host is little-endian: a word in network byte order
  holds its bytes in the opposite order of a number. \<open>inet_addr\<close>, \<open>inet_ntoa\<close> and \<open>strtoul\<close> with base 0 are
  written out as the C library documents them. The results of \<open>accept\<close>, \<open>connect\<close>, \<open>bind\<close> and \<open>listen\<close> are
  inputs.
\<close>

section \<open>Byte order\<close>

text \<open>Byte \<open>i\<close> of a word in memory.\<close>

definition mem_byte :: "'a::len word \<Rightarrow> nat \<Rightarrow> nat" where
  "mem_byte w i = unat w div 256 ^ i mod 256"

definition htons :: "16 word \<Rightarrow> 16 word" where
  "htons w = word_of_nat (mem_byte w 1 + 256 * mem_byte w 0)"

definition htonl :: "32 word \<Rightarrow> 32 word" where
  "htonl w = word_of_nat (mem_byte w 3 + 256 * mem_byte w 2 + 256\<^sup>2 * mem_byte w 1 + 256 ^ 3 * mem_byte w 0)"

text \<open>\<open>ntohs\<close> is the same exchange of bytes.\<close>

definition ntohs :: "16 word \<Rightarrow> 16 word" where
  "ntohs w = htons w"

lemma mem_byte_less [simp]: "mem_byte w i < 256"
  by (simp add: mem_byte_def)

lemma unat_word_of_nat: "n < 2 ^ LENGTH('a) \<Longrightarrow> unat (word_of_nat n :: 'a::len word) = n"
  by (simp add: unat_of_nat take_bit_nat_eq_self)

lemma byte_div:
  assumes "a < (256::nat)"
  shows "(a + 256 * x) mod 256 = a" and "(a + 256 * x) div 256 = x"
  using assms by simp_all

lemma div_bytes: "n div 65536 = n div 256 div (256::nat)" "n div 16777216 = n div 256 div 256 div (256::nat)"
  by (simp_all add: div_mult2_eq [symmetric])

lemma bytes16: "unat (w :: 16 word) = mem_byte w 0 + 256 * mem_byte w 1"
proof -
  have "unat w < 65536" using unsigned_less [of w] by simp
  then show ?thesis by (simp add: mem_byte_def)
qed

lemma byte_sum:
  "n = a + 256 * n1 \<Longrightarrow> n1 = b + 256 * n2 \<Longrightarrow> n2 = c + 256 * d \<Longrightarrow>
   n = a + 256 * b + 256\<^sup>2 * c + 256 ^ 3 * (d :: nat)"
  by simp

lemma bytes32:
  "unat (w :: 32 word) = mem_byte w 0 + 256 * mem_byte w 1 + 256\<^sup>2 * mem_byte w 2 + 256 ^ 3 * mem_byte w 3"
proof -
  let ?n = "unat w"
  have "?n < 4294967296" using unsigned_less [of w] by simp
  then have "?n div 256 div 256 div 256 < 256" by simp
  then have "mem_byte w 0 = ?n mod 256" "mem_byte w 1 = ?n div 256 mod 256" "mem_byte w 2 = ?n div 256 div 256 mod 256"
    "mem_byte w 3 = ?n div 256 div 256 div 256"
    by (simp_all add: mem_byte_def div_bytes)
  then show ?thesis
    by (simp only:) (rule byte_sum, (rule mod_mult_div_eq [symmetric])+)
qed

lemma mem_byte_of_nat:
  "n < 2 ^ LENGTH('a) \<Longrightarrow> mem_byte (word_of_nat n :: 'a::len word) i = n div 256 ^ i mod 256"
  by (simp add: mem_byte_def unat_word_of_nat)

lemma nat_bytes:
  assumes "a < 256" and "b < 256" and "c < 256" and "d < (256::nat)"
  shows "map (\<lambda>i. (a + 256 * b + 256\<^sup>2 * c + 256 ^ 3 * d) div 256 ^ i mod 256) [0, 1, 2, 3] = [a, b, c, d]"
proof -
  define n2 n1 n where "n2 = c + 256 * d" and "n1 = b + 256 * n2" and "n = a + 256 * n1"
  have "n mod 256 = a" "n div 256 = n1" "n1 mod 256 = b" "n1 div 256 = n2" "n2 mod 256 = c" "n2 div 256 = d"
    unfolding n_def n1_def n2_def using assms by (simp_all only: byte_div)
  moreover have "a + 256 * b + 256\<^sup>2 * c + 256 ^ 3 * d = n" by (simp add: n_def n1_def n2_def)
  ultimately show ?thesis using assms(4) by (simp only: list.map) (simp add: div_bytes)
qed

lemma mem_bytes_of_nat:
  assumes "a < 256" and "b < 256" and "c < 256" and "d < 256"
  shows "map (mem_byte (word_of_nat (a + 256 * b + 256\<^sup>2 * c + 256 ^ 3 * d) :: 32 word)) [0, 1, 2, 3] = [a, b, c, d]"
proof -
  have "a + 256 * b + 256\<^sup>2 * c + 256 ^ 3 * d < (2::nat) ^ LENGTH(32)" using assms by simp
  from mem_byte_of_nat [OF this] nat_bytes [OF assms] show ?thesis by (simp only: list.map)
qed

lemma ntohs_htons [simp]: "ntohs (htons w) = w"
proof -
  define a b where "a = mem_byte w 0" and "b = mem_byte w 1"
  have ab: "a < 256" "b < 256" by (simp_all add: a_def b_def)
  then have "b + 256 * a < 2 ^ LENGTH(16)" by simp
  from mem_byte_of_nat [OF this] have "mem_byte (htons w) 0 = b" "mem_byte (htons w) 1 = a"
    using ab unfolding htons_def a_def [symmetric] b_def [symmetric] by (simp_all only: byte_div) simp_all
  then have "ntohs (htons w) = word_of_nat (a + 256 * b)"
    by (simp add: ntohs_def htons_def [of "htons w"])
  also have "a + 256 * b = unat w" by (simp add: a_def b_def bytes16)
  finally show ?thesis by simp
qed

section \<open>Dotted addresses\<close>

definition digit_value :: "char \<Rightarrow> nat option" where
  "digit_value c =
     (let n = of_char c :: nat in
      if 48 \<le> n \<and> n \<le> 57 then Some (n - 48)
      else if 97 \<le> n \<and> n \<le> 102 then Some (n - 87)
      else if 65 \<le> n \<and> n \<le> 70 then Some (n - 55) else None)"

definition is_digit :: "char \<Rightarrow> bool" where
  "is_digit c = (let n = of_char c :: nat in 48 \<le> n \<and> n \<le> 57)"

fun scan_digits :: "nat \<Rightarrow> string \<Rightarrow> nat \<Rightarrow> nat \<times> string" where
  "scan_digits base [] acc = (acc, [])"
| "scan_digits base (c # s) acc =
     (case digit_value c of
        Some d \<Rightarrow> if d < base then scan_digits base s (acc * base + d) else (acc, c # s)
      | None \<Rightarrow> (acc, c # s))"

text \<open>\<open>strtoul(s, &end, 0)\<close> on a text that starts with a digit: the prefix chooses the base.\<close>

definition strtoul0 :: "string \<Rightarrow> nat \<times> string" where
  "strtoul0 s =
     (case s of
        c # x # h # r \<Rightarrow>
          if c = CHR ''0'' \<and> x \<in> {CHR ''x'', CHR ''X''} \<and> digit_value h \<noteq> None then scan_digits 16 (h # r) 0
          else scan_digits (if c = CHR ''0'' then 8 else 10) s 0
      | c # r \<Rightarrow> scan_digits (if c = CHR ''0'' then 8 else 10) s 0
      | [] \<Rightarrow> (0, []))"

text \<open>
  \<open>inet_addr\<close> reads up to four parts; all but the last are bytes, the last one fills what is left of
  the address. A space may follow. \<open>n\<close> is the number of dots that may still come.
\<close>

fun inet_parts :: "nat \<Rightarrow> nat list \<Rightarrow> string \<Rightarrow> (nat list \<times> nat \<times> string) option" where
  "inet_parts n bs s =
     (if s = [] \<or> \<not> is_digit (hd s) then None
      else let (val, rest) = strtoul0 s in
        if val > 0xFFFFFFFF then None
        else if rest \<noteq> [] \<and> hd rest = CHR ''.'' then
          (case n of
             0 \<Rightarrow> None
           | Suc m \<Rightarrow> if val > 255 then None else inet_parts m (bs @ [val]) (tl rest))
        else Some (bs, val, rest))"

declare inet_parts.simps [simp del]

definition INADDR_NONE :: "32 word" where
  "INADDR_NONE = 0xFFFFFFFF"

definition inet_addr :: "string \<Rightarrow> 32 word" where
  "inet_addr s =
     (case inet_parts 3 [] s of
        None \<Rightarrow> INADDR_NONE
      | Some (bs, val, rest) \<Rightarrow>
          if rest \<noteq> [] \<and> \<not> isspace (hd rest) then INADDR_NONE
          else if val \<ge> 256 ^ (4 - length bs) then INADDR_NONE
          else htonl (word_of_nat (foldl (\<lambda>a b. 256 * a + b) 0 bs * 256 ^ (4 - length bs) + val)))"

definition dotted :: "nat list \<Rightarrow> string" where
  "dotted bs = concat (map (\<lambda>b. decimal b @ ''.'') (butlast bs)) @ decimal (last bs)"

definition inet_ntoa :: "32 word \<Rightarrow> string" where
  "inet_ntoa w = dotted (map (mem_byte w) [0, 1, 2, 3])"

lemma of_digit_char: "d < 10 \<Longrightarrow> of_char (digit_char d) = 48 + d"
  by (simp add: digit_char_def)

lemma digit_char_value:
  assumes "d < 10"
  shows "digit_value (digit_char d) = Some d \<and> is_digit (digit_char d) \<and> (digit_char d = CHR ''0'' \<longleftrightarrow> d = 0)"
proof -
  have "digit_char d = CHR ''0'' \<longleftrightarrow> of_char (digit_char d) = (of_char CHR ''0'' :: nat)"
    by (rule of_char_eq_iff [symmetric])
  then show ?thesis using assms by (simp add: of_digit_char digit_value_def is_digit_def Let_def)
qed

text \<open>The digits of a number are scanned up to the first character that is none.\<close>

lemma scan_decimal:
  assumes "rest = [] \<or> digit_value (hd rest) = None"
  shows "scan_digits 10 (decimal n @ rest) acc = (acc * 10 ^ length (decimal n) + n, rest)"
proof -
  have step: "scan_digits 10 (decimal n @ s) acc = scan_digits 10 s (acc * 10 ^ length (decimal n) + n)" for s acc
  proof (induction n arbitrary: s acc rule: decimal.induct)
    case (1 n)
    show ?case
    proof (cases "n < 10")
      case True
      then show ?thesis using digit_char_value [of n] by (simp add: decimal.simps [of n])
    next
      case False
      then have "decimal n = decimal (n div 10) @ [digit_char (n mod 10)]" by (simp add: decimal.simps [of n])
      then show ?thesis
        using "1.IH" [OF False, of "digit_char (n mod 10) # s"] digit_char_value [of "n mod 10"]
        by (simp add: algebra_simps)
    qed
  qed
  have "scan_digits 10 rest m = (m, rest)" for m using assms by (cases rest) auto
  then show ?thesis by (simp add: step)
qed

lemma decimal_first: "decimal n \<noteq> [] \<and> is_digit (hd (decimal n)) \<and> (hd (decimal n) = CHR ''0'' \<longleftrightarrow> n = 0)"
proof (induction n rule: decimal.induct)
  case (1 n)
  show ?case
  proof (cases "n < 10")
    case True
    then show ?thesis using digit_char_value [of n] by (simp add: decimal.simps [of n])
  next
    case False
    then show ?thesis using "1.IH" by (simp add: decimal.simps [of n])
  qed
qed

lemma strtoul0_decimal:
  assumes "rest = [] \<or> digit_value (hd rest) = None \<and> hd rest \<notin> {CHR ''x'', CHR ''X''}"
  shows "strtoul0 (decimal n @ rest) = (n, rest)"
proof (cases "n = 0")
  case True
  have "scan_digits 8 (CHR ''0'' # rest) 0 = (0, rest)"
    using assms by (cases rest) (auto simp: digit_value_def)
  then show ?thesis
    using assms True by (cases rest; cases "tl rest") (auto simp: strtoul0_def decimal.simps digit_char_def char_of_def bit_0)
next
  case False
  obtain c s where d: "decimal n = c # s" "c \<noteq> CHR ''0''" using decimal_first [of n] False by (cases "decimal n") auto
  then have "strtoul0 (decimal n @ rest) = scan_digits 10 (decimal n @ rest) 0"
    by (auto simp: strtoul0_def split: list.splits)
  then show ?thesis using scan_decimal [of rest n 0] assms by auto
qed

lemma inet_parts_dot:
  assumes "b < 256"
  shows "inet_parts (Suc n) bs (decimal b @ CHR ''.'' # s) = inet_parts n (bs @ [b]) s"
proof -
  have "strtoul0 (decimal b @ CHR ''.'' # s) = (b, CHR ''.'' # s)"
    by (rule strtoul0_decimal) (simp add: digit_value_def)
  then show ?thesis
    using decimal_first [of b] assms by (subst inet_parts.simps) (simp add: hd_append)
qed

lemma inet_parts_last:
  assumes "b < 256"
  shows "inet_parts n bs (decimal b) = Some (bs, b, [])"
proof -
  have "strtoul0 (decimal b) = (b, [])" using strtoul0_decimal [of "[]" b] by simp
  then show ?thesis
    using decimal_first [of b] assms by (subst inet_parts.simps) simp
qed

lemma inet_addr_dotted:
  assumes "a < 256" and "b < 256" and "c < 256" and "d < 256"
  shows "map (mem_byte (inet_addr (dotted [a, b, c, d]))) [0, 1, 2, 3] = [a, b, c, d]"
proof -
  have "inet_parts 3 [] (dotted [a, b, c, d]) = Some ([a, b, c], d, [])"
    using assms by (simp add: dotted_def inet_parts_dot inet_parts_last numeral_3_eq_3)
  moreover have host: "foldl (\<lambda>a b. 256 * a + b) 0 [a, b, c] * 256 ^ (4 - length [a, b, c]) + d
      = d + 256 * c + 256\<^sup>2 * b + 256 ^ 3 * a"
    by simp
  ultimately have addr: "inet_addr (dotted [a, b, c, d]) = htonl (word_of_nat (d + 256 * c + 256\<^sup>2 * b + 256 ^ 3 * a))"
    using assms(4) by (simp add: inet_addr_def ac_simps del: of_nat_add of_nat_mult of_nat_power)
  let ?h = "word_of_nat (d + 256 * c + 256\<^sup>2 * b + 256 ^ 3 * a) :: 32 word"
  have "map (mem_byte ?h) [0, 1, 2, 3] = [d, c, b, a]" by (rule mem_bytes_of_nat) (use assms in simp_all)
  then have "htonl ?h = word_of_nat (a + 256 * b + 256\<^sup>2 * c + 256 ^ 3 * d)"
    by (simp add: htonl_def)
  then show ?thesis unfolding addr using mem_bytes_of_nat [OF assms] by simp
qed

lemma mem_bytes_inject:
  assumes "map (mem_byte v) [0, 1, 2, 3] = map (mem_byte w) [0, 1, 2, 3]"
  shows "v = (w :: 32 word)"
proof -
  have "unat v = unat w" using assms by (simp add: bytes32)
  then show ?thesis by (simp add: word_unat_eq_iff)
qed

lemma inet_addr_ntoa [simp]: "inet_addr (inet_ntoa w) = w"
  unfolding inet_ntoa_def
  by (rule mem_bytes_inject) (use inet_addr_dotted [of "mem_byte w 0" "mem_byte w 1" "mem_byte w 2" "mem_byte w 3"] in simp)

section \<open>The class \<open>InetAddress\<close>\<close>

record sockaddr_in =
  sin_family :: "16 word"
  sin_port :: "16 word"   \<comment> \<open>in network byte order\<close>
  s_addr :: "32 word"     \<comment> \<open>in network byte order\<close>

definition AF_INET :: "16 word" where
  "AF_INET = 2"

definition InetAddress_zero :: sockaddr_in where
  "InetAddress_zero = \<lparr>sin_family = 0, sin_port = 0, s_addr = 0\<rparr>"

definition InetAddress :: "string \<Rightarrow> 16 word \<Rightarrow> sockaddr_in" where
  "InetAddress ip port = InetAddress_zero\<lparr>sin_family := AF_INET, s_addr := inet_addr ip, sin_port := htons port\<rparr>"

definition SetInetAddr :: "sockaddr_in \<Rightarrow> sockaddr_in \<Rightarrow> sockaddr_in" where
  "SetInetAddr addr self = addr"

definition GetAddr :: "sockaddr_in \<Rightarrow> sockaddr_in" where
  "GetAddr self = self"

definition GetIp :: "sockaddr_in \<Rightarrow> string" where
  "GetIp self = inet_ntoa (s_addr self)"

definition GetPort :: "sockaddr_in \<Rightarrow> 16 word" where
  "GetPort self = ntohs (sin_port self)"

section \<open>Listening and connecting\<close>

datatype accept_result = Accepted sock sockaddr_in | Accept_EAGAIN | Accept_error
datatype connect_result = Connect_ok | Connect_EINPROGRESS | Connect_error

text \<open>A listening socket; \<open>lsn_queue\<close> are the results of its next \<open>accept\<close> calls.\<close>

record listen_sock =
  lsn_fd :: int
  lsn_nonblocking :: bool
  lsn_addr :: "sockaddr_in option"
  lsn_listening :: bool
  lsn_queue :: "accept_result list"

text \<open>Both constructors end the process on the descriptor -1.\<close>

definition Socket :: "int \<Rightarrow> int outcome" where
  "Socket fd = obind (ErrorIf (fd = -1) ''socket create error'') (\<lambda>_. ret fd)"

definition Bind :: "bool \<Rightarrow> sockaddr_in \<Rightarrow> listen_sock \<Rightarrow> listen_sock outcome" where
  "Bind fails addr s =
     obind (ErrorIf fails ''socket bind error'') (\<lambda>_. ret (s\<lparr>lsn_addr := Some (GetAddr addr)\<rparr>))"

definition Listen :: "bool \<Rightarrow> listen_sock \<Rightarrow> listen_sock outcome" where
  "Listen fails s = obind (ErrorIf fails ''socket listen error'') (\<lambda>_. ret (s\<lparr>lsn_listening := True\<rparr>))"

text \<open>The old status flag is returned, the new one set.\<close>

definition SetNonBlocking :: "sock \<Rightarrow> bool \<times> sock" where
  "SetNonBlocking so = (nonblocking so, so\<lparr>nonblocking := True\<rparr>)"

fun accept_loop :: "accept_result list \<Rightarrow> (sock \<times> sockaddr_in \<times> accept_result list) outcome" where
  "accept_loop [] = None"
| "accept_loop (Accept_EAGAIN # rs) = accept_loop rs"
| "accept_loop (Accept_error # rs) = fail (Exit ''socket accept error'')"
| "accept_loop (Accepted so a # rs) = ret (so, a, rs)"

fun accept_once :: "accept_result list \<Rightarrow> (sock \<times> sockaddr_in \<times> accept_result list) outcome" where
  "accept_once [] = None"
| "accept_once (Accepted so a # rs) = ret (so, a, rs)"
| "accept_once (_ # rs) = fail (Exit ''socket accept error'')"

definition Accept :: "sockaddr_in \<Rightarrow> listen_sock \<Rightarrow> (sock \<times> sockaddr_in \<times> listen_sock) outcome" where
  "Accept addr s =
     obind (if lsn_nonblocking s then accept_loop (lsn_queue s) else accept_once (lsn_queue s))
       (\<lambda>(so, a, rs). ret (so, SetInetAddr a addr, s\<lparr>lsn_queue := rs\<rparr>))"

fun connect_loop :: "connect_result list \<Rightarrow> connect_result list outcome" where
  "connect_loop [] = None"
| "connect_loop (Connect_ok # rs) = ret rs"
| "connect_loop (Connect_EINPROGRESS # rs) = connect_loop rs"
| "connect_loop (Connect_error # rs) = fail (Exit ''socket connect error'')"

fun connect_once :: "connect_result list \<Rightarrow> connect_result list outcome" where
  "connect_once [] = None"
| "connect_once (r # rs) = obind (ErrorIf (r \<noteq> Connect_ok) ''socket connect error'') (\<lambda>_. ret rs)"

text \<open>\<open>results\<close> are what the next \<open>connect\<close> calls to the address return; what is left of them is returned.\<close>

definition Connect ::
  "bool \<Rightarrow> (sockaddr_in \<Rightarrow> connect_result list) \<Rightarrow> sockaddr_in \<Rightarrow> connect_result list outcome" where
  "Connect nonblock results addr =
     (if nonblock then connect_loop (results (GetAddr addr)) else connect_once (results (GetAddr addr)))"

definition Connect_ip ::
  "bool \<Rightarrow> (sockaddr_in \<Rightarrow> connect_result list) \<Rightarrow> string \<Rightarrow> 16 word \<Rightarrow> connect_result list outcome" where
  "Connect_ip nonblock results ip port = Connect nonblock results (InetAddress ip port)"

section \<open>When the calls return\<close>

text \<open>\<open>accept\<close> on a non-blocking socket spins over \<open>EAGAIN\<close>, so it takes the next real result.\<close>

lemma accept_loop_once: "accept_loop rs = accept_once (dropWhile (\<lambda>r. r = Accept_EAGAIN) rs)"
  by (induction rs rule: accept_loop.induct) auto

text \<open>
  A connect that is still in progress is repeated; POSIX lets the repeated call fail with \<open>EALREADY\<close>
  or \<open>EISCONN\<close>, which ends the process.
\<close>

lemma connect_loop_result:
  "connect_loop rs =
     (case dropWhile (\<lambda>r. r = Connect_EINPROGRESS) rs of
        [] \<Rightarrow> None
      | r # rs' \<Rightarrow> if r = Connect_ok then ret rs' else fail (Exit ''socket connect error''))"
  by (induction rs rule: connect_loop.induct) auto

end
