(* ===== verification/EventLoop.thy ===== *)
theory EventLoop
  imports Server
begin

text \<open>
  The event loop of a sub reactor (\<open>EventLoop::Loop\<close> in \<open>src/network/EventLoop.cpp\<close>, with the body of
  \<open>Epoll::Poll\<close>), on the connections of the server's table: a round first stores the reported events
  in all ready channels and then lets each of them handle its own. The lists that \<open>epoll_wait\<close>
  returns are inputs.

  The locale \<open>message_handler\<close> is the interface between the library and the user's message callback: its
  law is what the loop needs of a callback, its lemmas are what the loop gives.
\<close>

section \<open>One round\<close>

text \<open>\<open>Poll\<close> stores the events of one ready channel; \<open>data.ptr\<close> is the channel of a connection.\<close>

definition set_ready :: "int \<Rightarrow> 32 word \<Rightarrow> 'k server \<Rightarrow> 'k server outcome" where
  "set_ready fd ev s =
     (case connections s fd of
        None \<Rightarrow> fail Bad_pointer
      | Some c \<Rightarrow>
          ret (s\<lparr>connections := (connections s)(fd \<mapsto> c\<lparr>conn_channel := SetReadyEvents ev (conn_channel c)\<rparr>)\<rparr>))"

fun poll_ready :: "(int \<times> 32 word) list \<Rightarrow> 'k server \<Rightarrow> 'k server outcome" where
  "poll_ready [] s = ret s"
| "poll_ready ((fd, ev) # evs) s = obind (set_ready fd ev s) (poll_ready evs)"

definition handle_ready ::
  "'k epoll_ctl \<Rightarrow> ('k conn \<Rightarrow> 'k conn outcome) \<Rightarrow> int \<Rightarrow> 'k server \<Rightarrow> 'k server outcome" where
  "handle_ready ctl on_message fd s =
     (case connections s fd of
        None \<Rightarrow> fail Bad_pointer
      | Some c \<Rightarrow>
          (let r = reactor s fd in
           obind (HandleEvent (\<lambda>(c, k). ready_events (conn_channel c))
                    (Some (Business (delete_cb ctl s) on_message)) None (Some (Close (delete_cb ctl s)))
                    (c, sub_reactors s ! r)) (\<lambda>ck. ret (store fd r ck s))))"

fun handle_all ::
  "'k epoll_ctl \<Rightarrow> ('k conn \<Rightarrow> 'k conn outcome) \<Rightarrow> int list \<Rightarrow> 'k server \<Rightarrow> 'k server outcome" where
  "handle_all ctl on_message [] s = ret s"
| "handle_all ctl on_message (fd # fds) s =
     obind (handle_ready ctl on_message fd s) (handle_all ctl on_message fds)"

text \<open>\<open>epoll_wait\<close> returning -1 (\<open>None\<close>) ends the process.\<close>

definition loop_round ::
  "'k epoll_ctl \<Rightarrow> ('k conn \<Rightarrow> 'k conn outcome) \<Rightarrow> (int \<times> 32 word) list option \<Rightarrow> 'k server \<Rightarrow> 'k server outcome" where
  "loop_round ctl on_message nfds s =
     (case nfds of
        None \<Rightarrow> fail (Exit ''epoll wait error'')
      | Some evs \<Rightarrow> obind (poll_ready evs s) (handle_all ctl on_message (map fst evs)))"

text \<open>
  The loop: \<open>quit_\<close> is false and nothing sets it, so it goes on as long as the kernel reports events;
  when the list of reports is used up the thread waits in \<open>epoll_wait\<close>.
\<close>

fun Loop ::
  "'k epoll_ctl \<Rightarrow> ('k conn \<Rightarrow> 'k conn outcome) \<Rightarrow> bool \<Rightarrow> (int \<times> 32 word) list option list
    \<Rightarrow> 'k server \<Rightarrow> 'k server outcome" where
  "Loop ctl on_message quit [] s = (if quit then ret s else None)"
| "Loop ctl on_message quit (nfds # rounds) s =
     (if quit then ret s
      else obind (loop_round ctl on_message nfds s) (Loop ctl on_message quit rounds))"

lemma Loop_never_returns: "Loop ctl on_message False rounds s \<noteq> ret s'"
  by (induction ctl on_message "False" rounds s rule: Loop.induct) (auto elim!: obind_eq_retE)

section \<open>A round is its events in turn\<close>

text \<open>The events of a round, each stored and handled before the next is looked at.\<close>

fun in_turn ::
  "'k epoll_ctl \<Rightarrow> ('k conn \<Rightarrow> 'k conn outcome) \<Rightarrow> (int \<times> 32 word) list \<Rightarrow> 'k server \<Rightarrow> 'k server outcome" where
  "in_turn ctl on_message [] s = ret s"
| "in_turn ctl on_message ((fd, ev) # evs) s =
     obind (connection_event ctl on_message fd ev s) (in_turn ctl on_message evs)"

lemma delete_cb_cong:
  "connections s fd = None \<longleftrightarrow> connections s' fd = None \<Longrightarrow> delete_cb ctl s fd ck = delete_cb ctl s' fd ck"
  by (simp add: delete_cb_def)

lemma delete_cb_dom: "dom (connections s) = dom (connections s') \<Longrightarrow> delete_cb ctl s = delete_cb ctl s'"
  by (intro ext delete_cb_cong) (metis domIff)

lemma connection_event_split:
  "connection_event ctl on_message fd ev s = obind (set_ready fd ev s) (handle_ready ctl on_message fd)"
proof (cases "connections s fd")
  case (Some c)
  let ?s = "s\<lparr>connections := (connections s)(fd \<mapsto> c\<lparr>conn_channel := SetReadyEvents ev (conn_channel c)\<rparr>)\<rparr>"
  have "delete_cb ctl ?s = delete_cb ctl s" using Some by (intro delete_cb_dom) auto
  moreover have "store fd r ck ?s = store fd r ck s" for r ck by (cases ck) (simp add: store_def)
  ultimately show ?thesis
    using Some by (simp add: connection_event_def set_ready_def handle_ready_def Let_def reactor_def)
qed (simp add: connection_event_def set_ready_def)

lemma dom_store [simp]: "connections s fd \<noteq> None \<Longrightarrow> dom (connections (store fd r ck s)) = dom (connections s)"
  by (cases ck) auto

lemma handle_all_Cons:
  "handle_all ctl on_message (fd # fds) = (\<lambda>s. obind (handle_ready ctl on_message fd s) (handle_all ctl on_message fds))"
  by (rule ext) simp

lemma handle_ready_dom:
  "handle_ready ctl on_message fd s = ret s' \<Longrightarrow> dom (connections s') = dom (connections s)"
  by (cases "connections s fd") (auto simp: handle_ready_def Let_def elim!: obind_eq_retE split: if_splits)

text \<open>Handling one connection neither reads nor changes the events stored for another.\<close>

lemma handle_set_commute:
  assumes "fd \<noteq> fd'" and "connections s fd' \<noteq> None"
  shows "obind (set_ready fd' ev s) (handle_ready ctl on_message fd)
       = obind (handle_ready ctl on_message fd s) (set_ready fd' ev)"
proof (cases "connections s fd")
  case None
  then show ?thesis using assms by (auto simp: set_ready_def handle_ready_def)
next
  case (Some c)
  obtain c' where c': "connections s fd' = Some c'" using assms(2) by auto
  let ?u = "\<lambda>s. s\<lparr>connections := (connections s)(fd' \<mapsto> c'\<lparr>conn_channel := SetReadyEvents ev (conn_channel c')\<rparr>)\<rparr>"
  have "delete_cb ctl (?u s) = delete_cb ctl s" using c' by (intro delete_cb_dom) auto
  moreover have "store fd r ck (?u s) = ?u (store fd r ck s)" for r ck
    using assms(1) by (cases ck) (simp add: store_def fun_upd_twist)
  moreover have "set_ready fd' ev (store fd r ck s) = ret (?u (store fd r ck s))" for r ck
    using assms(1) c' by (cases ck) (simp add: set_ready_def)
  ultimately show ?thesis
    using Some assms(1) c'
    by (simp add: set_ready_def handle_ready_def Let_def reactor_def obind_assoc)
qed

lemma poll_handle_commute:
  assumes "fd \<notin> fst ` set evs" and "fst ` set evs \<subseteq> dom (connections s)"
  shows "obind (poll_ready evs s) (handle_ready ctl on_message fd)
       = obind (handle_ready ctl on_message fd s) (poll_ready evs)"
  using assms
proof (induction evs arbitrary: s)
  case Nil
  then show ?case
    by (cases "handle_ready ctl on_message fd s") (auto simp: obind_def ret_def split: sum.splits)
next
  case (Cons e evs)
  obtain fd' ev where e: "e = (fd', ev)" by (cases e)
  then obtain c' where c': "connections s fd' = Some c'" using Cons.prems by auto
  let ?s = "s\<lparr>connections := (connections s)(fd' \<mapsto> c'\<lparr>conn_channel := SetReadyEvents ev (conn_channel c')\<rparr>)\<rparr>"
  have set': "set_ready fd' ev s = ret ?s" using c' by (simp add: set_ready_def)
  have "obind (poll_ready (e # evs) s) (handle_ready ctl on_message fd)
      = obind (handle_ready ctl on_message fd ?s) (poll_ready evs)"
  proof -
    have "fst ` set evs \<subseteq> dom (connections ?s)" "fd \<notin> fst ` set evs" using Cons.prems by auto
    from Cons.IH [OF this(2,1)] show ?thesis using set' e by simp
  qed
  also have "\<dots> = obind (obind (handle_ready ctl on_message fd s) (set_ready fd' ev)) (poll_ready evs)"
    using handle_set_commute [of fd fd' s ev ctl on_message] Cons.prems c' set' e by simp
  finally show ?case using e by (simp add: obind_assoc)
qed

lemma round_in_turn:
  assumes "distinct (map fst evs)" and "fst ` set evs \<subseteq> dom (connections s)"
  shows "loop_round ctl on_message (Some evs) s = in_turn ctl on_message evs s"
proof -
  have "obind (poll_ready evs s) (handle_all ctl on_message (map fst evs)) = in_turn ctl on_message evs s"
    using assms
  proof (induction evs arbitrary: s)
    case (Cons e evs)
    obtain fd ev where e: "e = (fd, ev)" by (cases e)
    then obtain c where c: "connections s fd = Some c" using Cons.prems by auto
    let ?s = "s\<lparr>connections := (connections s)(fd \<mapsto> c\<lparr>conn_channel := SetReadyEvents ev (conn_channel c)\<rparr>)\<rparr>"
    have set': "set_ready fd ev s = ret ?s" using c by (simp add: set_ready_def)
    have dom': "fst ` set evs \<subseteq> dom (connections ?s)" using Cons.prems by auto
    have "obind (poll_ready (e # evs) s) (handle_all ctl on_message (map fst (e # evs)))
        = obind (obind (poll_ready evs ?s) (handle_ready ctl on_message fd)) (handle_all ctl on_message (map fst evs))"
      using set' e by (simp add: obind_assoc handle_all_Cons del: handle_all.simps)
    also have "\<dots> = obind (handle_ready ctl on_message fd ?s)
        (\<lambda>s. obind (poll_ready evs s) (handle_all ctl on_message (map fst evs)))"
      using poll_handle_commute [of fd evs ?s ctl on_message] Cons.prems e dom' by (simp add: obind_assoc)
    also have "\<dots> = obind (handle_ready ctl on_message fd ?s) (in_turn ctl on_message evs)"
    proof (cases "\<exists>s1. handle_ready ctl on_message fd ?s = ret s1")
      case True
      then obtain s1 where s1: "handle_ready ctl on_message fd ?s = ret s1" by blast
      have "fst ` set evs \<subseteq> dom (connections s1)" using handle_ready_dom [OF s1] dom' by simp
      then show ?thesis using Cons.IH [of s1] Cons.prems s1 by simp
    next
      case False
      then show ?thesis by (auto simp: obind_def ret_def split: option.splits sum.splits)
    qed
    finally show ?case using e set' by (simp add: connection_event_split del: handle_all.simps)
  qed simp
  then show ?thesis by (simp add: loop_round_def)
qed

section \<open>What a step on a connection leaves alone\<close>

text \<open>
  The descriptors of the table, the number of reactors, and every entry of an interest list that is
  not the entry of a connection in its own reactor.
\<close>

definition same_rest :: "('k \<Rightarrow> int \<rightharpoonup> 32 word) \<Rightarrow> 'k server \<Rightarrow> 'k server \<Rightarrow> bool" where
  "same_rest interest s s' \<longleftrightarrow>
     dom (connections s') = dom (connections s) \<and> length (sub_reactors s') = length (sub_reactors s)
     \<and> (\<forall>r < length (sub_reactors s). \<forall>fd. fd \<notin> dom (connections s) \<or> reactor s fd \<noteq> r \<longrightarrow>
          interest (sub_reactors s' ! r) fd = interest (sub_reactors s ! r) fd)"

lemma same_rest_refl [simp]: "same_rest interest s s"
  by (simp add: same_rest_def)

lemma same_rest_trans:
  "same_rest interest s1 s2 \<Longrightarrow> same_rest interest s2 s3 \<Longrightarrow> same_rest interest s1 s3"
  by (simp add: same_rest_def reactor_def)

lemma same_rest_store:
  assumes "connections s fd \<noteq> None"
    and "\<And>fd'. fd' \<noteq> fd \<Longrightarrow> interest k fd' = interest (sub_reactors s ! reactor s fd) fd'"
  shows "same_rest interest s (store fd (reactor s fd) (c, k) s)"
  unfolding same_rest_def
proof (intro conjI allI impI)
  show "dom (connections (store fd (reactor s fd) (c, k) s)) = dom (connections s)"
    using assms(1) by (rule dom_store)
next
  fix r fd' assume r: "r < length (sub_reactors s)" "fd' \<notin> dom (connections s) \<or> reactor s fd' \<noteq> r"
  then have "fd' \<noteq> fd \<or> r \<noteq> reactor s fd" using assms(1) by auto
  then show "interest (sub_reactors (store fd (reactor s fd) (c, k) s) ! r) fd' = interest (sub_reactors s ! r) fd'"
    using assms(2) [of fd'] r(1) by (cases "r = reactor s fd") auto
qed simp

text \<open>Sending waits or returns; so the periodic check waits or returns, and keeps the table good.\<close>

lemma write_loop_returns: "yields {} (\<lambda>_. True) (write_loop buf left ws c)"
  by (induction buf left ws c rule: write_loop.induct)
    (auto simp: Let_def split: write_result.splits)

lemma WriteBlocking_returns: "yields {} (\<lambda>_. True) (WriteBlocking c)"
  by (auto simp: WriteBlocking_def Let_def split: list.splits write_result.splits)

lemma Write_returns: "yields E (\<lambda>_. True) (Write c)"
proof -
  have "yields {} (\<lambda>_. True) (Write c)"
    unfolding Write_def WriteNonBlocking_def
    by (auto intro!: yields_bind [of _ "\<lambda>_. True"] write_loop_returns WriteBlocking_returns)
  then show ?thesis by (rule yields_mono) simp_all
qed

lemma Send_returns: "yields E (\<lambda>_. True) (Send msg c)"
  unfolding Send_def by (rule Write_returns)

lemma drop_one_rest:
  assumes "epoll_instance ctl interest" and "server_ok interest s" and "connections s fd = Some c"
    and "Send msg c = ret c1"
  shows "\<exists>ck. deleteConnection ctl (c1, sub_reactors s ! reactor s fd) = ret ck
    \<and> server_ok interest (store fd (reactor s fd) ck s) \<and> same_rest interest s (store fd (reactor s fd) ck s)"
proof -
  let ?k = "sub_reactors s ! reactor s fd"
  have "conn_ok interest fd c ?k" using assms(2,3) by (auto simp: server_ok_def)
  then have "conn_ok interest fd c1 ?k" using Send_frame [OF assms(4)] by (auto simp: conn_ok_def)
  then obtain c' k' where d: "deleteConnection ctl (c1, ?k) = ret (c', k')" "interest k' = (interest ?k)(fd := None)"
    using deleteConnection_ok [OF assms(1)] by blast
  moreover have "server_ok interest (store fd (reactor s fd) (c', k') s)"
    using drop_one [OF assms] d(1) by auto
  ultimately show ?thesis using same_rest_store [of s fd interest k' c'] assms(3) by auto
qed

lemma check_loop_safe:
  assumes "epoll_instance ctl interest" and "server_ok interest s" and "set order \<subseteq> dom (connections s)"
  shows "yields {} (\<lambda>(s', del). server_ok interest s' \<and> same_rest interest s s') (check_loop ctl order nows s)"
  using assms
proof (induction ctl order nows s rule: check_loop.induct)
  case (3 ctl fd fds now nows s)
  obtain c where c: "connections s fd = Some c" using 3(5) by auto
  show ?case
  proof (cases "now - conn_context c > idle_limit")
    case False
    then show ?thesis using 3(2) [OF c False] 3(3-5) c by simp
  next
    case True
    have "yields {} (\<lambda>(s', del). server_ok interest s' \<and> same_rest interest s s')
      (obind (Send ''You are cleared!'' c) (\<lambda>c. obind (deleteConnection ctl (c, sub_reactors s ! reactor s fd)) (\<lambda>ck.
         obind (check_loop ctl fds nows (store fd (reactor s fd) ck s)) (\<lambda>(s, del). ret (s, fd # del)))))"
    proof (rule yields_bind [OF Send_returns])
      fix c1 assume c1: "Send ''You are cleared!'' c = ret c1"
      obtain ck where d: "deleteConnection ctl (c1, sub_reactors s ! reactor s fd) = ret ck"
        "server_ok interest (store fd (reactor s fd) ck s)" "same_rest interest s (store fd (reactor s fd) ck s)"
        using drop_one_rest [OF 3(3,4) c c1] by blast
      have "set fds \<subseteq> dom (connections (store fd (reactor s fd) ck s))"
        using d(3) 3(5) by (simp add: same_rest_def)
      from 3(1) [OF c True refl 3(3) d(2) this]
      have "yields {} (\<lambda>(s', del). server_ok interest s' \<and> same_rest interest (store fd (reactor s fd) ck s) s')
        (check_loop ctl fds nows (store fd (reactor s fd) ck s))" .
      then show "yields {} (\<lambda>(s', del). server_ok interest s' \<and> same_rest interest s s')
        (obind (deleteConnection ctl (c1, sub_reactors s ! reactor s fd)) (\<lambda>ck.
           obind (check_loop ctl fds nows (store fd (reactor s fd) ck s)) (\<lambda>(s, del). ret (s, fd # del))))"
        using same_rest_trans [OF d(3)] by (auto simp: d(1) elim!: yields_bind)
    qed
    then show ?thesis using c True by (simp add: Let_def)
  qed
qed simp_all

lemma delete_all_safe:
  assumes "epoll_instance ctl interest" and "server_ok interest s"
  shows "yields {} (\<lambda>s'. server_ok interest s' \<and> same_rest interest s s') (delete_all ctl fds s)"
  using assms(2)
proof (induction fds arbitrary: s)
  case (Cons fd fds)
  have "yields {} (\<lambda>s'. server_ok interest s' \<and> same_rest interest s s') (DeleteConnection ctl fd s)"
  proof (cases "connections s fd")
    case (Some c)
    then have "conn_ok interest fd c (sub_reactors s ! reactor s fd)" using Cons.prems by (auto simp: server_ok_def)
    then obtain c' k' where d: "deleteConnection ctl (c, sub_reactors s ! reactor s fd) = ret (c', k')"
      "interest k' = (interest (sub_reactors s ! reactor s fd))(fd := None)"
      using deleteConnection_ok [OF assms(1)] by blast
    then have "DeleteConnection ctl fd s = ret (store fd (reactor s fd) (c', k') s)"
      using Some by (simp add: DeleteConnection_def)
    moreover have "server_ok interest (store fd (reactor s fd) (c', k') s)"
      using DeleteConnection_ok [OF assms(1) Cons.prems, of fd] calculation by auto
    ultimately show ?thesis using same_rest_store [of s fd interest k' c'] Some d(2) by simp
  qed (use Cons.prems in \<open>simp add: DeleteConnection_def\<close>)
  then show ?case
    by (auto intro!: yields_bind elim!: yields_mono [OF Cons.IH] dest: same_rest_trans)
qed simp

lemma check_safe:
  assumes "epoll_instance ctl interest" and "server_ok interest s" and "set order \<subseteq> dom (connections s)"
  shows "yields {} (\<lambda>s'. server_ok interest s' \<and> same_rest interest s s') (CheckActiveConnection ctl order nows s)"
  unfolding CheckActiveConnection_def
  by (rule yields_bind [OF check_loop_safe [OF assms]])
    (auto elim!: yields_mono [OF delete_all_safe [OF assms(1)]] dest: same_rest_trans)

section \<open>The interface of a message callback\<close>

text \<open>
  The library hands every message of a good connection to \<open>on_message\<close>. The law: it waits for the
  environment, ends the process only in one of the ways \<open>E\<close>, or gives a good connection back.
\<close>

locale message_handler = epoll_instance ctl interest
  for ctl :: "'k epoll_ctl" and interest :: "'k \<Rightarrow> int \<rightharpoonup> 32 word" +
  fixes E :: "fault set"
    and on_message :: "'k conn \<Rightarrow> 'k conn outcome"
  assumes handler_law: "conn_ok interest fd c k \<Longrightarrow> safe_step E interest fd k (on_message (c, k))"
begin

lemma event_step:
  assumes "server_ok interest s" and "connections s fd \<noteq> None" and "ev AND EPOLLOUT = 0"
  shows "yields E (\<lambda>s'. server_ok interest s' \<and> same_rest interest s s') (connection_event ctl on_message fd ev s)"
proof -
  obtain c where c: "connections s fd = Some c" using assms(2) by blast
  note cases = event_ok [OF epoll_instance_axioms assms(1) c assms(3), of E on_message]
  consider "connection_event ctl on_message fd ev s = None"
    | f where "f \<in> E" "connection_event ctl on_message fd ev s = fail f"
    | c' k' where "connection_event ctl on_message fd ev s = ret (store fd (reactor s fd) (c', k') s)"
        "server_ok interest (store fd (reactor s fd) (c', k') s)"
        "\<And>fd'. fd' \<noteq> fd \<Longrightarrow> interest k' fd' = interest (sub_reactors s ! reactor s fd) fd'"
    using cases handler_law by metis
  then show ?thesis
  proof cases
    case (3 c' k')
    then show ?thesis using same_rest_store [OF assms(2), of interest k' c'] by simp
  qed simp_all
qed

text \<open>A run of events keeps the table good and its descriptors, and ends the process only as \<open>E\<close> says.\<close>

lemma in_turn_safe:
  assumes "server_ok interest s" and "fst ` set evs \<subseteq> dom (connections s)"
    and "\<forall>(fd, ev) \<in> set evs. ev AND EPOLLOUT = 0"
  shows "yields E (\<lambda>s'. server_ok interest s' \<and> same_rest interest s s') (in_turn ctl on_message evs s)"
  using assms
proof (induction evs arbitrary: s)
  case (Cons e evs)
  obtain fd ev where e: "e = (fd, ev)" by (cases e)
  have fd: "connections s fd \<noteq> None" "ev AND EPOLLOUT = 0" using Cons.prems(2,3) e by auto
  show ?case
    unfolding e in_turn.simps
  proof (rule yields_bind [OF event_step [OF Cons.prems(1) fd]])
    fix s1 assume s1: "server_ok interest s1 \<and> same_rest interest s s1"
    then have "fst ` set evs \<subseteq> dom (connections s1)" using Cons.prems(2) by (auto simp: same_rest_def)
    then show "yields E (\<lambda>s'. server_ok interest s' \<and> same_rest interest s s') (in_turn ctl on_message evs s1)"
      using Cons.IH [of s1] s1 Cons.prems(3) by (auto elim!: yields_mono dest: same_rest_trans)
  qed
qed simp

lemma round_safe:
  assumes "server_ok interest s" and "fst ` set evs \<subseteq> dom (connections s)" and "distinct (map fst evs)"
    and "\<forall>(fd, ev) \<in> set evs. ev AND EPOLLOUT = 0"
  shows "yields E (\<lambda>s'. server_ok interest s' \<and> same_rest interest s s') (loop_round ctl on_message (Some evs) s)"
  using in_turn_safe [OF assms(1,2,4)] round_in_turn [OF assms(3,2)] by simp

end

end
