(* ===== verification/Acceptor.thy ===== *)
theory Acceptor
  imports Socket EventLoop
begin

text \<open>
  The acceptor (\<open>src/network/Acceptor.cpp\<close>): a listening socket with a channel on the main reactor whose
  read callback accepts one connection, makes it non-blocking and passes its descriptor on. Where the
  code passes a descriptor, the model passes the kernel's socket behind it.
\<close>

section \<open>State and operations\<close>

record acceptor =
  acc_sock :: listen_sock
  acc_channel :: channel

text \<open>\<open>s\<close> is the socket the call \<open>socket\<close> has made; its descriptor is -1 when the call failed.\<close>

definition Acceptor ::
  "'k epoll_ctl \<Rightarrow> listen_sock \<Rightarrow> bool \<Rightarrow> bool \<Rightarrow> 'k \<Rightarrow> (acceptor \<times> 'k) outcome" where
  "Acceptor ctl s bind_fails listen_fails k =
     obind (Socket (lsn_fd s)) (\<lambda>fd.
     obind (Bind bind_fails (InetAddress ''127.0.0.1'' 1234) s) (\<lambda>s.
     obind (Listen listen_fails s) (\<lambda>s.
     obind (EnableRead ctl (Channel fd) k) (\<lambda>(ch, k).
     ret (\<lparr>acc_sock = s, acc_channel = ch\<rparr>, k)))))"

type_synonym 's connection_callback = "(sock \<Rightarrow> 's \<Rightarrow> 's outcome) option"

definition AcceptConnection :: "'s connection_callback \<Rightarrow> acceptor \<times> 's \<Rightarrow> (acceptor \<times> 's) outcome" where
  "AcceptConnection cb = (\<lambda>(a, s).
     obind (Accept InetAddress_zero (acc_sock a)) (\<lambda>(so, clnt_addr, lsn).
     obind (Socket (sock_fd so)) (\<lambda>_.
     let a = a\<lparr>acc_sock := lsn\<rparr>; so = snd (SetNonBlocking so) in
     case cb of
       None \<Rightarrow> fail Bad_function
     | Some f \<Rightarrow> obind (f so s) (\<lambda>s. ret (a, s)))))"

text \<open>
  The main reactor handles an event of the acceptor's channel; the server has installed
  \<open>NewConnection\<close> as its callback. The channel has no close and no write callback.
\<close>

definition acceptor_event ::
  "'k epoll_ctl \<Rightarrow> ('k conn \<Rightarrow> 'k conn outcome) option \<Rightarrow> int \<Rightarrow> 32 word \<Rightarrow> acceptor \<times> 'k server
    \<Rightarrow> (acceptor \<times> 'k server) outcome" where
  "acceptor_event ctl new_connect spare ev = (\<lambda>(a, s).
     HandleEvent (\<lambda>(a, s). ready_events (acc_channel a))
       (Some (AcceptConnection (Some (NewConnection ctl new_connect spare)))) None None
       (a\<lparr>acc_channel := SetReadyEvents ev (acc_channel a)\<rparr>, s))"

section \<open>Accepting a connection\<close>

text \<open>A listening, blocking socket whose channel is registered on the main reactor.\<close>

definition acceptor_ok :: "('k \<Rightarrow> int \<rightharpoonup> 32 word) \<Rightarrow> acceptor \<Rightarrow> 'k \<Rightarrow> bool" where
  "acceptor_ok interest a k \<longleftrightarrow>
     lsn_listening (acc_sock a) \<and> \<not> lsn_nonblocking (acc_sock a)
     \<and> lsn_addr (acc_sock a) = Some (InetAddress ''127.0.0.1'' 1234)
     \<and> ch_fd (acc_channel a) = lsn_fd (acc_sock a) \<and> never_writes (acc_channel a)
     \<and> ready_events (acc_channel a) AND EPOLLOUT = 0
     \<and> in_epoll (acc_channel a) \<and> interest k (lsn_fd (acc_sock a)) \<noteq> None"

lemma Acceptor_ok:
  assumes ei: "epoll_instance ctl interest" and "lsn_fd s \<noteq> -1" and "\<not> lsn_nonblocking s"
    and "interest k (lsn_fd s) = None"
  shows "\<exists>a k'. Acceptor ctl s False False k = ret (a, k') \<and> acceptor_ok interest a k'
    \<and> lsn_queue (acc_sock a) = lsn_queue s \<and> ch_fd (acc_channel a) = lsn_fd s \<and> interest k' = (interest k)(lsn_fd s \<mapsto> (EPOLLIN OR EPOLLPRI))"
proof -
  let ?ch = "(Channel (lsn_fd s))\<lparr>listen_events := listen_events (Channel (lsn_fd s)) OR (EPOLLIN OR EPOLLPRI)\<rparr>"
  have "agrees interest ?ch k" using assms(4) by (simp add: agrees_def Channel_def)
  from epoll_instance.update_ok [OF ei this] obtain ch k' where
    ch: "EnableRead ctl (Channel (lsn_fd s)) k = ret (ch, k')" "ch = ?ch\<lparr>in_epoll := True\<rparr>"
    "interest k' = (interest k)(ch_fd ?ch \<mapsto> listen_events ?ch)"
    unfolding EnableRead_def by metis
  have "never_writes ch" by (rule never_writes_ops(1) [OF _ ch(1)]) simp
  then show ?thesis
    using assms(2,3) ch
    by (simp add: Acceptor_def Socket_def Bind_def Listen_def GetAddr_def acceptor_ok_def Channel_def)
qed

text \<open>
  Accepting ends the process when \<open>accept\<close> fails or no socket can be made for the connection, and
  otherwise files the new connection; it never calls an empty callback.
\<close>

lemma AcceptConnection_yields:
  assumes ei: "epoll_instance ctl interest" and ok: "server_ok interest s" "sub_reactors s \<noteq> []"
    and "acceptor_ok interest a km" and "benign_connect interest new_connect"
    and fresh: "\<And>so addr rs. lsn_queue (acc_sock a) = Accepted so addr # rs \<Longrightarrow>
      0 \<le> sock_fd so \<and> interest (sub_reactors s ! reactor s (sock_fd so)) (sock_fd so) = None"
  shows "yields {Exit ''socket accept error'', Exit ''socket create error''}
    (\<lambda>(a', s'). \<exists>so addr rs c k'. lsn_queue (acc_sock a) = Accepted so addr # rs
       \<and> a' = a\<lparr>acc_sock := (acc_sock a)\<lparr>lsn_queue := rs\<rparr>\<rparr>
       \<and> s' = store (sock_fd so) (reactor s (sock_fd so)) (c, k') s \<and> server_ok interest s'
       \<and> isConnected c \<and> conn_sock c = so\<lparr>nonblocking := True\<rparr>
       \<and> interest k' = (interest (sub_reactors s ! reactor s (sock_fd so)))
            (sock_fd so \<mapsto> (EPOLLIN OR EPOLLPRI OR EPOLLET)))
    (AcceptConnection (Some (NewConnection ctl new_connect spare)) (a, s))"
proof -
  have blocking: "\<not> lsn_nonblocking (acc_sock a)" using assms(4) by (simp add: acceptor_ok_def)
  show ?thesis
  proof (cases "lsn_queue (acc_sock a)")
    case Nil
    then show ?thesis using blocking by (simp add: AcceptConnection_def Accept_def)
  next
    case (Cons r rs)
    show ?thesis
    proof (cases r)
      case (Accepted so addr)
      then have q: "lsn_queue (acc_sock a) = Accepted so addr # rs" using Cons by simp
      let ?so = "so\<lparr>nonblocking := True\<rparr>"
      have fd: "0 \<le> sock_fd ?so" "interest (sub_reactors s ! reactor s (sock_fd ?so)) (sock_fd ?so) = None"
        using fresh [OF q] by simp_all
      have acc: "AcceptConnection (Some (NewConnection ctl new_connect spare)) (a, s)
          = obind (NewConnection ctl new_connect spare ?so s)
              (\<lambda>s'. ret (a\<lparr>acc_sock := (acc_sock a)\<lparr>lsn_queue := rs\<rparr>\<rparr>, s'))"
        using q blocking fd(1) by (simp add: AcceptConnection_def Accept_def Socket_def SetNonBlocking_def)
      show ?thesis
      proof (cases "spare = -1")
        case True
        then show ?thesis
          using acc fd(1) ok(2) by (simp add: NewConnection_def Connection_def)
      next
        case False
        have "yields {} (\<lambda>s'. \<exists>c k'. s' = store (sock_fd so) (reactor s (sock_fd so)) (c, k') s \<and> server_ok interest s'
            \<and> isConnected c \<and> conn_sock c = ?so
            \<and> interest k' = (interest (sub_reactors s ! reactor s (sock_fd so)))
                  (sock_fd so \<mapsto> (EPOLLIN OR EPOLLPRI OR EPOLLET)))
          (NewConnection ctl new_connect spare ?so s)"
          using NewConnection_benign [OF ei ok False fd assms(5)] by simp
        then show ?thesis
          unfolding acc by (rule yields_bind [OF yields_mono]) (use q in auto)
      qed
    qed (use Cons blocking in \<open>simp_all add: AcceptConnection_def Accept_def\<close>)
  qed
qed

end
