(* ===== verification/Server_Process.thy ===== *)
theory Server_Process
  imports Acceptor ThreadPool
begin

text \<open>
  The server as a process (\<open>Server::Server\<close>, \<open>Server::Start\<close> in \<open>src/network/Server.cpp\<close>, the constructors
  of \<open>EventLoop\<close>, \<open>Epoll\<close> and \<open>TimerQueue\<close>): a main reactor with the acceptor, and one reactor per
  processor for the connections. Accepting, a round of a reactor and the periodic check are the steps;
  every interleaving of the threads at that grain is a sequence of steps. (The program does not lock
  \<open>connections_\<close>, so on a real machine two steps may also overlap.)
\<close>

section \<open>Construction\<close>

text \<open>\<open>epoll_create1\<close> has returned \<open>epfd\<close>; \<open>k\<close> is the new, empty instance.\<close>

definition Epoll :: "int \<Rightarrow> 'k \<Rightarrow> 'k outcome" where
  "Epoll epfd k = obind (ErrorIf (epfd = -1) ''epoll create error'') (\<lambda>_. ret k)"

text \<open>A timer queue registers its descriptor, unless \<open>timerfd_create\<close> failed.\<close>

definition TimerQueue_channel :: "'k epoll_ctl \<Rightarrow> int \<Rightarrow> 'k \<Rightarrow> (channel option \<times> 'k) outcome" where
  "TimerQueue_channel ctl timerfd k =
     (if timerfd \<ge> 0 then
        obind (EnableRead ctl (Channel timerfd) k) (\<lambda>(ch, k).
        obind (UseET ctl ch k) (\<lambda>(ch, k).
        ret (Some ch, k)))
      else ret (None, k))"

definition EventLoop :: "'k epoll_ctl \<Rightarrow> int \<times> int \<Rightarrow> 'k \<Rightarrow> (channel option \<times> 'k) outcome" where
  "EventLoop ctl fds k = obind (Epoll (fst fds) k) (TimerQueue_channel ctl (snd fds))"

fun make_reactors :: "'k epoll_ctl \<Rightarrow> (int \<times> int) list \<Rightarrow> 'k \<Rightarrow> (channel option \<times> 'k) list outcome" where
  "make_reactors ctl [] k = ret []"
| "make_reactors ctl (fds # rest) k =
     obind (EventLoop ctl fds k) (\<lambda>l. obind (make_reactors ctl rest k) (\<lambda>ls. ret (l # ls)))"

record 'k process =
  main_reactor :: 'k
  main_timer :: "channel option"
  acceptor :: acceptor
  the_server :: "'k server"
  sub_timers :: "channel option list"
  pool :: thread_pool

text \<open>
  The constructor: \<open>fds\<close> are the epoll and timer descriptors of the sub reactors, as many as
  \<open>std::thread::hardware_concurrency()\<close> says, and \<open>k\<close> an empty epoll instance.
\<close>

definition Server ::
  "'k epoll_ctl \<Rightarrow> int \<times> int \<Rightarrow> listen_sock \<Rightarrow> bool \<Rightarrow> bool \<Rightarrow> (int \<times> int) list \<Rightarrow> 'k \<Rightarrow> 'k process outcome" where
  "Server ctl main_fds lsn bind_fails listen_fails fds k =
     obind (EventLoop ctl main_fds k) (\<lambda>(mt, km).
     obind (Acceptor ctl lsn bind_fails listen_fails km) (\<lambda>(a, km).
     obind (make_reactors ctl fds k) (\<lambda>ls.
     ret \<lparr>main_reactor = km, main_timer = mt, acceptor = a,
          the_server = \<lparr>connections = (\<lambda>_. None), sub_reactors = map snd ls\<rparr>,
          sub_timers = map fst ls, pool = ThreadPool (length fds)\<rparr>)))"

text \<open>\<open>Start\<close> hands the loop of every sub reactor to the pool before it enters its own.\<close>

fun add_loops :: "nat list \<Rightarrow> thread_pool \<Rightarrow> thread_pool outcome" where
  "add_loops [] q = ret q"
| "add_loops (i # is) q = obind (pool_add i q) (add_loops is)"

definition Start :: "'k process \<Rightarrow> 'k process outcome" where
  "Start p =
     obind (add_loops [0 ..< length (sub_reactors (the_server p))] (pool p)) (\<lambda>q. ret (p\<lparr>pool := q\<rparr>))"

lemma add_loops_threads:
  "\<not> stopped q \<Longrightarrow> add_loops is q = ret (q\<lparr>workers := workers q @ map Fresh is\<rparr>)"
  by (induction "is" arbitrary: q) (simp_all add: pool_add_def)

section \<open>Steps\<close>

definition is_timer :: "'k process \<Rightarrow> nat \<Rightarrow> int \<Rightarrow> bool" where
  "is_timer p r fd \<longleftrightarrow> (\<exists>ch. sub_timers p ! r = Some ch \<and> ch_fd ch = fd)"

text \<open>
  What the kernel may do. A ready list of a reactor names registered descriptors, each once, with
  events they were registered for; a new socket has a descriptor that no reactor knows.
\<close>

definition kernel_reports ::
  "('k \<Rightarrow> int \<rightharpoonup> 32 word) \<Rightarrow> 'k process \<Rightarrow> nat \<Rightarrow> (int \<times> 32 word) list \<Rightarrow> bool" where
  "kernel_reports interest p r evs \<longleftrightarrow>
     r < length (sub_reactors (the_server p)) \<and> distinct (map fst evs)
     \<and> (\<forall>(fd, ev) \<in> set evs. interest (sub_reactors (the_server p) ! r) fd \<noteq> None \<and> \<not> is_timer p r fd
          \<and> ev AND EPOLLOUT = 0)"

definition kernel_accepts :: "('k \<Rightarrow> int \<rightharpoonup> 32 word) \<Rightarrow> 'k process \<Rightarrow> bool" where
  "kernel_accepts interest p \<longleftrightarrow>
     (\<forall>so addr rs. lsn_queue (acc_sock (acceptor p)) = Accepted so addr # rs \<longrightarrow>
        0 \<le> sock_fd so \<and> (\<forall>k \<in> set (sub_reactors (the_server p)). interest k (sock_fd so) = None))"

text \<open>The outcomes of the three kinds of work that can be done in a state.\<close>

inductive process_work ::
  "'k epoll_ctl \<Rightarrow> ('k \<Rightarrow> int \<rightharpoonup> 32 word) \<Rightarrow> ('k conn \<Rightarrow> 'k conn outcome)
    \<Rightarrow> ('k conn \<Rightarrow> 'k conn outcome) option \<Rightarrow> 'k process \<Rightarrow> 'k process outcome \<Rightarrow> bool"
  for ctl interest on_message new_connect p where
  Accept_one: "kernel_accepts interest p \<Longrightarrow> ev AND EPOLLOUT = 0 \<Longrightarrow>
    process_work ctl interest on_message new_connect p
      (obind (acceptor_event ctl new_connect spare ev (acceptor p, the_server p))
         (\<lambda>(a, s). ret (p\<lparr>acceptor := a, the_server := s\<rparr>)))"
| Round: "kernel_reports interest p r evs \<Longrightarrow>
    process_work ctl interest on_message new_connect p
      (obind (loop_round ctl on_message (Some evs) (the_server p)) (\<lambda>s. ret (p\<lparr>the_server := s\<rparr>)))"
| Check: "set order \<subseteq> dom (connections (the_server p)) \<Longrightarrow>
    process_work ctl interest on_message new_connect p
      (obind (CheckActiveConnection ctl order nows (the_server p)) (\<lambda>s. ret (p\<lparr>the_server := s\<rparr>)))"

inductive process_reach ::
  "'k epoll_ctl \<Rightarrow> ('k \<Rightarrow> int \<rightharpoonup> 32 word) \<Rightarrow> ('k conn \<Rightarrow> 'k conn outcome)
    \<Rightarrow> ('k conn \<Rightarrow> 'k conn outcome) option \<Rightarrow> 'k process \<Rightarrow> 'k process \<Rightarrow> bool"
  for ctl interest on_message new_connect p0 where
  start: "process_reach ctl interest on_message new_connect p0 p0"
| step: "process_reach ctl interest on_message new_connect p0 p \<Longrightarrow>
    process_work ctl interest on_message new_connect p (ret p') \<Longrightarrow>
    process_reach ctl interest on_message new_connect p0 p'"

section \<open>Invariant\<close>

text \<open>Every entry of a reactor's interest list is its timer or a connection of the table that is its own.\<close>

definition owned :: "'k process \<Rightarrow> nat \<Rightarrow> int \<Rightarrow> bool" where
  "owned p r fd \<longleftrightarrow> is_timer p r fd \<or> fd \<in> dom (connections (the_server p)) \<and> reactor (the_server p) fd = r"

definition registered :: "('k \<Rightarrow> int \<rightharpoonup> 32 word) \<Rightarrow> 'k process \<Rightarrow> bool" where
  "registered interest p \<longleftrightarrow>
     (\<forall>r < length (sub_reactors (the_server p)). \<forall>fd.
        interest (sub_reactors (the_server p) ! r) fd \<noteq> None \<longrightarrow> owned p r fd)"

definition process_ok :: "('k \<Rightarrow> int \<rightharpoonup> 32 word) \<Rightarrow> 'k process \<Rightarrow> bool" where
  "process_ok interest p \<longleftrightarrow>
     server_ok interest (the_server p) \<and> sub_reactors (the_server p) \<noteq> []
     \<and> acceptor_ok interest (acceptor p) (main_reactor p) \<and> registered interest p"

lemma process_ok_rest:
  assumes "process_ok interest p" and "server_ok interest s" and "same_rest interest (the_server p) s"
  shows "process_ok interest (p\<lparr>the_server := s\<rparr>)"
proof -
  have len: "length (sub_reactors s) = length (sub_reactors (the_server p))"
    and dom: "dom (connections s) = dom (connections (the_server p))"
    using assms(3) by (simp_all add: same_rest_def)
  have owned: "owned (p\<lparr>the_server := s\<rparr>) r fd \<longleftrightarrow> owned p r fd" for r fd
    using len dom by (simp add: owned_def is_timer_def reactor_def)
  have "owned p r fd" if r: "r < length (sub_reactors s)" "interest (sub_reactors s ! r) fd \<noteq> None" for r fd
  proof (rule ccontr)
    assume no: "\<not> owned p r fd"
    then have "interest (sub_reactors s ! r) fd = interest (sub_reactors (the_server p) ! r) fd"
      using assms(3) r(1) len by (auto simp: same_rest_def owned_def)
    then show False using no assms(1) r len by (simp add: process_ok_def registered_def)
  qed
  moreover have "sub_reactors s \<noteq> []"
    using assms(1) len by (auto simp: process_ok_def simp flip: length_greater_0_conv)
  ultimately show ?thesis using assms(1,2) by (simp add: process_ok_def registered_def owned)
qed

lemma process_ok_accept:
  assumes "process_ok interest p" and "acceptor_ok interest a (main_reactor p)"
    and "server_ok interest s" and s: "s = store fd (reactor (the_server p) fd) (c, k') (the_server p)"
    and k': "interest k' = (interest (sub_reactors (the_server p) ! reactor (the_server p) fd))(fd \<mapsto> ev)"
  shows "process_ok interest (p\<lparr>acceptor := a, the_server := s\<rparr>)"
proof -
  let ?s = "the_server p"
  have "owned (p\<lparr>acceptor := a, the_server := s\<rparr>) r fd'"
    if r: "r < length (sub_reactors s)" "interest (sub_reactors s ! r) fd' \<noteq> None" for r fd'
  proof (cases "r = reactor ?s fd \<and> fd' = fd")
    case False
    then have "interest (sub_reactors ?s ! r) fd' \<noteq> None"
      using r s k' by (cases "r = reactor ?s fd") auto
    then have "owned p r fd'"
      using assms(1) r(1) s by (auto simp: process_ok_def registered_def)
    then show ?thesis using s by (auto simp: is_timer_def owned_def)
  qed (simp add: s owned_def)
  then show ?thesis using assms(1-3) s by (simp add: process_ok_def registered_def)
qed

section \<open>A server with a user's callbacks\<close>

text \<open>The interface of a server program: a message callback and a callback for new connections.\<close>

locale server_program = message_handler ctl interest E on_message
  for ctl :: "'k epoll_ctl" and interest :: "'k \<Rightarrow> int \<rightharpoonup> 32 word" and E :: "fault set"
    and on_message :: "'k conn \<Rightarrow> 'k conn outcome" +
  fixes new_connect :: "('k conn \<Rightarrow> 'k conn outcome) option"
  assumes new_connect_law: "benign_connect interest new_connect"
begin

lemma accept_work:
  assumes "process_ok interest p" and "kernel_accepts interest p" and "ev AND EPOLLOUT = 0"
  shows "yields {Exit ''socket accept error'', Exit ''socket create error''}
    (\<lambda>(a, s). process_ok interest (p\<lparr>acceptor := a, the_server := s\<rparr>)
       \<and> dom (connections (the_server p)) \<subseteq> dom (connections s))
    (acceptor_event ctl new_connect spare ev (acceptor p, the_server p))"
proof -
  let ?a = "(acceptor p)\<lparr>acc_channel := SetReadyEvents ev (acc_channel (acceptor p))\<rparr>" and ?s = "the_server p"
  let ?good = "\<lambda>(a, s). process_ok interest (p\<lparr>acceptor := a, the_server := s\<rparr>)
    \<and> dom (connections ?s) \<subseteq> dom (connections s) \<and> ready_events (acc_channel a) = ev"
  have ok: "server_ok interest ?s" "sub_reactors ?s \<noteq> []" "acceptor_ok interest ?a (main_reactor p)"
    using assms(1,3)
    by (simp_all add: process_ok_def acceptor_ok_def SetReadyEvents_def never_writes_def isWriting_def)
  have fresh: "0 \<le> sock_fd so \<and> interest (sub_reactors ?s ! reactor ?s (sock_fd so)) (sock_fd so) = None"
    if "lsn_queue (acc_sock ?a) = Accepted so addr # rs" for so addr rs
    using that assms(2) reactor_less [OF ok(2)] by (auto simp: kernel_accepts_def)
  have idle: "?good (?a, ?s)"
    using assms(1) ok(3) by (simp add: process_ok_def registered_def owned_def is_timer_def SetReadyEvents_def)
  have "yields {Exit ''socket accept error'', Exit ''socket create error''} ?good
      (AcceptConnection (Some (NewConnection ctl new_connect spare)) (?a, ?s))"
  proof (rule yields_mono [OF AcceptConnection_yields [OF epoll_instance_axioms ok new_connect_law fresh] subset_refl],
      goal_cases)
    case (2 x)
    then show ?case
      using process_ok_accept [OF assms(1)] ok(3) by (auto simp: acceptor_ok_def SetReadyEvents_def)
  qed blast
  then have "yields {Exit ''socket accept error'', Exit ''socket create error''} ?good
      (acceptor_event ctl new_connect spare ev (acceptor p, ?s))"
    using idle assms(3) unfolding acceptor_event_def HandleEvent_def call_def
    by (auto simp: SetReadyEvents_def intro!: yields_bind [of _ ?good])
  then show ?thesis by (rule yields_mono) auto
qed

text \<open>
  In every reachable state the invariant holds, and no work ends the process but for a failing \<open>accept\<close>,
  a socket that cannot be made, and the ways \<open>E\<close> of the message callback. No connection ever leaves the
  table, open or closed.
\<close>

lemma work_safe:
  assumes "process_ok interest p" and "process_work ctl interest on_message new_connect p m"
  shows "yields (E \<union> {Exit ''socket accept error'', Exit ''socket create error''})
    (\<lambda>p'. process_ok interest p' \<and> dom (connections (the_server p)) \<subseteq> dom (connections (the_server p'))) m"
  using assms(2)
proof cases
  case (Accept_one ev spare)
  show ?thesis
    unfolding Accept_one(1)
    by (rule yields_bind [OF yields_mono [OF accept_work [OF assms(1) Accept_one(2,3)]]]) auto
next
  case (Round r evs)
  have "fst ` set evs \<subseteq> dom (connections (the_server p))"
    using Round(2) assms(1) by (fastforce simp: kernel_reports_def process_ok_def registered_def owned_def)
  moreover have "distinct (map fst evs)" "\<forall>(fd, ev) \<in> set evs. ev AND EPOLLOUT = 0"
    using Round(2) by (auto simp: kernel_reports_def)
  moreover have "server_ok interest (the_server p)" using assms(1) by (simp add: process_ok_def)
  ultimately have "yields E (\<lambda>s'. server_ok interest s' \<and> same_rest interest (the_server p) s')
      (loop_round ctl on_message (Some evs) (the_server p))"
    by (intro round_safe)
  then show ?thesis
    unfolding Round(1)
    by (rule yields_bind [OF yields_mono]) (auto intro: process_ok_rest [OF assms(1)] simp: same_rest_def)
next
  case (Check order nows)
  have "server_ok interest (the_server p)" using assms(1) by (simp add: process_ok_def)
  from check_safe [OF epoll_instance_axioms this Check(2)] show ?thesis
    unfolding Check(1)
    by (rule yields_bind [OF yields_mono]) (auto intro: process_ok_rest [OF assms(1)] simp: same_rest_def)
qed

lemma reach_ok:
  assumes "process_reach ctl interest on_message new_connect p0 p" and "process_ok interest p0"
  shows "process_ok interest p \<and> dom (connections (the_server p0)) \<subseteq> dom (connections (the_server p))"
  using assms
proof induction
  case (step p p')
  then show ?case using work_safe [of p "ret p'"] by auto
qed simp

end

section \<open>The state after construction\<close>

text \<open>A fresh reactor watches its timer, if that.\<close>

definition fresh_reactor :: "('k \<Rightarrow> int \<rightharpoonup> 32 word) \<Rightarrow> int \<Rightarrow> channel option \<times> 'k \<Rightarrow> bool" where
  "fresh_reactor interest timerfd = (\<lambda>(t, k).
     (\<forall>fd. interest k fd \<noteq> None \<longrightarrow> fd = timerfd \<and> (\<exists>ch. t = Some ch \<and> ch_fd ch = fd))
     \<and> (\<forall>ch. t = Some ch \<longrightarrow> ready_events ch = 0))"

lemma EventLoop_ok:
  assumes "epoll_instance ctl interest" and "interest k = (\<lambda>_. None)" and "fst fds \<noteq> -1"
  shows "\<exists>l. EventLoop ctl fds k = ret l \<and> fresh_reactor interest (snd fds) l"
proof (cases "snd fds \<ge> 0")
  case True
  have "interest k (snd fds) = None" using assms(2) by simp
  then obtain ch1 k1 ch k' where "EnableRead ctl (Channel (snd fds)) k = ret (ch1, k1)"
    "UseET ctl ch1 k1 = ret (ch, k')" "ch_fd ch = snd fds" "ready_events ch = 0"
    "interest k' = (interest k)(snd fds \<mapsto> (EPOLLIN OR EPOLLPRI OR EPOLLET))"
    by (rule epoll_instance.enable_et_ok [OF assms(1)]) simp
  then show ?thesis
    using True assms(2,3) by (simp add: EventLoop_def Epoll_def TimerQueue_channel_def fresh_reactor_def)
next
  case False
  then show ?thesis using assms(2,3) by (simp add: EventLoop_def Epoll_def TimerQueue_channel_def fresh_reactor_def)
qed

lemma make_reactors_ok:
  assumes "epoll_instance ctl interest" and "interest k = (\<lambda>_. None)" and "\<forall>f \<in> set fds. fst f \<noteq> -1"
  shows "\<exists>ls. make_reactors ctl fds k = ret ls \<and> length ls = length fds
    \<and> (\<forall>l \<in> set ls. \<exists>timerfd \<in> snd ` set fds. fresh_reactor interest timerfd l)"
  using assms(3)
proof (induction fds)
  case (Cons f fds)
  obtain l where l: "EventLoop ctl f k = ret l" "fresh_reactor interest (snd f) l"
    using EventLoop_ok [OF assms(1,2), of f] Cons.prems by auto
  obtain ls where "make_reactors ctl fds k = ret ls" "length ls = length fds"
    "\<forall>l \<in> set ls. \<exists>timerfd \<in> snd ` set fds. fresh_reactor interest timerfd l"
    using Cons by auto
  then show ?case using l by auto
qed simp

lemma Server_ok:
  assumes "epoll_instance ctl interest" and "interest k = (\<lambda>_. None)"
    and "fst main_fds \<noteq> -1" and "\<forall>f \<in> set fds. fst f \<noteq> -1" and "fds \<noteq> []"
    and "lsn_fd lsn \<noteq> -1" and "lsn_fd lsn \<noteq> snd main_fds" and "\<not> lsn_nonblocking lsn"
  shows "\<exists>p. Server ctl main_fds lsn False False fds k = ret p \<and> process_ok interest p
    \<and> connections (the_server p) = (\<lambda>_. None) \<and> length (sub_reactors (the_server p)) = length fds
    \<and> lsn_queue (acc_sock (acceptor p)) = lsn_queue lsn \<and> pool p = ThreadPool (length fds)
    \<and> (\<forall>k \<in> set (sub_reactors (the_server p)). dom (interest k) \<subseteq> snd ` set fds)
    \<and> (\<forall>fd. interest (main_reactor p) fd \<noteq> None \<longrightarrow>
          fd = ch_fd (acc_channel (acceptor p)) \<or> (\<exists>ch. main_timer p = Some ch \<and> ch_fd ch = fd))
    \<and> (\<forall>ch. main_timer p = Some ch \<longrightarrow> ready_events ch = 0)"
proof -
  obtain t km where m: "EventLoop ctl main_fds k = ret (t, km)"
    "fresh_reactor interest (snd main_fds) (t, km)"
    using EventLoop_ok [OF assms(1-3)] by auto
  have "interest km (lsn_fd lsn) = None" using m(2) assms(7) by (auto simp: fresh_reactor_def)
  from Acceptor_ok [OF assms(1,6,8) this] obtain a km' where a: "Acceptor ctl lsn False False km = ret (a, km')"
    "acceptor_ok interest a km'" "lsn_queue (acc_sock a) = lsn_queue lsn" "ch_fd (acc_channel a) = lsn_fd lsn"
    "interest km' = (interest km)(lsn_fd lsn \<mapsto> (EPOLLIN OR EPOLLPRI))" by blast
  obtain ls where ls: "make_reactors ctl fds k = ret ls" "length ls = length fds"
    "\<forall>l \<in> set ls. \<exists>timerfd \<in> snd ` set fds. fresh_reactor interest timerfd l"
    using make_reactors_ok [OF assms(1,2,4)] by blast
  let ?p = "\<lparr>main_reactor = km', main_timer = t, acceptor = a,
    the_server = \<lparr>connections = (\<lambda>_. None), sub_reactors = map snd ls\<rparr>,
    sub_timers = map fst ls, pool = ThreadPool (length fds)\<rparr>"
  have "registered interest ?p"
    unfolding registered_def
  proof (intro allI impI)
    fix r fd
    assume r: "r < length (sub_reactors (the_server ?p))" "interest (sub_reactors (the_server ?p) ! r) fd \<noteq> None"
    then have "ls ! r \<in> set ls" by simp
    then obtain timerfd where "fresh_reactor interest timerfd (ls ! r)" using ls(3) by blast
    then show "owned ?p r fd" using r by (auto simp: owned_def is_timer_def fresh_reactor_def case_prod_unfold)
  qed
  moreover have "ls \<noteq> []" using ls(2) assms(5) by auto
  moreover have "\<forall>k \<in> set (map snd ls). dom (interest k) \<subseteq> snd ` set fds"
    using ls(3) by (fastforce simp: fresh_reactor_def case_prod_unfold)
  ultimately have "process_ok interest ?p" "\<forall>k \<in> set (map snd ls). dom (interest k) \<subseteq> snd ` set fds"
    using a(2) by (simp_all add: process_ok_def server_ok_def)
  moreover have "Server ctl main_fds lsn False False fds k = ret ?p"
    using m(1) a(1) ls(1) by (simp add: Server_def)
  ultimately show ?thesis using a(3-5) m(2) ls(2) by (simp add: fresh_reactor_def)
qed

end
