(* ===== verification/Server_Programs.thy ===== *)
theory Server_Programs
  imports Server_Process Http_Example TimerQueue
begin

text \<open>
  The server programs as clients of the library (\<open>example/server.cpp\<close>, \<open>example/timer_server.cpp\<close>, and
  the HTTP server of \<open>src/http/HttpServer.cpp\<close>): their callbacks, and the interpretation of the locale
  \<open>server_program\<close> on each of them. What the programs print on the terminal is left out.
\<close>

section \<open>Threading a state of the program through the loop\<close>

text \<open>A reactor together with a further state \<open>'x\<close> that the callbacks work on.\<close>

definition lift_ctl :: "'k epoll_ctl \<Rightarrow> ('k \<times> 'x) epoll_ctl" where
  "lift_ctl ctl = (\<lambda>(k, x) op fd ev. map_option (\<lambda>k. (k, x)) (ctl k op fd ev))"

lemma lift_epoll:
  assumes "epoll_instance ctl interest"
  shows "epoll_instance (lift_ctl ctl) (\<lambda>(k, x). interest k)"
proof
  fix k :: "'a \<times> 'b" and fd ev
  assume "(case k of (k, x) \<Rightarrow> interest k) fd = None"
  then show "\<exists>k'. lift_ctl ctl k EPOLL_CTL_ADD fd ev = Some k'
      \<and> (case k' of (k, x) \<Rightarrow> interest k) = (case k of (k, x) \<Rightarrow> interest k)(fd \<mapsto> ev)"
    using epoll_instance.add_law [OF assms, of "fst k" fd ev]
    by (auto simp: lift_ctl_def split: prod.splits)
next
  fix k :: "'a \<times> 'b" and fd ev
  assume "(case k of (k, x) \<Rightarrow> interest k) fd \<noteq> None"
  then show "\<exists>k'. lift_ctl ctl k EPOLL_CTL_MOD fd ev = Some k'
      \<and> (case k' of (k, x) \<Rightarrow> interest k) = (case k of (k, x) \<Rightarrow> interest k)(fd \<mapsto> ev)"
    using epoll_instance.mod_law [OF assms, of "fst k" fd ev]
    by (auto simp: lift_ctl_def split: prod.splits)
next
  fix k :: "'a \<times> 'b" and fd ev
  assume "(case k of (k, x) \<Rightarrow> interest k) fd \<noteq> None"
  then show "\<exists>k'. lift_ctl ctl k EPOLL_CTL_DEL fd ev = Some k'
      \<and> (case k' of (k, x) \<Rightarrow> interest k) = (case k of (k, x) \<Rightarrow> interest k)(fd := None)"
    using epoll_instance.del_law [OF assms, of "fst k" fd ev]
    by (auto simp: lift_ctl_def split: prod.splits)
qed

section \<open>Sending from a callback\<close>

definition GetState :: "connection \<Rightarrow> conn_state" where
  "GetState c = conn_state c"

definition setContext :: "64 word \<Rightarrow> connection \<Rightarrow> connection" where
  "setContext t c = c\<lparr>conn_context := t\<rparr>"

definition getContext :: "connection \<Rightarrow> 64 word" where
  "getContext c = conn_context c"

lemma conn_ok_send: "conn_ok interest fd c k \<Longrightarrow> Send msg c = ret c' \<Longrightarrow> conn_ok interest fd c' k"
  using Send_frame [of msg c c'] by (auto simp: conn_ok_def)

lemma safe_step_send:
  assumes "conn_ok interest fd c k"
    and "\<And>c'. Send msg c = ret c' \<Longrightarrow> conn_ok interest fd c' k \<Longrightarrow> safe_step E interest fd k (f c')"
  shows "safe_step E interest fd k (obind (Send msg c) f)"
  using Send_returns [of "{}" msg c] assms conn_ok_send [OF assms(1)]
  by (auto simp: yields_def safe_step_def)

section \<open>The echo server\<close>

definition print_connection :: "'k conn \<Rightarrow> 'k conn outcome" where
  "print_connection = (\<lambda>(c, k). ret (c, k))"

definition echo_message :: "'k conn \<Rightarrow> 'k conn outcome" where
  "echo_message = (\<lambda>(c, k).
     if GetState c = Connected then obind (Send (ReadBuffer c) c) (\<lambda>c. ret (c, k)) else ret (c, k))"

lemma echo_law: "conn_ok interest fd c k \<Longrightarrow> safe_step {} interest fd k (echo_message (c, k))"
  by (auto simp: echo_message_def intro!: safe_step_send safe_step_ret)

interpretation echo: server_program map_ctl "\<lambda>k. k" "{}" echo_message "Some print_connection"
  by unfold_locales (auto simp: echo_law benign_connect_def print_connection_def same_wiring_def)

text \<open>What arrives goes out again, as far as the kernel takes it.\<close>

lemma echo_event:
  assumes "connections s fd = Some c" and "isConnected c" and "nonblocking (conn_sock c)"
    and "burst (incoming (conn_sock c)) = Some chunks" and nul: "CHR 0x00 \<notin> set (concat chunks)"
    and "accepted (length (concat chunks)) (outcomes (conn_sock c)) = Some n"
  shows "\<exists>s' c'. connection_event ctl echo_message fd EPOLLIN s = ret s' \<and> connections s' fd = Some c'
    \<and> wire (conn_sock c') = wire (conn_sock c) @ take n (concat chunks)
    \<and> (n = length (concat chunks) \<longrightarrow> isConnected c')"
proof -
  let ?c1 = "after_read chunks c" and ?k = "sub_reactors s ! reactor s fd"
  obtain c' where c': "Send (concat chunks) ?c1 = ret c'"
    "wire (conn_sock c') = wire (conn_sock c) @ take n (concat chunks)" "conn_channel c' = conn_channel ?c1"
    "n = length (concat chunks) \<longrightarrow> isConnected c'"
    using Send_accepted [of ?c1 "concat chunks" n] assms by (auto simp: isConnected_def)
  have "echo_message (?c1, ?k) = ret (c', ?k)"
    using assms(2) nul c'(1) by (simp add: echo_message_def GetState_def isConnected_def ReadBuffer_def ToStr_def)
  moreover have "ready_events (conn_channel c') = EPOLLIN" using c'(3) by (simp add: SetReadyEvents_def)
  ultimately show ?thesis using burst_event [OF assms(1-5)] c' by auto
qed

section \<open>The timer server\<close>

text \<open>The clock readings of a reactor's thread are part of its state; each call takes the next one.\<close>

definition next_reading :: "timeval list \<Rightarrow> (64 word \<times> timeval list) outcome" where
  "next_reading nows = (case nows of [] \<Rightarrow> None | t # ts \<Rightarrow> ret (ms_of t, ts))"

definition timer_connect :: "('k \<times> timeval list) conn \<Rightarrow> ('k \<times> timeval list) conn outcome" where
  "timer_connect = (\<lambda>(c, k, nows).
     if GetState c = Connected
     then obind (next_reading nows) (\<lambda>(t, nows). ret (setContext t c, k, nows))
     else ret (c, k, nows))"

definition timer_message :: "('k \<times> timeval list) conn \<Rightarrow> ('k \<times> timeval list) conn outcome" where
  "timer_message = (\<lambda>(c, k, nows).
     if GetState c = Connected
     then obind (Send (ReadBuffer c) c) (\<lambda>c.
          obind (next_reading nows) (\<lambda>(t, nows). ret (setContext t c, k, nows)))
     else ret (c, k, nows))"

lemma next_reading_yields: "yields {} (\<lambda>_. True) (next_reading nows)"
  by (simp add: next_reading_def split: list.splits)

lemma conn_ok_context [simp]: "conn_ok interest fd (setContext t c) k = conn_ok interest fd c k"
  by (simp add: conn_ok_def setContext_def)

lemma conn_ok_clock: "conn_ok (\<lambda>(k, x). interest k) fd c (k, x) = conn_ok interest fd c k"
  by (simp add: conn_ok_def agrees_def)

lemma timer_law:
  assumes "conn_ok (\<lambda>(k, nows). interest k) fd c k"
  shows "safe_step {} (\<lambda>(k, nows). interest k) fd k (timer_message (c, k))"
proof -
  obtain k0 nows where k: "k = (k0, nows)" by (cases k)
  have clock: "safe_step {} (\<lambda>(k, nows). interest k) fd (k0, nows)
      (obind (next_reading nows) (\<lambda>(t, nows). ret (setContext t c', k0, nows)))"
    if "conn_ok interest fd c' k0" for c'
    using that by (cases nows) (auto simp: next_reading_def safe_step_def conn_ok_clock)
  show ?thesis
    using assms clock
    by (auto simp: k timer_message_def conn_ok_clock intro!: safe_step_send safe_step_ret)
qed

interpretation timer: server_program "lift_ctl map_ctl" "\<lambda>(k, nows :: timeval list). k" "{}"
  timer_message "Some timer_connect"
proof (intro server_program.intro message_handler.intro message_handler_axioms.intro server_program_axioms.intro)
  show "epoll_instance (lift_ctl map_ctl) (\<lambda>(k, nows). k)" by (rule lift_epoll [OF map_epoll.epoll_instance_axioms])
  show "benign_connect (\<lambda>(k, nows). k) (Some timer_connect)"
    by (auto simp: benign_connect_def timer_connect_def same_wiring_def next_reading_def setContext_def
        split: list.splits)
qed (rule timer_law)

text \<open>
  A message sets the connection's clock to its time: a check up to two minutes later leaves the
  connection alone.
\<close>

lemma timer_event:
  assumes "connections s fd = Some c" and "isConnected c" and "nonblocking (conn_sock c)"
    and "burst (incoming (conn_sock c)) = Some chunks" and nul: "CHR 0x00 \<notin> set (concat chunks)"
    and "accepted (length (concat chunks)) (outcomes (conn_sock c)) = Some n"
    and "sub_reactors s ! reactor s fd = (k, t # nows)" and "now - ms_of t \<le> idle_limit"
  shows "\<exists>s' c'. connection_event ctl timer_message fd EPOLLIN s = ret s' \<and> connections s' fd = Some c'
    \<and> wire (conn_sock c') = wire (conn_sock c) @ take n (concat chunks) \<and> getContext c' = ms_of t
    \<and> CheckActiveConnection ctl [fd] [now] s' = ret s'"
proof -
  let ?c1 = "after_read chunks c"
  obtain c' where c': "Send (concat chunks) ?c1 = ret c'"
    "wire (conn_sock c') = wire (conn_sock c) @ take n (concat chunks)" "conn_channel c' = conn_channel ?c1"
    using Send_accepted [of ?c1 "concat chunks" n] assms by (auto simp: isConnected_def)
  let ?c2 = "setContext (ms_of t) c'"
  have "timer_message (?c1, sub_reactors s ! reactor s fd) = ret (?c2, k, nows)"
    using assms(2,7) nul c'(1)
    by (simp add: timer_message_def GetState_def isConnected_def ReadBuffer_def ToStr_def next_reading_def)
  moreover have "ready_events (conn_channel ?c2) = EPOLLIN"
    using c'(3) by (simp add: SetReadyEvents_def setContext_def)
  ultimately have "connection_event ctl timer_message fd EPOLLIN s = ret (store fd (reactor s fd) (?c2, k, nows) s)"
    by (rule burst_event [OF assms(1-5)])
  then show ?thesis
    using c'(2) assms(8) by (simp add: CheckActiveConnection_def setContext_def getContext_def not_less [symmetric])
qed

section \<open>The HTTP server\<close>

text \<open>
  The constructor installs the default callback and the two handlers; \<open>onConnection\<close> tests an enumerator
  of the class, not the state of the connection, so it never logs.
\<close>

record http_server =
  http_worker :: parse_worker
  httpCallback :: http_callback

definition HttpServer :: http_server where
  "HttpServer = \<lparr>http_worker = ParseWorker_init, httpCallback = defaultHttpCallback\<rparr>"

definition setHttpCallback :: "http_callback \<Rightarrow> http_server \<Rightarrow> http_server" where
  "setHttpCallback cb h = h\<lparr>httpCallback := cb\<rparr>"

fun conn_state_code :: "conn_state \<Rightarrow> nat" where
  "conn_state_code State_Invalid = 1"
| "conn_state_code Handshaking = 2"
| "conn_state_code Connected = 3"
| "conn_state_code Closed = 4"
| "conn_state_code State_Failed = 5"

definition onConnection :: "'k conn \<Rightarrow> 'k conn outcome" where
  "onConnection = (\<lambda>(c, k).
     if conn_state_code Connected \<noteq> 0 then ret (c, k) else ret (c, k))"

text \<open>The message callback: \<open>w\<close> is the parser's buffer before the message.\<close>

definition http_on_message ::
  "header_order \<Rightarrow> http_callback \<Rightarrow> parse_worker \<Rightarrow> 'k conn \<Rightarrow> 'k conn outcome" where
  "http_on_message iter cb w = (\<lambda>(c, k). obind (onMessage iter cb w c) (\<lambda>(w', c'). ret (c', k)))"

text \<open>A callback whose replies close the connection or have a body whose length fits the local buffer.\<close>

definition bounded_reply :: "http_callback \<Rightarrow> bool" where
  "bounded_reply cb \<longleftrightarrow>
     (\<forall>req. closeConnection (cb req (HttpResponse True)) \<or> length (body (cb req (HttpResponse True))) < 10 ^ 13)"

abbreviation shutdown_failed :: "fault set" where
  "shutdown_failed \<equiv> {Exit ''socket accept error''}"

lemma shutdown_yields:
  "yields shutdown_failed
     (\<lambda>c'. conn_channel c' = conn_channel c \<and> sock_fd (conn_sock c') = sock_fd (conn_sock c) \<and> conn_state c' = conn_state c)
     (conn_shutdown c)"
  by (simp add: conn_shutdown_def shutdownWrite_def ErrorIf_def)

text \<open>What sending and shutting leave of a connection.\<close>

definition still :: "connection \<Rightarrow> connection \<Rightarrow> bool" where
  "still c c' \<longleftrightarrow> conn_channel c' = conn_channel c \<and> sock_fd (conn_sock c') = sock_fd (conn_sock c)
     \<and> conn_state c' \<in> {conn_state c, Closed}"

lemma still_refl [simp]: "still c c"
  by (simp add: still_def)

lemma still_trans: "still c1 c2 \<Longrightarrow> still c2 c3 \<Longrightarrow> still c1 c3"
  by (auto simp: still_def)

lemma send_still: "yields E (still c) (Send msg c)"
  by (rule yields_mono [OF Send_returns]) (auto simp: still_def dest: Send_frame)

lemma shutdown_still: "yields shutdown_failed (still c) (conn_shutdown c)"
  by (rule yields_mono [OF shutdown_yields]) (auto simp: still_def)

lemma onRequest_still:
  assumes "bounded_reply cb"
  shows "yields shutdown_failed (still c) (onRequest iter cb req c)"
proof -
  let ?r = "cb req (HttpResponse True)"
  have "appendToBuffer iter ?r [] = ret (reply_text iter ?r)"
    using appendToBuffer_text [of ?r iter "[]"] assms by (simp add: bounded_reply_def)
  then have "onRequest iter cb req c = obind (Send (ToStr (reply_text iter ?r)) c)
      (\<lambda>c. if closeConnection ?r then conn_shutdown c else ret c)"
    by (simp add: onRequest_def Let_def)
  also have "yields shutdown_failed (still c) \<dots>"
    by (rule yields_bind [OF send_still]) (auto intro: yields_mono [OF shutdown_still] still_trans)
  finally show ?thesis .
qed

lemma onMessage_still:
  assumes "bounded_reply cb"
  shows "yields shutdown_failed (\<lambda>(w', c'). still c c') (onMessage iter cb w c)"
proof (cases "isConnected c")
  case True
  obtain ok ctx w1 where p: "parseRequest HttpContext (SetStr (ReadBuffer c) w) = (ok, ctx, w1)"
    by (cases "parseRequest HttpContext (SetStr (ReadBuffer c) w)") auto
  have bad: "yields shutdown_failed (still c) (if \<not> ok then obind (Send bad_request c) conn_shutdown else ret c)"
    by (auto intro!: yields_bind [OF send_still] intro: yields_mono [OF shutdown_still] still_trans)
  have "yields shutdown_failed (\<lambda>(w', c'). still c c')
      (obind (if \<not> ok then obind (Send bad_request c) conn_shutdown else ret c) (\<lambda>c.
       obind (if gotAll ctx then onRequest iter cb (ctx_request ctx) c else ret c) (\<lambda>c. ret (w1, c))))"
  proof (rule yields_bind [OF bad])
    fix c1 assume c1: "still c c1"
    have "yields shutdown_failed (still c1) (if gotAll ctx then onRequest iter cb (ctx_request ctx) c1 else ret c1)"
      using onRequest_still [OF assms] by simp
    then show "yields shutdown_failed (\<lambda>(w', c'). still c c')
        (obind (if gotAll ctx then onRequest iter cb (ctx_request ctx) c1 else ret c1) (\<lambda>c. ret (w1, c)))"
      by (rule yields_bind) (auto intro: still_trans [OF c1])
  qed
  then show ?thesis using True p by (simp add: onMessage_def)
qed (simp add: onMessage_def)

lemma http_law:
  assumes "bounded_reply cb" and "conn_ok interest fd c k"
  shows "safe_step shutdown_failed interest fd k (http_on_message iter cb w (c, k))"
proof -
  have "yields shutdown_failed (\<lambda>(c', k'). conn_ok interest fd c' k' \<and> k' = k) (http_on_message iter cb w (c, k))"
    using assms(2) unfolding http_on_message_def
    by (auto intro!: yields_bind [OF onMessage_still [OF assms(1)]] simp: still_def conn_ok_def)
  then show ?thesis by (auto simp: yields_def safe_step_def)
qed

lemma default_bounded: "bounded_reply defaultHttpCallback"
  by (simp add: bounded_reply_def defaultHttpCallback_def setCloseConnection_def)

lemma example_bounded: "bounded_reply example_onRequest"
  by (simp add: bounded_reply_def example_onRequest_def setStatusCode_def setStatusMessage_def setContentType_def
      resp_addHeader_def setBody_def HttpResponse_def setCloseConnection_def)

interpretation http: server_program map_ctl "\<lambda>k. k" shutdown_failed
  "http_on_message iter example_onRequest w" "Some onConnection"
  by unfold_locales (auto simp: http_law example_bounded benign_connect_def onConnection_def same_wiring_def)

text \<open>
  A reply that closes the connection is sent and then the writing side is shut; when the kernel
  refuses that, as it does once the peer has reset the connection, the whole server ends.
\<close>

lemma bad_request_clean: "CHR 0x00 \<notin> set bad_request"
  by (simp add: bad_request_def crlf_def newline_def)

lemma failed_shutdown_event:
  assumes "connections s fd = Some c" and "isConnected c" and "nonblocking (conn_sock c)"
    and "never_writes (conn_channel c)" and "shutdown_fails (conn_sock c)"
    and "burst (incoming (conn_sock c)) = Some chunks" and nul: "CHR 0x00 \<notin> set (concat chunks)"
    and "\<not> fst (parseRequest HttpContext (SetStr (concat chunks) w))"
    and "accepted (length bad_request) (outcomes (conn_sock c)) = Some n"
  shows "connection_event ctl (http_on_message iter cb w) fd EPOLLIN s = fail (Exit ''socket accept error'')"
proof (rule burst_event_fails [OF assms(1-3,6) nul])
  let ?c1 = "after_read chunks c"
  obtain c' where c': "Send bad_request ?c1 = ret c'" "conn_channel c' = conn_channel ?c1"
    "shutdown_fails (conn_sock c')"
    using Send_accepted [of ?c1 bad_request n] assms(2,3,5,9) bad_request_clean by (auto simp: isConnected_def)
  moreover have "\<not> isWriting (conn_channel c')"
    using assms(4) c'(2) by (simp add: never_writes_def isWriting_def SetReadyEvents_def)
  ultimately show "http_on_message iter cb w (?c1, sub_reactors s ! reactor s fd) = fail (Exit ''socket accept error'')"
    using assms(2,8) nul
    by (auto simp: http_on_message_def onMessage_def isConnected_def ReadBuffer_def ToStr_def conn_shutdown_def
        shutdownWrite_def ErrorIf_def split: prod.splits)
qed

end
