(* ===== verification/Kv_Server.thy ===== *)
theory Kv_Server
  imports Server_Programs SkipListWorker_Correct
begin

text \<open>
  The storage server (\<open>example/kv_server.cpp\<close>): the command worker behind the message callback. The
  worker is part of the state the callbacks work on. A session is a sequence of input events on one
  connection; it is compared with the abstract interpreter of theory \<open>SkipListWorker_Correct\<close>.
\<close>

section \<open>The message callback\<close>

definition kv_message :: "('k \<times> worker) conn \<Rightarrow> ('k \<times> worker) conn outcome" where
  "kv_message = (\<lambda>(c, k, w).
     if GetState c = Connected
     then obind (dealWithCmd (ReadBuffer c) w) (\<lambda>(res, w).
          obind (Send res c) (\<lambda>c. ret (c, k, w)))
     else ret (c, k, w))"

section \<open>The abstract session\<close>

fun session_replies :: "string list \<Rightarrow> abs_worker \<Rightarrow> string list" where
  "session_replies [] a = []"
| "session_replies (cmd # cmds) a = fst (abs_cmd cmd a) # session_replies cmds (snd (abs_cmd cmd a))"

fun session_state :: "string list \<Rightarrow> abs_worker \<Rightarrow> abs_worker" where
  "session_state [] a = a"
| "session_state (cmd # cmds) a = session_state cmds (snd (abs_cmd cmd a))"

fun session_draws :: "string list \<Rightarrow> abs_worker \<Rightarrow> nat" where
  "session_draws [] a = 0"
| "session_draws (cmd # cmds) a = cmd_draws cmd a + session_draws cmds (snd (abs_cmd cmd a))"

text \<open>A burst of reads that brings one command, in any number of chunks, and is used up by it.\<close>

definition brings :: "read_result list \<Rightarrow> string \<Rightarrow> bool" where
  "brings rs cmd \<longleftrightarrow> (\<exists>chunks. burst rs = Some chunks \<and> concat chunks = cmd \<and> after_burst rs = [])"

text \<open>A command that is not blank and has no NUL byte.\<close>

definition command_ok :: "string \<Rightarrow> bool" where
  "command_ok cmd \<longleftrightarrow> words cmd \<noteq> [] \<and> CHR 0x00 \<notin> set cmd"

section \<open>One command\<close>

lemma burst_append:
  "burst rs = Some bs \<Longrightarrow> after_burst rs = [] \<Longrightarrow> burst (rs @ later) = Some bs \<and> after_burst (rs @ later) = later"
proof (induction rs arbitrary: bs rule: burst.induct)
  case (2 b rs)
  then show ?case by (auto split: if_splits)
qed auto

lemma reply_nonempty: "c_string (fst (abs_cmd cmd a)) \<noteq> []"
proof -
  have "\<exists>x xs. fst (abs_exec st ws a) = x # xs \<and> x \<noteq> CHR 0x00" for st ws
    by (cases st) (auto split: list.splits option.splits)
  from this [of "command_of cmd" "words cmd"] show ?thesis by (auto simp: abs_cmd_def c_string_def)
qed

text \<open>
  One event with one command: the reply of the interpreter goes out on the wire and the worker
  follows the abstract state.
\<close>

lemma command_event:
  assumes s: "sub_reactors s = [(k, w)]" "connections s fd = Some c"
    and c: "isConnected c" "nonblocking (conn_sock c)"
    and "incoming (conn_sock c) = rs @ later" and "brings rs cmd" and "command_ok cmd"
    and "outcomes (conn_sock c) = Wrote (length (c_string (fst (abs_cmd cmd a)))) # ws"
    and "worker_rep w a" and "draws_ready (cmd_draws cmd a + n) (myDB w)"
  shows "\<exists>s' c' w'. connection_event ctl kv_message fd EPOLLIN s = ret s'
    \<and> sub_reactors s' = [(k, w')] \<and> connections s' fd = Some c'
    \<and> isConnected c' \<and> nonblocking (conn_sock c')
    \<and> incoming (conn_sock c') = later \<and> outcomes (conn_sock c') = ws
    \<and> wire (conn_sock c') = wire (conn_sock c) @ c_string (fst (abs_cmd cmd a))
    \<and> worker_rep w' (snd (abs_cmd cmd a)) \<and> draws_ready n (myDB w')"
proof -
  let ?r = "fst (abs_cmd cmd a)"
  obtain chunks where b: "burst (incoming (conn_sock c)) = Some chunks" "concat chunks = cmd"
    "after_burst (incoming (conn_sock c)) = later"
    using assms(5,6) burst_append by (auto simp: brings_def)
  let ?c1 = "after_read chunks c"
  let ?c2 = "?c1\<lparr>conn_sock := (conn_sock ?c1)\<lparr>outcomes := ws, wire := wire (conn_sock ?c1) @ c_string ?r\<rparr>,
    send_buffer := []\<rparr>"
  have nul: "CHR 0x00 \<notin> set cmd" "words cmd \<noteq> []" using assms(7) by (simp_all add: command_ok_def)
  obtain w' where w': "dealWithCmd cmd w = ret (?r, w')" "worker_rep w' (snd (abs_cmd cmd a))"
    "draws_ready n (myDB w')"
    using deal_refines [OF assms(9,10) nul(2)] by blast
  have "Send ?r ?c1 = ret ?c2"
    using Send_whole [of ?c1 ?r ws] c reply_nonempty assms(8) by (simp add: isConnected_def)
  then have kv: "kv_message (?c1, k, w) = ret (?c2, k, w')"
    using c(1) w'(1) nul(1) b(2)
    by (simp add: kv_message_def GetState_def isConnected_def ReadBuffer_def ToStr_def)
  have r: "reactor s fd = 0" using s(1) by (simp add: reactor_def)
  have "connection_event ctl kv_message fd EPOLLIN s = ret (store fd (reactor s fd) (?c2, k, w') s)"
    by (rule burst_event [OF s(2) c b(1)]) (use kv s(1) r nul(1) b(2) in \<open>simp_all add: SetReadyEvents_def\<close>)
  then show ?thesis using s(1) w'(2,3) c r b(3) by (auto simp: isConnected_def)
qed

section \<open>A session\<close>

lemma session_events:
  assumes "sub_reactors s = [(k, w)]" "connections s fd = Some c"
    and "isConnected c" "nonblocking (conn_sock c)"
    and "incoming (conn_sock c) = concat bursts @ later" and "list_all2 brings bursts cmds"
    and "\<forall>cmd \<in> set cmds. command_ok cmd"
    and "outcomes (conn_sock c) = map (\<lambda>r. Wrote (length (c_string r))) (session_replies cmds a) @ ws"
    and "worker_rep w a" and "draws_ready (session_draws cmds a + n) (myDB w)"
  shows "\<exists>s' c' w'. in_turn ctl kv_message (replicate (length cmds) (fd, EPOLLIN)) s = ret s'
    \<and> sub_reactors s' = [(k, w')] \<and> connections s' fd = Some c' \<and> isConnected c'
    \<and> wire (conn_sock c') = wire (conn_sock c) @ concat (map c_string (session_replies cmds a))
    \<and> worker_rep w' (session_state cmds a) \<and> draws_ready n (myDB w')"
  using assms
proof (induction cmds arbitrary: bursts s c w a)
  case Nil
  then show ?case by simp
next
  case (Cons cmd cmds)
  obtain rs bursts' where b: "bursts = rs # bursts'" "brings rs cmd" "list_all2 brings bursts' cmds"
    using Cons.prems(6) by (auto simp: list_all2_Cons2)
  let ?a = "snd (abs_cmd cmd a)"
  have inc: "incoming (conn_sock c) = rs @ (concat bursts' @ later)" using Cons.prems(5) b(1) by simp
  have out: "outcomes (conn_sock c) = Wrote (length (c_string (fst (abs_cmd cmd a))))
      # (map (\<lambda>r. Wrote (length (c_string r))) (session_replies cmds ?a) @ ws)"
    using Cons.prems(8) by simp
  have ok: "command_ok cmd" "\<forall>cmd \<in> set cmds. command_ok cmd" using Cons.prems(7) by simp_all
  have draws: "draws_ready (cmd_draws cmd a + (session_draws cmds ?a + n)) (myDB w)"
    using Cons.prems(10) by (simp add: add.assoc)
  obtain s1 c1 w1 where 1: "connection_event ctl kv_message fd EPOLLIN s = ret s1"
    "sub_reactors s1 = [(k, w1)]" "connections s1 fd = Some c1" "isConnected c1" "nonblocking (conn_sock c1)"
    "incoming (conn_sock c1) = concat bursts' @ later"
    "outcomes (conn_sock c1) = map (\<lambda>r. Wrote (length (c_string r))) (session_replies cmds ?a) @ ws"
    "wire (conn_sock c1) = wire (conn_sock c) @ c_string (fst (abs_cmd cmd a))"
    "worker_rep w1 ?a" "draws_ready (session_draws cmds ?a + n) (myDB w1)"
    using command_event [OF Cons.prems(1-4) inc b(2) ok(1) out Cons.prems(9) draws] by blast
  from Cons.IH [OF 1(2-6) b(3) ok(2) 1(7,9,10)] show ?case
    using 1(1,8) by auto
qed

section \<open>A blank command\<close>

text \<open>A line of blanks has no first word, and the worker takes the front of an empty vector.\<close>

lemma blank_command_event:
  assumes "connections s fd = Some c" and "isConnected c" and "nonblocking (conn_sock c)"
    and "burst (incoming (conn_sock c)) = Some chunks" and nul: "CHR 0x00 \<notin> set (concat chunks)"
    and "words (concat chunks) = []"
  shows "connection_event ctl kv_message fd EPOLLIN s = fail Empty_vector"
proof (rule burst_event_fails [OF assms(1-4) nul])
  show "kv_message (after_read chunks c, sub_reactors s ! reactor s fd) = fail Empty_vector"
    using assms(2,6) nul
    by (simp add: kv_message_def GetState_def isConnected_def ReadBuffer_def ToStr_def dealWithCmd_def parseCommand_words
        case_prod_unfold)
qed

end
