(* ===== verification/Example_Client.thy ===== *)
theory Example_Client
  imports Server_Programs
begin

text \<open>
  The example client (\<open>example/client.cpp\<close>): it sends the lines it reads from the terminal one by one
  and waits for an answer to each. Its connection has no event loop, so the pointer to a channel is
  null; no call the client makes follows it, and the field holds an unused channel here. The text
  still to be read from the terminal is an input; at its end \<open>std::getline\<close> leaves an empty line.
\<close>

section \<open>Reading a line\<close>

definition GetLine :: "string \<Rightarrow> string \<times> string" where
  "GetLine cin = (takeWhile (\<lambda>c. c \<noteq> newline) cin, drop 1 (dropWhile (\<lambda>c. c \<noteq> newline) cin))"

definition GetlineSendBuffer :: "string \<Rightarrow> connection \<Rightarrow> connection \<times> string" where
  "GetlineSendBuffer cin c = (let (line, cin) = GetLine cin in (c\<lparr>send_buffer := line\<rparr>, cin))"

section \<open>The client\<close>

text \<open>The constructor with a null loop, and the delete callback that was never set.\<close>

definition client_connection :: "int \<Rightarrow> sock \<Rightarrow> connection outcome" where
  "client_connection spare so =
     obind (ErrorIf (spare = -1) ''socket create error'') (\<lambda>_.
     ret \<lparr>conn_sock = so, conn_channel = Channel (-1), conn_state = Connected,
          read_buffer = [], send_buffer = [], conn_context = 0\<rparr>)"

definition no_callback :: "unit delete_callback" where
  "no_callback fd ck = fail Bad_function"

lemma obind_option_bind:
  "obind m f = Option.bind m (\<lambda>r. case r of Inl e \<Rightarrow> Some (Inl e) | Inr x \<Rightarrow> f x)"
  by (auto simp: obind_def split: option.splits)

lemma obind_mono [partial_function_mono]:
  assumes "mono_option B" and "\<And>y. mono_option (\<lambda>f. C y f)"
  shows "mono_option (\<lambda>f. obind (B f) (\<lambda>y. C y f))"
  unfolding obind_option_bind
  apply (rule bind_mono [OF assms(1)])
  subgoal for r by (cases r) (simp_all add: assms(2) option.const_mono)
  done

partial_function (option) client_loop :: "string \<Rightarrow> connection \<Rightarrow> unit outcome" where
  "client_loop cin c =
     obind (Write (fst (GetlineSendBuffer cin c))) (\<lambda>c1.
     if GetState c1 = Closed then obind (Close no_callback (c1, ())) (\<lambda>_. ret ())
     else obind (Read no_callback (c1, ())) (\<lambda>ck. client_loop (snd (GetlineSendBuffer cin c)) (fst ck)))"

declare client_loop.simps [code]

text \<open>\<open>fd\<close> and \<open>spare\<close> are the descriptors of the two sockets, \<open>so\<close> the first one's kernel object.\<close>

definition client_main ::
  "(sockaddr_in \<Rightarrow> connect_result list) \<Rightarrow> int \<Rightarrow> sock \<Rightarrow> string \<Rightarrow> unit outcome" where
  "client_main results spare so cin =
     obind (Socket (sock_fd so)) (\<lambda>_.
     obind (Connect_ip (nonblocking so) results ''127.0.0.1'' 1234) (\<lambda>_.
     obind (client_connection spare so) (client_loop cin)))"

section \<open>How it ends\<close>

text \<open>
  When the connection is closed the client calls \<open>Close\<close>, whose callback is empty: the program is
  left by \<open>std::bad_function_call\<close>, never through its \<open>break\<close>.
\<close>

lemma Close_no_callback [simp]: "Close no_callback ck = fail Bad_function"
  by (simp add: Close_def no_callback_def case_prod_unfold)

lemma Read_no_callback: "yields {Bad_function} (\<lambda>_. True) (Read no_callback ck)"
proof -
  have "yields {Bad_function} (\<lambda>_. True) (read_loop no_callback rs (c, k))" for rs c k
    by (induction rs arbitrary: c) (auto simp: Let_def split: read_result.splits)
  moreover have "yields {Bad_function} (\<lambda>_. True) (ReadBlocking ck)" for ck :: "unit conn"
    by (cases ck) (auto simp: Let_def split: list.splits read_result.splits)
  ultimately show ?thesis
    by (auto simp: Read_def ReadNonBlocking_def Let_def case_prod_unfold simp del: ReadBlocking.simps)
qed

lemma client_loop_end:
  assumes "client_loop cin c = Some r"
  shows "r = Inl Bad_function"
proof (rule client_loop.raw_induct [OF _ assms, of "\<lambda>cin c r. r = Inl Bad_function"])
  fix loop :: "string \<Rightarrow> connection \<Rightarrow> unit outcome" and cin c r
  assume ih: "\<And>cin c r. loop cin c = Some r \<Longrightarrow> r = Inl Bad_function"
  let ?rest = "snd (GetlineSendBuffer cin c)"
  assume body: "obind (Write (fst (GetlineSendBuffer cin c))) (\<lambda>c1.
      if GetState c1 = Closed then obind (Close no_callback (c1, ())) (\<lambda>_. ret ())
      else obind (Read no_callback (c1, ())) (\<lambda>ck. loop ?rest (fst ck))) = Some r"
  have "yields {Bad_function} (\<lambda>_. False)
      (obind (Write (fst (GetlineSendBuffer cin c))) (\<lambda>c1.
         if GetState c1 = Closed then obind (Close no_callback (c1, ())) (\<lambda>_. ret ())
         else obind (Read no_callback (c1, ())) (\<lambda>ck. loop ?rest (fst ck))))"
  proof (intro yields_bind [OF Write_returns] yields_bind [OF Read_no_callback])
    fix c1
    have "yields {Bad_function} (\<lambda>_. False) (loop cin c)" for cin c
      using ih [of cin c] by (cases "loop cin c") (auto simp: yields_def fail_def)
    then show "yields {Bad_function} (\<lambda>_. False)
        (if GetState c1 = Closed then obind (Close no_callback (c1, ())) (\<lambda>_. ret ())
         else obind (Read no_callback (c1, ())) (\<lambda>ck. loop ?rest (fst ck)))"
      by (auto intro!: yields_bind [OF Read_no_callback])
  qed
  then show "r = Inl Bad_function" using body by (auto simp: yields_def fail_def)
qed

text \<open>An exchange: every line is taken by the kernel and answered; then the server closes.\<close>

lemma GetlineSendBuffer_simp [simp]:
  "GetlineSendBuffer cin c = (c\<lparr>send_buffer := fst (GetLine cin)\<rparr>, snd (GetLine cin))"
  by (simp add: GetlineSendBuffer_def case_prod_unfold Let_def)

lemma client_loop_closed: "conn_state c = Closed \<Longrightarrow> client_loop cin c = fail Bad_function"
  by (subst client_loop.simps) (simp add: Write_def GetState_def)

lemma client_loop_exchange:
  assumes "isConnected c" and "\<not> nonblocking (conn_sock c)"
    and "outcomes (conn_sock c) = map Wrote ns @ ws" and "length ns = Suc (length answers)"
    and "incoming (conn_sock c) = map Read_bytes answers @ Read_bytes [] # rs" and "[] \<notin> set answers"
  shows "client_loop cin c = fail Bad_function"
  using assms
proof (induction answers arbitrary: cin c ns)
  case Nil
  then obtain n where ns: "ns = [n]" by (auto simp: length_Suc_conv)
  have "conn_state c = Connected" using Nil.prems(1) by (simp add: isConnected_def)
  then show ?case
    using Nil.prems ns client_loop_closed
    by (subst client_loop.simps)
      (simp add: Write_def WriteBlocking_def IsNonBlocking_def GetState_def Read_def Let_def)
next
  case (Cons b answers)
  then obtain n ns' where ns: "ns = n # ns'" "length ns' = Suc (length answers)" by (cases ns) auto
  let ?line = "fst (GetLine cin)" and ?cin = "snd (GetLine cin)"
  let ?c = "c\<lparr>send_buffer := [], conn_sock := (conn_sock c)\<lparr>outcomes := map Wrote ns' @ ws,
      wire := wire (conn_sock c) @ take n ?line, incoming := map Read_bytes answers @ Read_bytes [] # rs\<rparr>,
    read_buffer := c_string b\<rparr>"
  have "b \<noteq> []" using Cons.prems(6) by auto
  moreover have c: "conn_state c = Connected" using Cons.prems(1) by (simp add: isConnected_def)
  ultimately have "client_loop cin c = client_loop ?cin ?c"
    using Cons.prems ns(1)
    by (subst client_loop.simps)
      (simp add: Write_def WriteBlocking_def IsNonBlocking_def GetState_def Read_def Let_def
        Append_n_def)
  also have "\<dots> = fail Bad_function"
    by (rule Cons.IH [of _ ns']) (use Cons.prems ns in \<open>simp_all add: isConnected_def\<close>)
  finally show ?case .
qed

end
