(* ===== verification/LogTime.thy ===== *)
theory LogTime
  imports LogStream LogFile
begin

text \<open>
  Times in the logger: the time text of a record (\<open>Logger::Impl::formatTime\<close> in
  \<open>src/logger/Logging.cpp\<close>), the name of a log file and its opening (\<open>src/logger/LogFile.cpp\<close>,
  \<open>src/logger/FileUtil.cpp\<close>), and the global settings of the logger. The broken-down time that
  \<open>localtime\<close> makes of the clock is an input.
\<close>

section \<open>Broken-down times\<close>

text \<open>\<open>tm_year\<close> counts from 1900, \<open>tm_mon\<close> from 0.\<close>

record tm =
  tm_sec :: nat
  tm_min :: nat
  tm_hour :: nat
  tm_mday :: nat
  tm_mon :: nat
  tm_year :: nat

text \<open>What \<open>localtime\<close> returns, up to the year 9999; a leap second is second 60.\<close>

definition tm_ok :: "tm \<Rightarrow> bool" where
  "tm_ok t \<longleftrightarrow> tm_sec t \<le> 60 \<and> tm_min t < 60 \<and> tm_hour t < 24 \<and> 1 \<le> tm_mday t \<and> tm_mday t \<le> 31
     \<and> tm_mon t < 12 \<and> tm_year t < 8100"

definition pad2 :: "nat \<Rightarrow> string" where
  "pad2 n = (if n < 10 then ''0'' @ decimal n else decimal n)"

text \<open>\<open>strftime\<close> for the directives the code uses.\<close>

fun strftime_text :: "string \<Rightarrow> tm \<Rightarrow> string option" where
  "strftime_text [] t = Some []"
| "strftime_text [c] t = (if c = CHR ''%'' then None else Some [c])"
| "strftime_text (c # d # s) t =
     (if c = CHR ''%'' then
        (let field =
           (if d = CHR ''Y'' then Some (decimal (1900 + tm_year t))
            else if d = CHR ''m'' then Some (pad2 (tm_mon t + 1))
            else if d = CHR ''d'' then Some (pad2 (tm_mday t))
            else if d = CHR ''H'' then Some (pad2 (tm_hour t))
            else if d = CHR ''M'' then Some (pad2 (tm_min t))
            else if d = CHR ''S'' then Some (pad2 (tm_sec t))
            else None)
         in case field of None \<Rightarrow> None | Some x \<Rightarrow> map_option ((@) x) (strftime_text s t))
      else map_option ((#) c) (strftime_text (d # s) t))"

text \<open>
  A result that does not fit, with its NUL, into \<open>cap\<close> bytes leaves the array's contents unspecified,
  which is a fault here.
\<close>

definition strftime :: "nat \<Rightarrow> string \<Rightarrow> tm \<Rightarrow> string outcome" where
  "strftime cap fmt t =
     (case strftime_text fmt t of
        None \<Rightarrow> fail Out_of_range
      | Some x \<Rightarrow> if length x < cap then ret x else fail Out_of_range)"

section \<open>Records and files\<close>

definition time_text :: "tm \<Rightarrow> string outcome" where
  "time_text t = strftime 26 (''%Y-%m-%d %H:%M:%S'' @ [newline]) t"

definition Logger_at :: "tm \<Rightarrow> string \<Rightarrow> 32 word \<Rightarrow> log_level \<Rightarrow> log_impl outcome" where
  "Logger_at t file line level = obind (time_text t) (\<lambda>str_t. Logger str_t file line level)"

text \<open>The two-argument constructor, behind \<open>LOG_INFO\<close>.\<close>

definition Logger_info :: "tm \<Rightarrow> string \<Rightarrow> 32 word \<Rightarrow> log_impl outcome" where
  "Logger_info t file line = Logger_at t file line INFO"

definition getLogFileName :: "string \<Rightarrow> tm \<Rightarrow> string outcome" where
  "getLogFileName basename t =
     obind (strftime 32 ''.%Y%m%d-%H%M%S'' t) (\<lambda>timebuf. ret (basename @ timebuf @ ''.log''))"

text \<open>
  \<open>AppendFile\<close> opens the file for appending and hands its stream to \<open>setbuffer\<close> without a test;
  \<open>opens\<close> says whether \<open>fopen\<close> succeeds.
\<close>

definition AppendFile_open :: "(string \<Rightarrow> bool) \<Rightarrow> string \<Rightarrow> append_file outcome" where
  "AppendFile_open opens filename = (if opens filename then ret AppendFile else fail Null_pointer)"

definition LogFile_open :: "(string \<Rightarrow> bool) \<Rightarrow> string \<Rightarrow> int \<Rightarrow> tm \<Rightarrow> log_file outcome" where
  "LogFile_open opens basename n t =
     obind (getLogFileName basename t) (\<lambda>filename.
     obind (AppendFile_open opens filename) (\<lambda>f.
     ret ((LogFile n)\<lparr>log_out := f\<rparr>)))"

section \<open>Global settings\<close>

text \<open>\<open>'s\<close> is what the output function works on.\<close>

record 's log_globals =
  g_logLevel :: log_level
  g_output :: "string \<Rightarrow> 's \<Rightarrow> 's outcome"
  g_flush :: "'s \<Rightarrow> 's outcome"

definition initLogLevel :: log_level where
  "initLogLevel = INFO"

text \<open>The defaults write to the terminal, here the text written so far.\<close>

definition defaultOutput :: "string \<Rightarrow> string \<Rightarrow> string outcome" where
  "defaultOutput data out = ret (out @ data)"

definition defaultFlush :: "string \<Rightarrow> string outcome" where
  "defaultFlush out = ret out"

definition log_defaults :: "string log_globals" where
  "log_defaults = \<lparr>g_logLevel = initLogLevel, g_output = defaultOutput, g_flush = defaultFlush\<rparr>"

definition setLogLevel :: "log_level \<Rightarrow> 's log_globals \<Rightarrow> 's log_globals" where
  "setLogLevel level g = g\<lparr>g_logLevel := level\<rparr>"

definition setOutput :: "(string \<Rightarrow> 's \<Rightarrow> 's outcome) \<Rightarrow> 's log_globals \<Rightarrow> 's log_globals" where
  "setOutput out g = g\<lparr>g_output := out\<rparr>"

definition setFlush :: "('s \<Rightarrow> 's outcome) \<Rightarrow> 's log_globals \<Rightarrow> 's log_globals" where
  "setFlush fl g = g\<lparr>g_flush := fl\<rparr>"

text \<open>A statement \<open>LOG_... << ...\<close>: build the record, let the operators \<open>put\<close> the message, destroy it.\<close>

definition log_statement ::
  "'s log_globals \<Rightarrow> tm \<Rightarrow> string \<Rightarrow> 32 word \<Rightarrow> log_level \<Rightarrow> (string \<Rightarrow> string outcome) \<Rightarrow> 's \<Rightarrow> 's outcome" where
  "log_statement g t file line level put s =
     obind (Logger_at t file line level) (\<lambda>i.
     obind (put (log_stream i)) (\<lambda>b.
     Logger_end (g_output g) (i\<lparr>log_stream := b\<rparr>) s))"

section \<open>Numbers of a fixed width\<close>

fun fixed :: "nat \<Rightarrow> nat \<Rightarrow> string" where
  "fixed 0 n = []"
| "fixed (Suc k) n = fixed k (n div 10) @ [digit_char (n mod 10)]"

lemma fixed_length [simp]: "length (fixed k n) = k"
  by (induction k arbitrary: n) auto

lemma decimal_fixed: "n < 10 ^ k \<Longrightarrow> 0 < k \<Longrightarrow> k = 1 \<or> 10 ^ (k - 1) \<le> n \<Longrightarrow> decimal n = fixed k n"
proof (induction k arbitrary: n)
  case (Suc k)
  show ?case
  proof (cases "k = 0")
    case True
    then show ?thesis using Suc.prems by (simp add: decimal.simps)
  next
    case False
    then have "10 \<le> n"
      using Suc.prems(3) power_increasing [of 1 k "10 :: nat"] by simp
    moreover have "n div 10 < 10 ^ k" using Suc.prems(1) by simp
    moreover have "k = 1 \<or> 10 ^ (k - 1) \<le> n div 10"
    proof (cases "k = 1")
      case False
      have "(10::nat) ^ k = 10 * 10 ^ (k - 1)" using \<open>k \<noteq> 0\<close> by (simp add: power_eq_if)
      then have "10 * 10 ^ (k - 1) \<le> n" using Suc.prems(3) \<open>k \<noteq> 0\<close> by simp
      then have "10 ^ (k - 1) \<le> n div 10" by (simp add: less_eq_div_iff_mult_less_eq mult.commute)
      then show ?thesis ..
    qed simp
    ultimately show ?thesis using Suc.IH [of "n div 10"] False by (simp add: decimal.simps [of n])
  qed
qed simp

lemma pad2_fixed: "n < 100 \<Longrightarrow> pad2 n = fixed 2 n"
proof (cases "n < 10")
  case True
  have "digit_char 0 = CHR ''0''" by code_simp
  then show ?thesis using True by (simp add: pad2_def numeral_2_eq_2 decimal.simps [of n])
next
  case False
  then show "n < 100 \<Longrightarrow> ?thesis" using decimal_fixed [of n 2] by (simp add: pad2_def)
qed

text \<open>Texts of the same width compare as the numbers do.\<close>

lemma append_less:
  assumes "length u = length v"
  shows "u @ x < v @ (y :: string) \<longleftrightarrow> u < v \<or> u = v \<and> x < y"
  using assms by (induction u v rule: list_induct2) auto

lemma of_char_of_digit: "d < 10 \<Longrightarrow> of_char (digit_char d) = 48 + d"
  by (simp add: digit_char_def)

lemma digit_char_less: "a < 10 \<Longrightarrow> b < 10 \<Longrightarrow> digit_char a < digit_char b \<longleftrightarrow> a < b"
  by (simp add: less_char_def of_char_of_digit)

lemma digit_char_eq: "a < 10 \<Longrightarrow> b < 10 \<Longrightarrow> digit_char a = digit_char b \<longleftrightarrow> a = b"
  using digit_char_less [of a b] digit_char_less [of b a] by (metis less_irrefl linorder_neqE_nat)

lemma compare_div_mod:
  "(m :: nat) < n \<longleftrightarrow> m div 10 < n div 10 \<or> m div 10 = n div 10 \<and> m mod 10 < n mod 10"
proof -
  have "m = 10 * (m div 10) + m mod 10" "n = 10 * (n div 10) + n mod 10" "m mod 10 < 10" "n mod 10 < 10"
    by simp_all
  then show ?thesis by linarith
qed

lemma fixed_compare:
  "m < 10 ^ k \<Longrightarrow> n < 10 ^ k \<Longrightarrow> (fixed k m < fixed k n \<longleftrightarrow> m < n) \<and> (fixed k m = fixed k n \<longleftrightarrow> m = n)"
proof (induction k arbitrary: m n)
  case (Suc k)
  have d: "m div 10 < 10 ^ k" "n div 10 < 10 ^ k" using Suc.prems by simp_all
  have "m = n \<longleftrightarrow> m div 10 = n div 10 \<and> m mod 10 = n mod 10" by (metis div_mult_mod_eq)
  then show ?case
    using Suc.IH [OF d] compare_div_mod [of m n] by (simp add: append_less digit_char_less digit_char_eq)
qed simp

section \<open>The texts\<close>

lemma time_texts:
  assumes "tm_ok t"
  shows "strftime_text (''%Y-%m-%d %H:%M:%S'' @ [newline]) t = Some (fixed 4 (1900 + tm_year t) @ ''-'' @
      fixed 2 (tm_mon t + 1) @ ''-'' @ fixed 2 (tm_mday t) @ '' '' @ fixed 2 (tm_hour t) @ '':'' @
      fixed 2 (tm_min t) @ '':'' @ fixed 2 (tm_sec t) @ [newline])"
    and "strftime_text ''.%Y%m%d-%H%M%S'' t = Some (''.'' @ fixed 4 (1900 + tm_year t) @
      fixed 2 (tm_mon t + 1) @ fixed 2 (tm_mday t) @ ''-'' @ fixed 2 (tm_hour t) @
      fixed 2 (tm_min t) @ fixed 2 (tm_sec t))"
proof -
  have "decimal (1900 + tm_year t) = fixed 4 (1900 + tm_year t)"
    using assms decimal_fixed [of "1900 + tm_year t" 4] by (simp add: tm_ok_def)
  moreover have "pad2 (tm_mon t + 1) = fixed 2 (tm_mon t + 1)" "pad2 (tm_mday t) = fixed 2 (tm_mday t)"
    "pad2 (tm_hour t) = fixed 2 (tm_hour t)" "pad2 (tm_min t) = fixed 2 (tm_min t)"
    "pad2 (tm_sec t) = fixed 2 (tm_sec t)"
    using assms by (auto intro!: pad2_fixed simp: tm_ok_def)
  ultimately show "strftime_text (''%Y-%m-%d %H:%M:%S'' @ [newline]) t = Some (fixed 4 (1900 + tm_year t) @ ''-'' @
      fixed 2 (tm_mon t + 1) @ ''-'' @ fixed 2 (tm_mday t) @ '' '' @ fixed 2 (tm_hour t) @ '':'' @
      fixed 2 (tm_min t) @ '':'' @ fixed 2 (tm_sec t) @ [newline])"
    and "strftime_text ''.%Y%m%d-%H%M%S'' t = Some (''.'' @ fixed 4 (1900 + tm_year t) @
      fixed 2 (tm_mon t + 1) @ fixed 2 (tm_mday t) @ ''-'' @ fixed 2 (tm_hour t) @
      fixed 2 (tm_min t) @ fixed 2 (tm_sec t))"
    by (simp_all add: newline_def del: fixed.simps)
qed

text \<open>The fields of a time, the most significant first.\<close>

definition tm_key :: "tm \<Rightarrow> nat list" where
  "tm_key t = [tm_year t, tm_mon t, tm_mday t, tm_hour t, tm_min t, tm_sec t]"

definition name_time :: "tm \<Rightarrow> string" where
  "name_time t = fixed 4 (1900 + tm_year t) @ fixed 2 (tm_mon t + 1) @ fixed 2 (tm_mday t) @ ''-'' @
     fixed 2 (tm_hour t) @ fixed 2 (tm_min t) @ fixed 2 (tm_sec t)"

lemma getLogFileName_text: "tm_ok t \<Longrightarrow> getLogFileName basename t = ret (basename @ ''.'' @ name_time t @ ''.log'')"
  unfolding getLogFileName_def strftime_def by (subst time_texts(2)) (simp_all add: name_time_def del: fixed.simps)

lemma name_time_length: "length (name_time t) = 15"
  by (simp add: name_time_def)

lemma append_eq: "length u = length v \<Longrightarrow> u @ x = v @ y \<longleftrightarrow> u = v \<and> x = y"
  by simp

text \<open>The times of two file names compare as the times do.\<close>

lemma name_time_compare:
  assumes "tm_ok t" and "tm_ok t'"
  shows "name_time t < name_time t' \<longleftrightarrow> tm_key t < tm_key t'"
    and "name_time t = name_time t' \<longleftrightarrow> tm_key t = tm_key t'"
proof -
  have four: "fixed 4 (1900 + y) < fixed 4 (1900 + y') \<longleftrightarrow> y < y'"
    "fixed 4 (1900 + y) = fixed 4 (1900 + y') \<longleftrightarrow> y = y'" if "y < 8100" "y' < 8100" for y y'
    using that fixed_compare [of "1900 + y" 4 "1900 + y'"] by auto
  have two: "fixed 2 m < fixed 2 n \<longleftrightarrow> m < n" "fixed 2 m = fixed 2 n \<longleftrightarrow> m = n" if "m < 100" "n < 100" for m n
    using that fixed_compare [of m 2 n] by auto
  show "name_time t < name_time t' \<longleftrightarrow> tm_key t < tm_key t'"
    and "name_time t = name_time t' \<longleftrightarrow> tm_key t = tm_key t'"
    using assms
    by (auto simp: name_time_def tm_key_def append_less four two tm_ok_def)
qed

lemma fixed_clean [simp]: "CHR 0x00 \<notin> set (fixed k n)"
proof (induction k arbitrary: n)
  case (Suc k)
  have "digit_char (n mod 10) \<noteq> CHR 0x00"
    using of_char_of_digit [of "n mod 10"] by force
  then show ?case using Suc by auto
qed simp

lemma time_text_length: "tm_ok t \<Longrightarrow> \<exists>x. time_text t = ret x \<and> length x = 20 \<and> CHR 0x00 \<notin> set x"
  unfolding time_text_def strftime_def by (subst time_texts(1)) (simp_all add: newline_def del: fixed.simps)

text \<open>A log statement writes its record whatever the global level is.\<close>

lemma log_statement_written:
  assumes "tm_ok t" and "length message + length file < 3888"
    and "\<And>b. length b = 26 \<Longrightarrow> put b = ret (b @ message)"
  shows "\<exists>time. time_text t = ret time \<and> length time = 20 \<and>
    log_statement g t file line level put s = g_output g (record_text time file line level message) s"
proof -
  obtain x where x: "time_text t = ret x" "length x = 20" "CHR 0x00 \<notin> set x"
    using time_text_length [OF assms(1)] by blast
  then have "length (record_text x file line level message) + 32 < kSmallBuffer"
    using assms(2) int_text_length32 [of line] by (simp add: record_text_def kSmallBuffer_def)
  moreover have "put (x @ level_bytes level) = ret (x @ level_bytes level @ message)"
    using assms(3) [of "x @ level_bytes level"] x(2) by simp
  ultimately have "obind (Logger x file line level) (\<lambda>i.
         obind (put (log_stream i)) (\<lambda>b. Logger_end (g_output g) (i\<lparr>log_stream := b\<rparr>) s))
    = g_output g (record_text x file line level message) s"
    by (rule record_put [OF x(3)])
  then show ?thesis using x(1,2) by (simp add: log_statement_def Logger_at_def)
qed

end
