(* ===== verification/Log_Pipeline.thy ===== *)
theory Log_Pipeline
  imports LogTime AsyncLogging
begin

text \<open>
  The logger put together as its test program does (\<open>src/logger/test/LogTest.cpp\<close>): the global output
  function hands every record to the asynchronous logger. \<open>clock\<close> gives the broken-down time that each
  statement reads, by its number; \<open>file\<close> is \<open>__FILE__\<close>. Other threads may append between two statements, so
  the theorems are about one statement in any reachable state.
\<close>

section \<open>The program\<close>

text \<open>\<open>g_asynclog\<close>, a null pointer or the logger.\<close>

definition asyncLog :: "string \<Rightarrow> async option \<Rightarrow> async option outcome" where
  "asyncLog msg logging =
     (case logging of
        None \<Rightarrow> ret None
      | Some a \<Rightarrow> obind (async_append msg a) (\<lambda>a. ret (Some a)))"

definition async_globals :: "async option log_globals" where
  "async_globals =
     setOutput asyncLog \<lparr>g_logLevel = initLogLevel, g_output = (\<lambda>_. ret), g_flush = ret\<rparr>"

definition put_hello :: "32 word \<Rightarrow> string \<Rightarrow> string outcome" where
  "put_hello i b =
     obind (put_cstr (Some ''Hello, '') b) (\<lambda>b.
     obind (put_int i b) (\<lambda>b.
     put_cstr (Some '' abc...xyz'') b))"

fun hello_loop ::
  "'s log_globals \<Rightarrow> (nat \<Rightarrow> tm) \<Rightarrow> string \<Rightarrow> 32 word \<Rightarrow> nat list \<Rightarrow> 's \<Rightarrow> 's outcome" where
  "hello_loop g clock file line [] s = ret s"
| "hello_loop g clock file line (i # is) s =
     obind (log_statement g (clock i) file line INFO (put_hello (word_of_nat i)) s)
       (hello_loop g clock file line is)"

definition test_Logging :: "'s log_globals \<Rightarrow> (nat \<Rightarrow> tm) \<Rightarrow> string \<Rightarrow> 's \<Rightarrow> 's outcome" where
  "test_Logging g clock file s =
     obind (log_statement g (clock 0) file 16 INFO (put_cstr (Some ''info'')) s) (\<lambda>s.
     obind (log_statement g (clock 1) file 17 WARN (put_cstr (Some ''warn'')) s) (\<lambda>s.
     obind (log_statement g (clock 2) file 18 ERROR (put_cstr (Some ''error'')) s) (\<lambda>s.
     hello_loop g (\<lambda>i. clock (3 + i)) file 22 [0..<10] s)))"

definition test_AsyncLogging :: "'s log_globals \<Rightarrow> (nat \<Rightarrow> tm) \<Rightarrow> string \<Rightarrow> 's \<Rightarrow> 's outcome" where
  "test_AsyncLogging g clock file s = hello_loop g clock file 29 [0..<1024] s"

text \<open>
  \<open>main\<close> up to its last wait: first the records go to the standard output, \<open>out\<close>, then to the logger. This is
  the main thread alone; the backend's steps come in between.
\<close>

definition LogTest_main :: "(nat \<Rightarrow> tm) \<Rightarrow> string \<Rightarrow> string \<Rightarrow> (string \<times> async option) outcome" where
  "LogTest_main clock file argv0 =
     obind (log_statement log_defaults (clock 0) file 43 INFO (put_cstr (Some argv0)) []) (\<lambda>out.
     obind (test_Logging log_defaults (\<lambda>i. clock (1 + i)) file out) (\<lambda>out.
     obind (test_Logging async_globals (\<lambda>i. clock (14 + i)) file (Some (async_start AsyncLogging_new))) (\<lambda>s.
     obind (test_AsyncLogging async_globals (\<lambda>i. clock (27 + i)) file s) (\<lambda>s.
     ret (out, s)))))"

section \<open>One statement, one record\<close>

lemma put_word:
  assumes "CHR 0x00 \<notin> set message" and "length message < 3000" and "length b = 26"
  shows "put_cstr (Some message) b = ret (b @ message)"
  using assms by (simp add: put_cstr_small add_text_def kSmallBuffer_def)

definition hello :: "nat \<Rightarrow> string" where
  "hello i = ''Hello, '' @ int_text (sint (word_of_nat i :: 32 word)) @ '' abc...xyz''"

lemma put_hello_text: "length b = 26 \<Longrightarrow> put_hello (word_of_nat i) b = ret (b @ hello i)"
  using int_text_length32 [of "word_of_nat i"]
  by (simp add: put_hello_def put_small add_text_def add_number_def kSmallBuffer_def hello_def)

lemma hello_length: "length (hello i) < 100"
  using int_text_length32 [of "word_of_nat i"] by (simp add: hello_def)

text \<open>
  \<open>logs fw records a a'\<close>: from the state \<open>a\<close> the logger gets to \<open>a'\<close> by appending the records, one step each.
\<close>

definition logs :: "fwrite \<Rightarrow> nat \<Rightarrow> async \<Rightarrow> async \<Rightarrow> bool" where
  "logs fw n a a' \<longleftrightarrow> async_reachable fw a' \<and>
     (\<exists>rs. length rs = n \<and> appended a' = appended a @ rs)"

lemma logged:
  assumes "async_reachable fw a" and "fwrite_ok fw" and "tm_ok t" and "length message + length file < 3888"
    and "\<And>b. length b = 26 \<Longrightarrow> put b = ret (b @ message)"
  shows "\<exists>time a'. time_text t = ret time
    \<and> log_statement async_globals t file line level put (Some a) = ret (Some a')
    \<and> async_step fw a a' \<and> appended a' = appended a @ [record_text time file line level message]"
proof -
  obtain x where x: "time_text t = ret x" "length x = 20" "log_statement async_globals t file line level put (Some a)
      = asyncLog (record_text x file line level message) (Some a)"
    using log_statement_written [where g = async_globals and s = "Some a" and line = line and level = level,
        OF assms(3-5)]
    by (simp add: async_globals_def setOutput_def) blast
  let ?r = "record_text x file line level message"
  have small: "length ?r < kLargeBuffer"
    using x(2) assms(4) int_text_length32 [of line] by (simp add: record_text_def kLargeBuffer_def)
  obtain a' where "async_append ?r a = ret a'" "appended a' = appended a @ [?r]"
    using async_append_ok [OF _ _ small] reachable_inv [OF assms(1,2)] by blast
  then show ?thesis using x small async_step.Append by (auto simp: asyncLog_def)
qed

lemma logged_logs:
  assumes "async_reachable fw a" and "fwrite_ok fw" and "tm_ok t" and "length message + length file < 3888"
    and "\<And>b. length b = 26 \<Longrightarrow> put b = ret (b @ message)"
  shows "\<exists>a'. log_statement async_globals t file line level put (Some a) = ret (Some a') \<and> logs fw 1 a a'"
  using logged [OF assms] assms(1) by (fastforce simp: logs_def intro: async_reachable.step)

lemma logs_reach: "logs fw n a a' \<Longrightarrow> async_reachable fw a'"
  by (simp add: logs_def)

lemma logs_trans: "logs fw m a a1 \<Longrightarrow> logs fw n a1 a2 \<Longrightarrow> logs fw (m + n) a a2"
  by (fastforce simp: logs_def)

lemma hello_loop_logs:
  assumes "async_reachable fw a" and "fwrite_ok fw" and "\<forall>i. tm_ok (clock i)" and "length path < 3000"
  shows "\<exists>a'. hello_loop async_globals clock path line ks (Some a) = ret (Some a') \<and> logs fw (length ks) a a'"
  using assms(1)
proof (induction ks arbitrary: a)
  case Nil
  then show ?case by (simp add: logs_def)
next
  case (Cons i ks)
  have "length (hello i) + length path < 3888" using hello_length [of i] assms(4) by simp
  from logged_logs [OF Cons.prems assms(2) _ this put_hello_text] assms(3) obtain a1 where
    a1: "log_statement async_globals (clock i) path line INFO (put_hello (word_of_nat i)) (Some a) = ret (Some a1)"
    "logs fw 1 a a1"
    by blast
  then obtain a' where "hello_loop async_globals clock path line ks (Some a1) = ret (Some a')" "logs fw (length ks) a1 a'"
    using Cons.IH [of a1] by (auto simp: logs_def)
  then show ?case using a1 logs_trans [OF a1(2)] by auto
qed

lemma test_Logging_logs:
  assumes "async_reachable fw a" and "fwrite_ok fw" and "\<forall>i. tm_ok (clock i)" and "length file < 3000"
  shows "\<exists>a'. test_Logging async_globals clock file (Some a) = ret (Some a') \<and> logs fw 13 a a'"
proof -
  have word: "\<exists>a'. log_statement async_globals (clock j) file line level (put_cstr (Some m)) (Some a) = ret (Some a')
      \<and> logs fw 1 a a'" if "async_reachable fw a" "m \<in> {''info'', ''warn'', ''error''}" for a j line level m
    by (rule logged_logs [where message = m, OF that(1) assms(2)]) (use that(2) assms(3,4) in \<open>auto intro!: put_word\<close>)
  obtain a1 where a1: "log_statement async_globals (clock 0) file 16 INFO (put_cstr (Some ''info'')) (Some a) = ret (Some a1)"
    "logs fw 1 a a1" using word [OF assms(1)] by blast
  obtain a2 where a2: "log_statement async_globals (clock 1) file 17 WARN (put_cstr (Some ''warn'')) (Some a1) = ret (Some a2)"
    "logs fw 1 a1 a2" using word [OF logs_reach [OF a1(2)]] by blast
  obtain a3 where a3: "log_statement async_globals (clock 2) file 18 ERROR (put_cstr (Some ''error'')) (Some a2) = ret (Some a3)"
    "logs fw 1 a2 a3" using word [OF logs_reach [OF a2(2)]] by blast
  obtain a' where a': "hello_loop async_globals (\<lambda>i. clock (3 + i)) file 22 [0..<10] (Some a3) = ret (Some a')"
    "logs fw 10 a3 a'"
    using hello_loop_logs [where clock = "\<lambda>i. clock (3 + i)" and path = "file" and line = 22 and ks = "[0..<10]",
        OF logs_reach [OF a3(2)] assms(2)]
      assms(3,4) by auto
  have "logs fw (1 + (1 + (1 + 10))) a a'" using a1(2) a2(2) a3(2) a'(2) by (blast intro: logs_trans)
  then show ?thesis using a1(1) a2(1) a3(1) a'(1) unfolding test_Logging_def by simp
qed

section \<open>The whole program\<close>

lemma default_logged:
  assumes "tm_ok t" and "length message + length file < 3888" and "\<And>b. length b = 26 \<Longrightarrow> put b = ret (b @ message)"
  shows "\<exists>time. log_statement log_defaults t file line level put out = ret (out @ record_text time file line level message)"
  using log_statement_written [OF assms, of log_defaults line level out] by (auto simp: log_defaults_def defaultOutput_def)

lemma default_hello_loop:
  assumes "\<forall>i. tm_ok (clock i)" and "length path < 3000"
  shows "\<exists>out'. hello_loop log_defaults clock path line ks out = ret out'"
proof (induction ks arbitrary: out)
  case (Cons i ks)
  have "length (hello i) + length path < 3888" using hello_length [of i] assms(2) by simp
  from default_logged [OF _ this put_hello_text] obtain time where
    "log_statement log_defaults (clock i) path line INFO (put_hello (word_of_nat i)) out
      = ret (out @ record_text time path line INFO (hello i))" using assms(1) by blast
  then show ?case using Cons by simp
qed simp

lemma default_test_Logging:
  assumes "\<forall>i. tm_ok (clock i)" and "length file < 3000"
  shows "\<exists>out'. test_Logging log_defaults clock file out = ret out'"
proof -
  have word: "\<exists>out'. log_statement log_defaults (clock j) file line level (put_cstr (Some m)) out = ret out'"
    if "m \<in> {''info'', ''warn'', ''error''}" for j line level m out
    using default_logged [of "clock j" m "file" "put_cstr (Some m)" "line" level out] that assms by (auto simp: put_word)
  obtain o1 where o1: "log_statement log_defaults (clock 0) file 16 INFO (put_cstr (Some ''info'')) out = ret o1"
    using word by blast
  obtain o2 where o2: "log_statement log_defaults (clock 1) file 17 WARN (put_cstr (Some ''warn'')) o1 = ret o2"
    using word by blast
  obtain o3 where o3: "log_statement log_defaults (clock 2) file 18 ERROR (put_cstr (Some ''error'')) o2 = ret o3"
    using word by blast
  obtain o4 where "hello_loop log_defaults (\<lambda>i. clock (3 + i)) file 22 [0..<10] o3 = ret o4"
    using default_hello_loop [of "\<lambda>i. clock (3 + i)" "file" 22 "[0..<10]" o3] assms by blast
  then show ?thesis using o1 o2 o3 by (auto simp: test_Logging_def)
qed

lemma LogTest_main_run:
  assumes "fwrite_ok fw" and "\<forall>i. tm_ok (clock i)" and "length file < 3000"
    and "length argv0 < 800" and "CHR 0x00 \<notin> set argv0"
  shows "\<exists>out a. LogTest_main clock file argv0 = ret (out, Some a) \<and> async_reachable fw a \<and> length (appended a) = 1037"
proof -
  have "\<And>b. length b = 26 \<Longrightarrow> put_cstr (Some argv0) b = ret (b @ argv0)" using assms(4,5) by (simp add: put_word)
  then obtain o1 where o1: "log_statement log_defaults (clock 0) file 43 INFO (put_cstr (Some argv0)) [] = ret o1"
    using default_logged [of "clock 0" argv0 "file" "put_cstr (Some argv0)"] assms(2-4) by fastforce
  obtain o2 where o2: "test_Logging log_defaults (\<lambda>i. clock (1 + i)) file o1 = ret o2"
    using default_test_Logging [of "\<lambda>i. clock (1 + i)" "file" o1] assms(2,3) by blast
  obtain a1 where a1: "test_Logging async_globals (\<lambda>i. clock (14 + i)) file (Some AsyncLogging) = ret (Some a1)"
    "logs fw 13 AsyncLogging a1"
    using test_Logging_logs [OF async_reachable.init assms(1), of "\<lambda>i. clock (14 + i)" "file"] assms(2,3) by blast
  obtain a2 where a2: "hello_loop async_globals (\<lambda>i. clock (27 + i)) file 29 [0..<1024] (Some a1) = ret (Some a2)"
    "logs fw 1024 a1 a2"
    using hello_loop_logs [where clock = "\<lambda>i. clock (27 + i)" and path = "file" and line = 29 and ks = "[0..<1024]",
        OF logs_reach [OF a1(2)] assms(1)] assms(2,3) by auto
  have "logs fw (13 + 1024) AsyncLogging a2" using a1(2) a2(2) by (rule logs_trans)
  then have "async_reachable fw a2" "length (appended a2) = 1037" by (auto simp: logs_def AsyncLogging_def)
  then show ?thesis using o1 o2 a1(1) a2(1) by (simp add: LogTest_main_def test_AsyncLogging_def async_started)
qed

end
