(* ===== verification/LogThread.thy ===== *)
theory LogThread
  imports LogStream
begin

text \<open>
  The logger's thread wrapper (\<open>src/logger/Thread.h\<close>, \<open>Thread.cpp\<close>) and the cached thread id
  (\<open>src/logger/CurrentThread.cpp\<close>). The owner of a \<open>Thread\<close> calls its members one after the other; the
  thread it starts runs the lambda of \<open>start\<close>, which reads and writes the owner's object. What
  \<open>gettid\<close> answers in the new thread is the parameter \<open>k\<close>.
\<close>

section \<open>The object\<close>

text \<open>\<open>thread_\<close> points to nothing, to a joinable \<open>std::thread\<close> or to one already joined or detached.\<close>

datatype std_thread = Joinable | Not_joinable

record log_thread =
  started :: bool
  joined :: bool
  thread_ptr :: "std_thread option"
  tid :: "32 word"
  thread_name :: string

text \<open>The counter of threads, an \<open>atomic_int32_t\<close>, wraps around. \<open>buf\<close> holds 31 characters and a NUL.\<close>

definition setDefaultName :: "32 word \<Rightarrow> log_thread \<Rightarrow> 32 word \<times> log_thread" where
  "setDefaultName numCreated t =
     (let num = numCreated + 1 in
      (num, if thread_name t = [] then t\<lparr>thread_name := take 31 (''Thread'' @ int_text (sint num))\<rparr> else t))"

definition Thread :: "string \<Rightarrow> 32 word \<Rightarrow> 32 word \<times> log_thread" where
  "Thread name numCreated =
     setDefaultName numCreated
       \<lparr>started = False, joined = False, thread_ptr = None, tid = 0, thread_name = name\<rparr>"

text \<open>\<open>cached\<close> is the thread's own \<open>t_cachedTid\<close>, 0 in a new thread.\<close>

definition cacheTid :: "32 word \<Rightarrow> 32 word \<Rightarrow> 32 word" where
  "cacheTid k cached = (if cached = 0 then k else cached)"

definition CurrentThread_tid :: "32 word \<Rightarrow> 32 word \<Rightarrow> 32 word" where
  "CurrentThread_tid k cached = (if cached = 0 then cacheTid k cached else cached)"

section \<open>Owner and child\<close>

datatype thread_call = Start_call | Join_call | Destroy_call

text \<open>
  The new thread sets \<open>tid_\<close>, posts the semaphore, calls \<open>func_\<close> and works in it, then ends. \<open>func_\<close> is
  a member of the object, so the object is in use until it returns.
\<close>

datatype child_at = Unborn | Newborn | Tid_set | Posted | In_func | Ended

text \<open>\<open>in_start\<close>: the owner waits for the semaphore. \<open>calls\<close>: what the owner still is to call.\<close>

record thread_sys =
  object :: "log_thread option"
  sem :: nat
  in_start :: bool
  child :: child_at
  todo :: "thread_call list"

definition thread_init :: "string \<Rightarrow> 32 word \<Rightarrow> thread_call list \<Rightarrow> thread_sys" where
  "thread_init name numCreated ops =
     \<lparr>object = Some (snd (Thread name numCreated)), sem = 0, in_start = False, child = Unborn, todo = ops\<rparr>"

definition use_object :: "thread_sys \<Rightarrow> log_thread outcome" where
  "use_object s = (case object s of None \<Rightarrow> fail Bad_pointer | Some t \<Rightarrow> ret t)"

text \<open>
  \<open>start\<close> up to \<open>sem_wait\<close>. Assigning over a joinable \<open>std::thread\<close> calls \<open>std::terminate\<close>; a second start
  is otherwise not modelled, as its child would be another thread.
\<close>

definition start_begin :: "thread_sys \<Rightarrow> thread_sys outcome" where
  "start_begin s =
     obind (use_object s) (\<lambda>t.
     if thread_ptr t = Some Joinable then fail Assertion
     else ret (s\<lparr>object := Some (t\<lparr>started := True, thread_ptr := Some Joinable\<rparr>), sem := 0,
                 in_start := True, child := Newborn\<rparr>))"

text \<open>\<open>join\<close> of the child that has ended; \<open>std::thread::join\<close> throws on a thread that is not joinable.\<close>

definition thread_join :: "thread_sys \<Rightarrow> thread_sys outcome" where
  "thread_join s =
     obind (use_object s) (\<lambda>t.
     case thread_ptr t of
       None \<Rightarrow> fail Null_pointer
     | Some Not_joinable \<Rightarrow> fail (Runtime_error ''Invalid argument'')
     | Some Joinable \<Rightarrow> ret (s\<lparr>object := Some (t\<lparr>joined := True, thread_ptr := Some Not_joinable\<rparr>)\<rparr>))"

text \<open>\<open>join\<close> blocks as long as it finds a joinable thread whose child has not ended.\<close>

definition join_blocks :: "thread_sys \<Rightarrow> bool" where
  "join_blocks s =
     (case object s of None \<Rightarrow> False | Some t \<Rightarrow> thread_ptr t = Some Joinable \<and> child s \<noteq> Ended)"

text \<open>The destructor: it detaches a thread that was started and not joined.\<close>

definition thread_destroy :: "thread_sys \<Rightarrow> thread_sys outcome" where
  "thread_destroy s =
     obind (use_object s) (\<lambda>t.
     obind (if started t \<and> \<not> joined t then
              (case thread_ptr t of
                 None \<Rightarrow> fail Null_pointer
               | Some Not_joinable \<Rightarrow> fail (Runtime_error ''Invalid argument'')
               | Some Joinable \<Rightarrow> ret (t\<lparr>thread_ptr := Some Not_joinable\<rparr>))
            else ret t) (\<lambda>t.
     if thread_ptr t = Some Joinable then fail Assertion else ret (s\<lparr>object := None\<rparr>)))"

fun owner_call :: "thread_call \<Rightarrow> thread_sys \<Rightarrow> thread_sys outcome" where
  "owner_call Start_call s = start_begin s"
| "owner_call Join_call s = thread_join s"
| "owner_call Destroy_call s = thread_destroy s"

definition start_end :: "thread_sys \<Rightarrow> thread_sys" where
  "start_end s = s\<lparr>sem := sem s - 1, in_start := False\<rparr>"

definition child_step :: "32 word \<Rightarrow> thread_sys \<Rightarrow> thread_sys outcome" where
  "child_step k s =
     (case child s of
        Newborn \<Rightarrow> obind (use_object s) (\<lambda>t.
          ret (s\<lparr>object := Some (t\<lparr>tid := CurrentThread_tid k 0\<rparr>), child := Tid_set\<rparr>))
      | Tid_set \<Rightarrow> ret (s\<lparr>sem := sem s + 1, child := Posted\<rparr>)
      | Posted \<Rightarrow> obind (use_object s) (\<lambda>t. ret (s\<lparr>child := In_func\<rparr>))
      | In_func \<Rightarrow> obind (use_object s) (\<lambda>t. ret (s\<lparr>child := Ended\<rparr>))
      | _ \<Rightarrow> ret s)"

inductive thread_step :: "32 word \<Rightarrow> thread_sys \<Rightarrow> thread_sys outcome \<Rightarrow> bool" for k where
  owner_calls: "todo s = c # cs \<Longrightarrow> \<not> in_start s \<Longrightarrow> \<not> (c = Join_call \<and> join_blocks s)
      \<Longrightarrow> thread_step k s (owner_call c (s\<lparr>todo := cs\<rparr>))"
| owner_passes: "in_start s \<Longrightarrow> 0 < sem s \<Longrightarrow> thread_step k s (ret (start_end s))"
| child_runs: "child s \<notin> {Unborn, Ended} \<Longrightarrow> thread_step k s (child_step k s)"

inductive thread_reach :: "32 word \<Rightarrow> thread_sys \<Rightarrow> thread_sys \<Rightarrow> bool" for k where
  thread_first: "thread_reach k s s"
| thread_next: "thread_reach k s s' \<Longrightarrow> thread_step k s' (ret s'') \<Longrightarrow> thread_reach k s s''"

inductive_cases thread_stepE: "thread_step k s r"

section \<open>Names\<close>

text \<open>The name of a number always fits the buffer of \<open>setDefaultName\<close>.\<close>

lemma default_name:
  "thread_name (snd (Thread name n)) = (if name = [] then ''Thread'' @ int_text (sint (n + 1)) else name)"
  using int_text_length32 [of "n + 1"] by (simp add: Thread_def setDefaultName_def Let_def)

section \<open>Starting, joining and destroying a thread\<close>

text \<open>
  The invariant of an owner that starts the thread, joins it and destroys it: what is left to call fits
  what was done, and the child has posted once its id is set.
\<close>

fun owner_ok :: "thread_call list \<Rightarrow> thread_sys \<Rightarrow> bool" where
  "owner_ok [Start_call, Join_call, Destroy_call] s \<longleftrightarrow>
     (\<exists>t. object s = Some t \<and> \<not> started t \<and> \<not> joined t \<and> thread_ptr t = None) \<and> child s = Unborn \<and> \<not> in_start s"
| "owner_ok [Join_call, Destroy_call] s \<longleftrightarrow>
     (\<exists>t. object s = Some t \<and> started t \<and> \<not> joined t \<and> thread_ptr t = Some Joinable) \<and> child s \<noteq> Unborn"
| "owner_ok [Destroy_call] s \<longleftrightarrow>
     (\<exists>t. object s = Some t \<and> started t \<and> joined t \<and> thread_ptr t = Some Not_joinable) \<and> child s = Ended
     \<and> \<not> in_start s"
| "owner_ok [] s \<longleftrightarrow> object s = None \<and> child s = Ended \<and> \<not> in_start s"
| "owner_ok _ s \<longleftrightarrow> False"

definition tid_ok :: "32 word \<Rightarrow> thread_sys \<Rightarrow> bool" where
  "tid_ok k s \<longleftrightarrow> (\<forall>t. object s = Some t \<longrightarrow> child s \<notin> {Unborn, Newborn} \<longrightarrow> tid t = k)
     \<and> (child s \<in> {Unborn, Newborn, Tid_set} \<longrightarrow> sem s = 0)
     \<and> (child s \<in> {Newborn, Tid_set} \<longrightarrow> in_start s)
     \<and> (in_start s \<longrightarrow> child s \<notin> {Newborn, Tid_set} \<longrightarrow> 0 < sem s)"

definition thread_ok :: "32 word \<Rightarrow> thread_sys \<Rightarrow> bool" where
  "thread_ok k s \<longleftrightarrow> owner_ok (todo s) s \<and> tid_ok k s"

lemma owner_okE:
  assumes "owner_ok ops s"
  obtains "ops = [Start_call, Join_call, Destroy_call]" | "ops = [Join_call, Destroy_call]"
    | "ops = [Destroy_call]" | "ops = []"
  using assms by (cases "(ops, s)" rule: owner_ok.cases) auto

lemma thread_init_ok:
  "thread_ok k (thread_init name n [Start_call, Join_call, Destroy_call])"
  by (auto simp: thread_ok_def thread_init_def tid_ok_def Thread_def setDefaultName_def Let_def)

lemma thread_step_ok:
  assumes "thread_step k s r" and "thread_ok k s"
  shows "\<exists>s'. r = ret s' \<and> thread_ok k s'"
proof -
  have ok: "owner_ok (todo s) s" "tid_ok k s" using assms(2) by (simp_all add: thread_ok_def)
  from ok(1) show ?thesis
  proof (cases rule: owner_okE)
    case 1
    with assms(1) ok show ?thesis
      by (auto elim!: thread_stepE simp: start_begin_def use_object_def thread_ok_def tid_ok_def)
  next
    case 2
    with assms(1) ok show ?thesis
      by (auto elim!: thread_stepE
          simp: thread_join_def use_object_def thread_ok_def tid_ok_def join_blocks_def start_end_def
            child_step_def CurrentThread_tid_def cacheTid_def
          split: child_at.splits)
  next
    case 3
    with assms(1) ok show ?thesis
      by (auto elim!: thread_stepE simp: thread_destroy_def use_object_def thread_ok_def tid_ok_def)
  next
    case 4
    with assms(1) ok show ?thesis by (auto elim!: thread_stepE)
  qed
qed

lemma thread_reach_ok: "thread_reach k s s' \<Longrightarrow> thread_ok k s \<Longrightarrow> thread_ok k s'"
  by (induction rule: thread_reach.induct) (auto dest: thread_step_ok)

text \<open>Once \<open>start\<close> has returned the thread's id is set.\<close>

lemma thread_ok_tid:
  assumes "thread_ok k s" and "object s = Some t" and "started t" and "\<not> in_start s"
  shows "tid t = k"
proof -
  have ok: "owner_ok (todo s) s" "tid_ok k s" using assms(1) by (simp_all add: thread_ok_def)
  from ok(1) have "child s \<noteq> Unborn"
    by (cases rule: owner_okE) (use ok(1) assms(2,3) in auto)
  then show ?thesis using ok(2) assms(2,4) by (auto simp: tid_ok_def)
qed

text \<open>Neither the semaphore nor the join is waited for in vain.\<close>

lemma thread_progress:
  assumes "thread_ok k s" and "todo s \<noteq> [] \<or> in_start s"
  shows "\<exists>r. thread_step k s r"
proof -
  have ok: "owner_ok (todo s) s" "tid_ok k s" using assms(1) by (simp_all add: thread_ok_def)
  show ?thesis
  proof (cases "child s \<in> {Unborn, Ended}")
    case False
    then show ?thesis using thread_step.child_runs by blast
  next
    case True
    show ?thesis
    proof (cases "in_start s")
      case True
      then have "0 < sem s" using ok \<open>child s \<in> _\<close> by (auto simp: tid_ok_def elim!: owner_okE)
      with True show ?thesis using thread_step.owner_passes by blast
    next
      case False
      then obtain c cs where "todo s = c # cs" using assms(2) by (cases "todo s") auto
      moreover have "\<not> (c = Join_call \<and> join_blocks s)"
        using ok(1)
      proof (cases rule: owner_okE)
        case 2
        then have "child s = Ended" using ok(1) True by simp
        then show ?thesis by (simp add: join_blocks_def split: option.split)
      qed (use calculation in simp_all)
      ultimately show ?thesis using thread_step.owner_calls False by blast
    qed
  qed
qed

text \<open>Every step uses up some of the work, so a run ends.\<close>

fun child_work :: "child_at \<Rightarrow> nat" where
  "child_work Newborn = 4"
| "child_work Tid_set = 3"
| "child_work Posted = 2"
| "child_work In_func = 1"
| "child_work _ = 0"

definition thread_work :: "thread_sys \<Rightarrow> nat" where
  "thread_work s = 6 * length (todo s) + (if in_start s then 1 else 0) + child_work (child s)"

lemma thread_step_work: "thread_step k s r \<Longrightarrow> r = ret s' \<Longrightarrow> thread_work s' < thread_work s"
proof (induction rule: thread_step.cases)
  case (owner_calls s c cs)
  then show ?case
    by (cases c; cases "object s") (auto split: if_splits option.splits std_thread.splits
        simp: start_begin_def thread_join_def thread_destroy_def use_object_def thread_work_def)
next
  case (child_runs s)
  then show ?case
    by (cases "object s"; cases "child s") (auto simp: child_step_def use_object_def thread_work_def)
qed (auto simp: start_end_def thread_work_def)

text \<open>
  An object destroyed without a join: \<open>start\<close> has returned, but the child still is to call \<open>func_\<close>.
\<close>

lemma thread_destroyed_early:
  "\<exists>s. thread_reach k (thread_init name n [Start_call, Destroy_call]) s \<and> thread_step k s (fail Bad_pointer)"
proof -
  obtain t where t': "t = snd (Thread name n)" by blast
  let ?t = "t\<lparr>started := True, thread_ptr := Some Joinable\<rparr>"
  let ?s1 = "\<lparr>object = Some ?t, sem = 0, in_start = True, child = Newborn, todo = [Destroy_call]\<rparr>"
  let ?s2 = "?s1\<lparr>object := Some (?t\<lparr>tid := k\<rparr>), child := Tid_set\<rparr>"
  let ?s3 = "?s2\<lparr>sem := 1, child := Posted\<rparr>"
  let ?s4 = "?s3\<lparr>sem := 0, in_start := False\<rparr>"
  let ?s5 = "?s4\<lparr>object := None, todo := []\<rparr>"
  have t: "\<not> joined t" "thread_ptr t = None"
    by (simp_all add: t' Thread_def setDefaultName_def Let_def)
  have st1: "thread_step k (thread_init name n [Start_call, Destroy_call]) (ret ?s1)"
    using thread_step.owner_calls [of "thread_init name n [Start_call, Destroy_call]" Start_call "[Destroy_call]" k] t
    by (simp add: thread_init_def start_begin_def use_object_def flip: t')
  have st2: "thread_step k ?s1 (ret ?s2)"
    using thread_step.child_runs [of ?s1 k]
    by (simp add: child_step_def use_object_def CurrentThread_tid_def cacheTid_def)
  have st3: "thread_step k ?s2 (ret ?s3)"
    using thread_step.child_runs [of ?s2 k] by (simp add: child_step_def)
  have st4: "thread_step k ?s3 (ret ?s4)"
    using thread_step.owner_passes [of ?s3 k] by (simp add: start_end_def)
  have st5: "thread_step k ?s4 (ret ?s5)"
    using thread_step.owner_calls [of ?s4 Destroy_call "[]" k] t by (simp add: thread_destroy_def use_object_def)
  have "thread_reach k (thread_init name n [Start_call, Destroy_call]) ?s5"
    by (rule thread_next [OF thread_next [OF thread_next [OF thread_next [OF thread_next
          [OF thread_first st1] st2] st3] st4] st5])
  moreover have "thread_step k ?s5 (fail Bad_pointer)"
    using thread_step.child_runs [of ?s5 k] by (simp add: child_step_def use_object_def)
  ultimately show ?thesis by blast
qed

end
