(* ===== verification/Program_Properties.thy ===== *)
theory Program_Properties
  imports Storage_Properties Network_Properties Runtime_Properties Kv_Server Example_Client Log_Pipeline LogThread
begin

text \<open>
  The properties of the programs built from the library: the server as a process, the example servers
  and the client, addresses, and the logger put together.
\<close>

section \<open>The server as a process\<close>

definition sample_lsn :: listen_sock where
  "sample_lsn = \<lparr>lsn_fd = 3, lsn_nonblocking = False, lsn_addr = None, lsn_listening = False,
     lsn_queue = [Accepted (sample_sock\<lparr>sock_fd := 8\<rparr>) InetAddress_zero]\<rparr>"

text \<open>
  C26. Construction succeeds when every descriptor could be made: the acceptor listens on
  127.0.0.1:1234 behind a blocking socket registered on the main reactor, the table is empty, each
  sub reactor watches nothing but its timer, and the state is well formed.
\<close>

theorem server_constructed:
  assumes "epoll_instance ctl interest" and "interest k = (\<lambda>_. None)"
    and "fst main_fds \<noteq> -1" and "\<forall>f \<in> set fds. fst f \<noteq> -1" and "fds \<noteq> []"
    and "lsn_fd lsn \<noteq> -1" and "lsn_fd lsn \<noteq> snd main_fds" and "\<not> lsn_nonblocking lsn"
  shows "\<exists>p. Server ctl main_fds lsn False False fds k = ret p \<and> process_ok interest p
    \<and> connections (the_server p) = (\<lambda>_. None) \<and> length (sub_reactors (the_server p)) = length fds
    \<and> (\<forall>k \<in> set (sub_reactors (the_server p)). dom (interest k) \<subseteq> snd ` set fds)
    \<and> Start p = ret (p\<lparr>pool := (pool p)\<lparr>workers := workers (pool p) @ map Fresh [0..<length fds]\<rparr>\<rparr>)"
proof -
  obtain p where p: "Server ctl main_fds lsn False False fds k = ret p" "process_ok interest p"
    "connections (the_server p) = (\<lambda>_. None)" "length (sub_reactors (the_server p)) = length fds"
    "\<forall>k \<in> set (sub_reactors (the_server p)). dom (interest k) \<subseteq> snd ` set fds"
    "pool p = ThreadPool (length fds)"
    using Server_ok [OF assms] by blast
  moreover have "\<not> stopped (pool p)" using p(6) by (simp add: ThreadPool_def)
  ultimately show ?thesis by (simp add: Start_def add_loops_threads)
qed

theorem server_constructed_witness:
  "\<exists>p. Server map_ctl (4, 5) sample_lsn False False [(6, 7)] Map.empty = ret p \<and> process_ok (\<lambda>k. k) p
     \<and> length (sub_reactors (the_server p)) = 1"
  using server_constructed [OF sample_epoll, of Map.empty "(4, 5)" "[(6, 7)]" sample_lsn]
  by (auto simp: sample_lsn_def)

text \<open>
  Whatever sequence of accepts, rounds and checks a server program has gone through since its
  construction, its state is well formed, and the next piece of work ends the process at most by a
  failing \<open>accept\<close>, by a socket that cannot be made, or in one of the ways \<open>E\<close> of the user's message
  callback. Connections, open or closed, never leave the table.
\<close>

theorem server_process_safe:
  assumes "server_program ctl interest E on_message new_connect" and "interest k = (\<lambda>_. None)"
    and "fst main_fds \<noteq> -1" and "\<forall>f \<in> set fds. fst f \<noteq> -1" and "fds \<noteq> []"
    and "lsn_fd lsn \<noteq> -1" and "lsn_fd lsn \<noteq> snd main_fds" and "\<not> lsn_nonblocking lsn"
    and "Server ctl main_fds lsn False False fds k = ret p0"
    and "process_reach ctl interest on_message new_connect p0 p"
    and "process_work ctl interest on_message new_connect p m"
  shows "process_ok interest p
    \<and> yields (E \<union> {Exit ''socket accept error'', Exit ''socket create error''})
        (\<lambda>p'. process_ok interest p' \<and> dom (connections (the_server p)) \<subseteq> dom (connections (the_server p'))) m"
proof -
  have ei: "epoll_instance ctl interest"
    using assms(1) by (simp add: server_program_def message_handler_def)
  have "process_ok interest p0" using Server_ok [OF ei assms(2-8)] assms(9) by auto
  then have "process_ok interest p" using server_program.reach_ok [OF assms(1,10)] by simp
  then show ?thesis using server_program.work_safe [OF assms(1) _ assms(11)] by simp
qed

theorem server_process_safe_witness:
  "\<exists>p. Server map_ctl (4, 5) sample_lsn False False [(6, 7)] Map.empty = ret p
     \<and> yields {Exit ''socket accept error'', Exit ''socket create error''} (process_ok (\<lambda>k. k))
         (obind (acceptor_event map_ctl (Some print_connection) 9 EPOLLIN (acceptor p, the_server p))
            (\<lambda>(a, s). ret (p\<lparr>acceptor := a, the_server := s\<rparr>)))"
proof -
  obtain p where p: "Server map_ctl (4, 5) sample_lsn False False [(6, 7)] Map.empty = ret p"
    "\<forall>k \<in> set (sub_reactors (the_server p)). dom k \<subseteq> {7}"
    "lsn_queue (acc_sock (acceptor p)) = lsn_queue sample_lsn"
    using Server_ok [OF sample_epoll, of Map.empty "(4, 5)" "[(6, 7)]" sample_lsn]
    by (auto simp: sample_lsn_def)
  have "k 8 = None" if "k \<in> set (sub_reactors (the_server p))" for k
    using p(2) that by (metis (no_types) domIff numeral_eq_iff semiring_norm(88,90) singletonD subsetD)
  then have "kernel_accepts (\<lambda>k. k) p" using p(3) by (simp add: kernel_accepts_def sample_lsn_def)
  then have "process_work map_ctl (\<lambda>k. k) echo_message (Some print_connection) p
      (obind (acceptor_event map_ctl (Some print_connection) 9 EPOLLIN (acceptor p, the_server p))
        (\<lambda>(a, s). ret (p\<lparr>acceptor := a, the_server := s\<rparr>)))"
    by (rule process_work.Accept_one) simp
  from server_process_safe [OF echo.server_program_axioms _ _ _ _ _ _ _ p(1) process_reach.start this]
  show ?thesis using p(1) by (auto simp: sample_lsn_def elim!: yields_mono)
qed

text \<open>
  When the listening socket reports input, the next accepted connection is filed in the table
  under its descriptor, open, non-blocking and registered for edge-triggered input with its reactor;
  the other connections stay as they are. (The callback for new connections only prints.)
\<close>

theorem accept_files_connection:
  assumes "epoll_instance ctl interest" and "process_ok interest p"
    and "lsn_queue (acc_sock (acceptor p)) = Accepted so addr # rs" and "0 \<le> sock_fd so"
    and "interest (sub_reactors (the_server p) ! reactor (the_server p) (sock_fd so)) (sock_fd so) = None"
    and "spare \<noteq> -1"
  shows "\<exists>a s c. acceptor_event ctl (Some print_connection) spare EPOLLIN (acceptor p, the_server p) = ret (a, s)
    \<and> lsn_queue (acc_sock a) = rs \<and> server_ok interest s
    \<and> connections s (sock_fd so) = Some c \<and> isConnected c \<and> conn_sock c = so\<lparr>nonblocking := True\<rparr>
    \<and> interest (sub_reactors s ! reactor s (sock_fd so)) (sock_fd so) = Some (EPOLLIN OR EPOLLPRI OR EPOLLET)
    \<and> (\<forall>fd. fd \<noteq> sock_fd so \<longrightarrow> connections s fd = connections (the_server p) fd)"
proof -
  let ?so = "so\<lparr>nonblocking := True\<rparr>" and ?s = "the_server p"
  have "NewConnection ctl (Some print_connection) spare ?so ?s = NewConnection ctl None spare ?so ?s"
    by (simp add: NewConnection_def print_connection_def Let_def)
  then obtain s where "NewConnection ctl (Some print_connection) spare ?so ?s = ret s" "server_ok interest s"
    "\<forall>fd. fd \<noteq> sock_fd so \<longrightarrow> connections s fd = connections ?s fd"
    "\<exists>c. connections s (sock_fd so) = Some c \<and> isConnected c \<and> conn_sock c = ?so"
    "interest (sub_reactors s ! reactor s (sock_fd so)) (sock_fd so) = Some (EPOLLIN OR EPOLLPRI OR EPOLLET)"
    using NewConnection_ok [OF assms(1), of ?s spare ?so] assms(2,4-6) by (auto simp: process_ok_def)
  then show ?thesis
    using assms(2-4)
    by (auto simp: acceptor_event_def HandleEvent_def call_def AcceptConnection_def Accept_def SetNonBlocking_def
        Socket_def SetReadyEvents_def process_ok_def acceptor_ok_def epoll_masks)
qed

theorem accept_files_connection_witness:
  "\<exists>p a s c. Server map_ctl (4, 5) sample_lsn False False [(6, 7)] Map.empty = ret p
     \<and> acceptor_event map_ctl (Some print_connection) 9 EPOLLIN (acceptor p, the_server p) = ret (a, s)
     \<and> connections s 8 = Some c \<and> isConnected c"
proof -
  obtain p where p: "Server map_ctl (4, 5) sample_lsn False False [(6, 7)] Map.empty = ret p"
    "process_ok (\<lambda>k. k) p" "\<forall>k \<in> set (sub_reactors (the_server p)). dom k \<subseteq> {7}"
    "lsn_queue (acc_sock (acceptor p)) = lsn_queue sample_lsn"
    using Server_ok [OF sample_epoll, of Map.empty "(4, 5)" "[(6, 7)]" sample_lsn]
    by (auto simp: sample_lsn_def)
  have "sub_reactors (the_server p) ! reactor (the_server p) 8 \<in> set (sub_reactors (the_server p))"
    using p(2) by (intro nth_mem reactor_less) (simp add: process_ok_def)
  then have "(sub_reactors (the_server p) ! reactor (the_server p) 8) 8 = None"
    using p(3) by (metis (no_types) domIff numeral_eq_iff semiring_norm(88,90) singletonD subsetD)
  then show ?thesis
    using accept_files_connection [OF sample_epoll p(2), of "sample_sock\<lparr>sock_fd := 8\<rparr>" InetAddress_zero "[]" 9] p(1,4)
    by (auto simp: sample_lsn_def)
qed

text \<open>
  C20. A round of the event loop, which first stores the reported events in all ready channels and only
  then handles them, has the same outcome as handling each event as soon as it is stored, when no
  descriptor is reported twice and all are connections of the table.
\<close>

theorem loop_round_is_sequential:
  assumes "distinct (map fst evs)" and "fst ` set evs \<subseteq> dom (connections s)"
  shows "loop_round ctl on_message (Some evs) s = in_turn ctl on_message evs s"
  using round_in_turn [OF assms] .

theorem loop_round_is_sequential_witness:
  "loop_round map_ctl echo_message (Some [(7, EPOLLIN), (8, EPOLLHUP)])
     (sample_server\<lparr>connections := [7 \<mapsto> sample_conn, 8 \<mapsto> sample_conn]\<rparr>)
   = in_turn map_ctl echo_message [(7, EPOLLIN), (8, EPOLLHUP)]
     (sample_server\<lparr>connections := [7 \<mapsto> sample_conn, 8 \<mapsto> sample_conn]\<rparr>)"
  using loop_round_is_sequential [of "[(7, EPOLLIN), (8, EPOLLHUP)]"
      "sample_server\<lparr>connections := [7 \<mapsto> sample_conn, 8 \<mapsto> sample_conn]\<rparr>" map_ctl echo_message]
  by simp

section \<open>The example servers\<close>

text \<open>
  C6. A session with the storage server: the commands arrive on one connection, one per event, each in
  any number of chunks, and the kernel takes each reply in one call. Then the bytes sent are exactly the
  replies of the interpreter over the sorted list of pairs, one after the other, and the database and
  the store file end up as it prescribes.
\<close>

theorem kv_session_refined:
  assumes "sub_reactors s = [(k, w)]" and "connections s fd = Some c"
    and "isConnected c" and "nonblocking (conn_sock c)"
    and "incoming (conn_sock c) = concat bursts @ later" and "list_all2 brings bursts cmds"
    and "\<forall>cmd \<in> set cmds. command_ok cmd"
    and "outcomes (conn_sock c) = map (\<lambda>r. Wrote (length (c_string r))) (session_replies cmds a) @ ws"
    and "worker_rep w a" and "draws_ready (session_draws cmds a + n) (myDB w)"
  shows "\<exists>s' c' w'. in_turn ctl kv_message (replicate (length cmds) (fd, EPOLLIN)) s = ret s'
    \<and> sub_reactors s' = [(k, w')] \<and> connections s' fd = Some c' \<and> isConnected c'
    \<and> wire (conn_sock c') = wire (conn_sock c) @ concat (map c_string (session_replies cmds a))
    \<and> worker_rep w' (session_state cmds a) \<and> draws_ready n (myDB w')"
  using session_events [OF assms] .

theorem kv_session_refined_witness:
  "\<exists>s' c'. in_turn (lift_ctl map_ctl) kv_message [(7, EPOLLIN), (7, EPOLLIN)]
      \<lparr>connections = [7 \<mapsto> sample_conn\<lparr>conn_sock := sample_sock\<lparr>
         incoming := [Read_bytes ''set a'', Read_EINTR, Read_bytes '' b'', Read_EAGAIN, Read_bytes ''get a'', Read_EAGAIN],
         outcomes := [Wrote 22, Wrote 7]\<rparr>\<rparr>],
       sub_reactors = [([7 \<mapsto> 0], sample_worker)]\<rparr> = ret s'
     \<and> connections s' 7 = Some c' \<and> isConnected c'
     \<and> wire (conn_sock c') = ''ok : SET successfully'' @ [newline] @ ''ok : b'' @ [newline]"
proof -
  let ?cmds = "[''set a b'', ''get a'']"
  let ?bursts = "[[Read_bytes ''set a'', Read_EINTR, Read_bytes '' b'', Read_EAGAIN], [Read_bytes ''get a'', Read_EAGAIN]]"
  let ?c = "sample_conn\<lparr>conn_sock := sample_sock\<lparr>incoming := concat ?bursts, outcomes := [Wrote 22, Wrote 7]\<rparr>\<rparr>"
  let ?s = "\<lparr>connections = [7 \<mapsto> ?c], sub_reactors = [([7 \<mapsto> 0 :: 32 word], sample_worker)]\<rparr>"
  have w: "command_of ''set a b'' = SET" "words ''set a b'' = [''set'', ''a'', ''b'']"
    "command_of ''get a'' = GET" "words ''get a'' = [''get'', ''a'']"
    by (simp_all add: words.simps command_of_def toupper_def cmdMap_def char_of_def bit_0)
  have replies: "session_replies ?cmds sample_abs = [''ok : SET successfully'' @ [newline], ''ok : b'' @ [newline]]"
    by (simp add: abs_cmd_def w sample_abs_def)
  have nl: "CHR 0x00 \<noteq> newline" by (simp add: newline_def)
  have draws: "draws_ready (session_draws ?cmds sample_abs + 1) (myDB sample_worker)"
    using sample_draws by (simp add: cmd_draws_def w sample_worker_def numeral_2_eq_2)
  have "list_all2 brings ?bursts ?cmds" by (simp add: brings_def)
  moreover have "\<forall>cmd \<in> set ?cmds. command_ok cmd" by (simp add: command_ok_def w)
  moreover have "outcomes (conn_sock ?c) = map (\<lambda>r. Wrote (length (c_string r))) (session_replies ?cmds sample_abs) @ []"
    unfolding replies using nl by (simp add: c_string_def)
  ultimately have "\<exists>s' c' w'. in_turn (lift_ctl map_ctl) kv_message (replicate (length ?cmds) (7, EPOLLIN)) ?s = ret s'
    \<and> sub_reactors s' = [([7 \<mapsto> 0], w')] \<and> connections s' 7 = Some c' \<and> isConnected c'
    \<and> wire (conn_sock c') = wire (conn_sock ?c) @ concat (map c_string (session_replies ?cmds sample_abs))
    \<and> worker_rep w' (session_state ?cmds sample_abs) \<and> draws_ready 1 (myDB w')"
    by (intro kv_session_refined [where bursts = ?bursts and later = "[]" and ws = "[]"])
      (use draws sample_worker_rep in \<open>simp_all add: isConnected_def sample_conn_def sample_sock_def\<close>)
  then show ?thesis
    unfolding replies using nl by (auto simp: c_string_def sample_sock_def numeral_2_eq_2)
qed

text \<open>
  C31. A message of blanks only, or a report of input that brings none, is undefined behaviour in the
  storage server: \<open>front()\<close> is called on an empty list of words, whoever sends it and whatever the
  database holds.
\<close>

theorem blank_command_crashes_server:
  assumes "connections s fd = Some c" and "isConnected c" and "nonblocking (conn_sock c)"
    and "burst (incoming (conn_sock c)) = Some chunks" and "CHR 0x00 \<notin> set (concat chunks)"
    and "words (concat chunks) = []"
  shows "connection_event ctl kv_message fd EPOLLIN s = fail Empty_vector"
  using blank_command_event [OF assms] .

theorem blank_command_crashes_server_witness:
  "connection_event (lift_ctl map_ctl) kv_message 7 EPOLLIN
     \<lparr>connections = [7 \<mapsto> sample_conn\<lparr>conn_sock := sample_sock\<lparr>incoming := [Read_bytes '' '', Read_EAGAIN]\<rparr>\<rparr>],
      sub_reactors = [([7 \<mapsto> 0], sample_worker)]\<rparr> = fail Empty_vector"
proof -
  let ?c = "sample_conn\<lparr>conn_sock := sample_sock\<lparr>incoming := [Read_bytes '' '', Read_EAGAIN]\<rparr>\<rparr>"
  have "isConnected ?c" "nonblocking (conn_sock ?c)" "burst (incoming (conn_sock ?c)) = Some ['' '']"
    by (simp_all add: isConnected_def sample_conn_def sample_sock_def)
  moreover have "words '' '' = []" by (simp add: words.simps)
  ultimately show ?thesis
    using blank_command_crashes_server [of "\<lparr>connections = [7 \<mapsto> ?c], sub_reactors = [([7 \<mapsto> 0], sample_worker)]\<rparr>" 7 ?c
        "['' '']" "lift_ctl map_ctl"]
    by simp
qed

text \<open>
  C29. The echo server sends back what one event brings, in order, as far as the kernel takes it, and
  the connection stays open when it takes everything.
\<close>

theorem echo_sends_back:
  assumes "connections s fd = Some c" and "isConnected c" and "nonblocking (conn_sock c)"
    and "burst (incoming (conn_sock c)) = Some chunks" and "CHR 0x00 \<notin> set (concat chunks)"
    and "accepted (length (concat chunks)) (outcomes (conn_sock c)) = Some n"
  shows "\<exists>s' c'. connection_event ctl echo_message fd EPOLLIN s = ret s' \<and> connections s' fd = Some c'
    \<and> wire (conn_sock c') = wire (conn_sock c) @ take n (concat chunks)
    \<and> (n = length (concat chunks) \<longrightarrow> isConnected c')"
  using echo_event [OF assms] .

theorem echo_sends_back_witness:
  "\<exists>s' c'. connection_event map_ctl echo_message 7 EPOLLIN (sample_server\<lparr>connections := [7 \<mapsto> sample_conn\<lparr>conn_sock :=
        sample_sock\<lparr>incoming := [Read_bytes ''he'', Read_bytes ''y'', Read_EAGAIN], outcomes := [Wrote 1, Wrote 2]\<rparr>\<rparr>]\<rparr>) = ret s'
     \<and> connections s' 7 = Some c' \<and> wire (conn_sock c') = ''hey'' \<and> isConnected c'"
proof -
  let ?c = "sample_conn\<lparr>conn_sock :=
    sample_sock\<lparr>incoming := [Read_bytes ''he'', Read_bytes ''y'', Read_EAGAIN], outcomes := [Wrote 1, Wrote 2]\<rparr>\<rparr>"
  have "isConnected ?c" "nonblocking (conn_sock ?c)" "burst (incoming (conn_sock ?c)) = Some [''he'', ''y'']"
    "wire (conn_sock ?c) = []" "accepted (length (concat [''he'', ''y''])) (outcomes (conn_sock ?c)) = Some 3"
    by (simp_all add: isConnected_def sample_conn_def sample_sock_def)
  then show ?thesis
    using echo_sends_back [of "sample_server\<lparr>connections := [7 \<mapsto> ?c]\<rparr>" 7 ?c "[''he'', ''y'']" 3 map_ctl] by simp
qed

text \<open>
  In the timer server every message is echoed and sets the connection's clock to the reading taken
  after it; a periodic check whose reading is at most two minutes later leaves the connection alone.
\<close>

theorem active_connection_survives:
  assumes "connections s fd = Some c" and "isConnected c" and "nonblocking (conn_sock c)"
    and "burst (incoming (conn_sock c)) = Some chunks" and "CHR 0x00 \<notin> set (concat chunks)"
    and "accepted (length (concat chunks)) (outcomes (conn_sock c)) = Some n"
    and "sub_reactors s ! reactor s fd = (k, t # nows)" and "now - ms_of t \<le> idle_limit"
  shows "\<exists>s' c'. connection_event ctl timer_message fd EPOLLIN s = ret s' \<and> connections s' fd = Some c'
    \<and> wire (conn_sock c') = wire (conn_sock c) @ take n (concat chunks) \<and> getContext c' = ms_of t
    \<and> CheckActiveConnection ctl [fd] [now] s' = ret s'"
  using timer_event [OF assms] .

theorem active_connection_survives_witness:
  "\<exists>s' c'. connection_event (lift_ctl map_ctl) timer_message 7 EPOLLIN
      \<lparr>connections = [7 \<mapsto> sample_conn\<lparr>conn_sock := sample_sock\<lparr>incoming := [Read_bytes ''hey'', Read_EAGAIN], outcomes := [Wrote 3]\<rparr>\<rparr>],
       sub_reactors = [([7 \<mapsto> 0], [(5, 0)])]\<rparr> = ret s'
     \<and> connections s' 7 = Some c' \<and> getContext c' = 5000
     \<and> CheckActiveConnection (lift_ctl map_ctl) [7] [125000] s' = ret s'"
proof -
  let ?c = "sample_conn\<lparr>conn_sock := sample_sock\<lparr>incoming := [Read_bytes ''hey'', Read_EAGAIN], outcomes := [Wrote 3]\<rparr>\<rparr>"
  let ?s = "\<lparr>connections = [7 \<mapsto> ?c], sub_reactors = [([7 \<mapsto> 0 :: 32 word], [(5, 0)])]\<rparr>"
  have "isConnected ?c" "nonblocking (conn_sock ?c)" "burst (incoming (conn_sock ?c)) = Some [''hey'']"
    "accepted (length (concat [''hey''])) (outcomes (conn_sock ?c)) = Some 3"
    "sub_reactors ?s ! reactor ?s 7 = ([7 \<mapsto> 0], [(5, 0)])"
    by (simp_all add: isConnected_def sample_conn_def sample_sock_def reactor_def)
  moreover have "ms_of (5, 0) = 5000" by (simp add: ms_of_def)
  ultimately show ?thesis
    using active_connection_survives [of ?s 7 ?c "[''hey'']" 3 "[7 \<mapsto> 0]" "(5, 0)" "[]" 125000
        "lift_ctl map_ctl"]
    by (auto simp: idle_limit_def)
qed

text \<open>
  C30. When the kernel refuses to shut the writing side, as it does once the peer has reset the
  connection, a single malformed request ends the whole HTTP server: the 400 reply is sent and the
  process exits.
\<close>

theorem failed_shutdown_ends_server:
  assumes "connections s fd = Some c" and "isConnected c" and "nonblocking (conn_sock c)"
    and "never_writes (conn_channel c)" and "shutdown_fails (conn_sock c)"
    and "burst (incoming (conn_sock c)) = Some chunks" and "CHR 0x00 \<notin> set (concat chunks)"
    and "CR \<notin> set (concat chunks) \<or> (\<exists>l rest. concat chunks = l @ crlf @ rest \<and> CR \<notin> set l
            \<and> \<not> fst (processRequestLine l HttpRequest))"
    and "accepted (length bad_request) (outcomes (conn_sock c)) = Some n"
  shows "connection_event ctl (http_on_message iter cb w) fd EPOLLIN s = fail (Exit ''socket accept error'')"
proof -
  have "\<not> fst (parseRequest HttpContext (SetStr (concat chunks) w))"
    using bad_first_line [OF assms(8), of "SetStr (concat chunks) w"] by simp
  from failed_shutdown_event [OF assms(1-7) this assms(9)] show ?thesis .
qed

theorem failed_shutdown_ends_server_witness:
  "connection_event map_ctl (http_on_message no_headers defaultHttpCallback ParseWorker_init) 7 EPOLLIN
     (sample_server\<lparr>connections := [7 \<mapsto> sample_conn\<lparr>conn_sock := sample_sock\<lparr>shutdown_fails := True,
        incoming := [Read_bytes ''hello'', Read_EAGAIN], outcomes := [Write_error]\<rparr>\<rparr>]\<rparr>)
   = fail (Exit ''socket accept error'')"
proof -
  let ?c = "sample_conn\<lparr>conn_sock := sample_sock\<lparr>shutdown_fails := True,
    incoming := [Read_bytes ''hello'', Read_EAGAIN], outcomes := [Write_error]\<rparr>\<rparr>"
  have "isConnected ?c" "nonblocking (conn_sock ?c)" "never_writes (conn_channel ?c)" "shutdown_fails (conn_sock ?c)"
    "burst (incoming (conn_sock ?c)) = Some [''hello'']"
    "accepted (length bad_request) (outcomes (conn_sock ?c)) = Some 0"
    by (simp_all add: isConnected_def sample_conn_def sample_sock_def never_writes_def isWriting_def Channel_def
        bad_request_def crlf_def)
  then show ?thesis
    using failed_shutdown_ends_server [of "sample_server\<lparr>connections := [7 \<mapsto> ?c]\<rparr>" 7 ?c "[''hello'']" 0]
    by (simp add: CR_def)
qed

section \<open>Addresses and the client\<close>

text \<open>
  The address class gives back the port and the dotted text of any address it was made from, and
  the address itself is recovered from its text.
\<close>

theorem address_roundtrip:
  "GetIp (InetAddress (inet_ntoa w) port) = inet_ntoa w \<and> GetPort (InetAddress (inet_ntoa w) port) = port
   \<and> s_addr (InetAddress (GetIp a) port) = s_addr a"
  by (simp add: GetIp_def GetPort_def InetAddress_def)

text \<open>
  C32. The example client has no orderly end: after its lines have been answered and the server closes the
  connection, it calls the delete callback that was never set and dies of \<open>std::bad_function_call\<close>.
\<close>

theorem client_dies_of_empty_callback:
  assumes "sock_fd so \<noteq> -1" and "spare \<noteq> -1" and "\<not> nonblocking so"
    and "results (InetAddress ''127.0.0.1'' 1234) = Connect_ok # later"
    and "outcomes so = map Wrote ns @ ws" and "length ns = Suc (length answers)"
    and "incoming so = map Read_bytes answers @ Read_bytes [] # rs" and "[] \<notin> set answers"
  shows "client_main results spare so cin = fail Bad_function"
  using assms client_loop_exchange [of _ ns ws answers rs cin]
  by (simp add: client_main_def Socket_def Connect_ip_def Connect_def GetAddr_def client_connection_def isConnected_def)

theorem client_dies_of_empty_callback_witness:
  "client_main (\<lambda>_. [Connect_ok]) 5 \<lparr>sock_fd = 4, nonblocking = False, incoming = [Read_bytes ''pong'', Read_bytes []],
     outcomes = [Wrote 4, Wrote 0], wire = [], shutdown_fails = False, write_shut = False\<rparr> (''ping'' @ [newline])
   = fail Bad_function"
  using client_dies_of_empty_callback [of "\<lparr>sock_fd = 4, nonblocking = False,
      incoming = [Read_bytes ''pong'', Read_bytes []], outcomes = [Wrote 4, Wrote 0], wire = [],
      shutdown_fails = False, write_shut = False\<rparr>" 5 "\<lambda>_. [Connect_ok]" "[]" "[4, 0]" "[]" "[''pong'']" "[]"]
  by simp

section \<open>The logger\<close>

text \<open>
  C18. A log statement whose output function is the asynchronous logger is one append step of it, from
  every reachable state and whatever the global level: the record appended is the time, six bytes of
  level name, the message, the file and the line, complete and in this order.
\<close>

theorem log_statement_is_append:
  assumes "async_reachable fw a" and "fwrite_ok fw" and "tm_ok t" and "length message + length file < 3888"
    and "\<And>b. length b = 26 \<Longrightarrow> ops b = ret (b @ message)"
  shows "\<exists>time a'. time_text t = ret time
    \<and> log_statement (setLogLevel l async_globals) t file line level ops (Some a) = ret (Some a')
    \<and> async_step fw a a' \<and> appended a' = appended a @ [record_text time file line level message]"
  using logged [OF assms, of line level] by (simp add: log_statement_def setLogLevel_def)

definition sample_tm :: tm where
  "sample_tm = \<lparr>tm_sec = 5, tm_min = 4, tm_hour = 3, tm_mday = 2, tm_mon = 0, tm_year = 125\<rparr>"

theorem log_statement_is_append_witness:
  "\<exists>a'. log_statement (setLogLevel ERROR async_globals) sample_tm ''f.cpp'' 7 INFO (put_hello 3) (Some AsyncLogging)
     = ret (Some a') \<and> async_step sample_fwrite AsyncLogging a' \<and> length (appended a') = 1"
proof -
  have "put_hello 3 b = ret (b @ hello 3)" if "length b = 26" for b
    using put_hello_text [OF that, of 3] by simp
  moreover have "tm_ok sample_tm" by (simp add: tm_ok_def sample_tm_def)
  ultimately show ?thesis
    using log_statement_is_append [OF async_reachable.init sample_fwrite_ok, of sample_tm "hello 3" "''f.cpp''" "put_hello 3"
        ERROR 7 INFO] hello_length [of 3]
    by (auto simp: AsyncLogging_def)
qed

text \<open>
  Log files of one base name sort by their times: the name of the earlier time is the smaller
  string, and times that differ give different names.
\<close>

theorem log_files_sorted_by_time:
  assumes "tm_ok t" and "tm_ok t'"
  shows "\<exists>name name'. getLogFileName basename t = ret name \<and> getLogFileName basename t' = ret name'
    \<and> (name < name' \<longleftrightarrow> tm_key t < tm_key t') \<and> (name = name' \<longleftrightarrow> tm_key t = tm_key t')"
  using name_time_compare [OF assms]
  by (simp add: getLogFileName_text assms append_less append_eq name_time_length)

theorem log_files_sorted_by_time_witness:
  "\<exists>name name'. getLogFileName ''app'' sample_tm = ret name
     \<and> getLogFileName ''app'' (sample_tm\<lparr>tm_min := 40, tm_sec := 0\<rparr>) = ret name' \<and> name < name'"
  using log_files_sorted_by_time [of sample_tm "sample_tm\<lparr>tm_min := 40, tm_sec := 0\<rparr>" "''app''"]
  by (auto simp: sample_tm_def tm_ok_def tm_key_def)

text \<open>
  C28. A thread that its owner starts, joins and destroys goes through without a fault in every
  interleaving with the thread it starts; it cannot get stuck before all three calls have returned,
  every step uses up work, and the thread's id is known as soon as \<open>start\<close> has returned.
\<close>

theorem thread_lifecycle:
  assumes "thread_reach k (thread_init name n [Start_call, Join_call, Destroy_call]) s"
  shows "(todo s \<noteq> [] \<or> in_start s \<longrightarrow> (\<exists>r. thread_step k s r))
    \<and> (\<forall>r. thread_step k s r \<longrightarrow> (\<exists>s'. r = ret s' \<and> thread_work s' < thread_work s))
    \<and> (\<forall>t. object s = Some t \<longrightarrow> started t \<longrightarrow> \<not> in_start s \<longrightarrow> tid t = k)"
proof -
  have ok: "thread_ok k s" using thread_reach_ok [OF assms thread_init_ok] .
  then show ?thesis
    using thread_progress [OF ok] thread_step_ok [OF _ ok] thread_step_work thread_ok_tid [OF ok] by blast
qed

theorem thread_lifecycle_witness:
  "\<exists>r. thread_step 42 (thread_init ''Logging'' 0 [Start_call, Join_call, Destroy_call]) r"
  using thread_lifecycle [OF thread_first, of "''Logging''" 0 42] by (simp add: thread_init_def)

text \<open>
  An owner that destroys its thread object without joining can free it under the thread it has
  started: some interleaving uses the object after its destruction.
\<close>

theorem thread_destroyed_too_early:
  "\<exists>s. thread_reach k (thread_init name n [Start_call, Destroy_call]) s \<and> thread_step k s (fail Bad_pointer)"
  by (rule thread_destroyed_early)

end
