(* ===== verification/SkipList_Threads.thy ===== *)
theory SkipList_Threads
  imports SkipList_Correct
begin

text \<open>
  \<open>searchElement\<close> in one thread while another one changes the list. \<open>insertElement\<close> and \<open>deleteElement\<close>
  hold the mutex \<open>mtx\<close>, \<open>searchElement\<close> (\<open>src/storage/SkipList.h\<close>) does not take it, so it can be
  overtaken between any two of its reads. The search is split into its reads of shared memory, one
  per step: each occurrence of \<open>_curLevel\<close>, \<open>_forward[i]\<close>, \<open>getKey()\<close> and \<open>getValue()\<close> in its text is one.
  The steps are taken to be atomic and sequentially consistent (for C++ the race itself is undefined
  behaviour already).
\<close>

section \<open>The reads of a search\<close>

datatype 'v search_pc =
    Enter                 \<comment> \<open>before the loop: reads \<open>_curLevel\<close>\<close>
  | Test nat addr         \<comment> \<open>\<open>current->_forward[i] != nullptr\<close>\<close>
  | Load nat addr         \<comment> \<open>\<open>current->_forward[i]\<close>, whose key is wanted\<close>
  | Compare nat addr addr \<comment> \<open>\<open>getKey() < key\<close> on the node loaded\<close>
  | Move nat addr         \<comment> \<open>\<open>current = current->_forward[i]\<close>\<close>
  | Bottom addr           \<comment> \<open>\<open>current = current->_forward[0]\<close>\<close>
  | Check "addr option"   \<comment> \<open>\<open>current != nullptr && current->getKey() == key\<close>\<close>
  | Fetch addr            \<comment> \<open>\<open>value = current->getValue()\<close>\<close>
  | Print addr 'v         \<comment> \<open>\<open>current->getValue()\<close> for the terminal\<close>
  | Done "'v option"

fun next_level :: "nat \<Rightarrow> addr \<Rightarrow> 'v search_pc" where
  "next_level 0 c = Bottom c"
| "next_level (Suc i) c = Test i c"

fun search_step :: "'k::linorder \<Rightarrow> ('k, 'v) skiplist \<Rightarrow> 'v search_pc \<Rightarrow> 'v search_pc outcome" where
  "search_step key s Enter = ret (Test (curLevel s) (headerNode s))"
| "search_step key s (Test i c) =
     obind (get_forward (mem s) c i) (\<lambda>p. ret (if p \<noteq> None then Load i c else next_level i c))"
| "search_step key s (Load i c) =
     obind (get_forward (mem s) c i) (\<lambda>p. obind (deref_ptr p) (\<lambda>b. ret (Compare i c b)))"
| "search_step key s (Compare i c b) =
     obind (getKey (mem s) b) (\<lambda>k. ret (if k < key then Move i c else next_level i c))"
| "search_step key s (Move i c) =
     obind (get_forward (mem s) c i) (\<lambda>p. obind (deref_ptr p) (\<lambda>b. ret (Test i b)))"
| "search_step key s (Bottom c) = obind (get_forward (mem s) c 0) (\<lambda>p. ret (Check p))"
| "search_step key s (Check p) =
     obind (has_key (mem s) p key) (\<lambda>found.
       if found then obind (deref_ptr p) (\<lambda>a. ret (Fetch a)) else ret (Done None))"
| "search_step key s (Fetch a) = obind (getValue (mem s) a) (\<lambda>v. ret (Print a v))"
| "search_step key s (Print a v) = obind (getValue (mem s) a) (\<lambda>_. ret (Done (Some v)))"
| "search_step key s (Done r) = ret (Done r)"

text \<open>Steps of the search with nobody else at work.\<close>

fun search_steps :: "'k::linorder \<Rightarrow> ('k, 'v) skiplist \<Rightarrow> nat \<Rightarrow> 'v search_pc \<Rightarrow> 'v search_pc outcome" where
  "search_steps key s 0 r = ret r"
| "search_steps key s (Suc n) r = obind (search_step key s r) (search_steps key s n)"

definition reads :: "'k::linorder \<Rightarrow> ('k, 'v) skiplist \<Rightarrow> 'v search_pc \<Rightarrow> 'v search_pc \<Rightarrow> bool" where
  "reads key s r r' \<longleftrightarrow> (\<exists>n. search_steps key s n r = ret r')"

lemma reads_refl [simp]: "reads key s r r"
  unfolding reads_def by (rule exI [of _ 0]) simp

lemma search_steps_add:
  "search_steps key s (m + n) r = obind (search_steps key s m r) (search_steps key s n)"
proof (induction m arbitrary: r)
  case (Suc m)
  then have "search_steps key s (m + n) = (\<lambda>r. obind (search_steps key s m r) (search_steps key s n))" by (rule ext)
  then show ?case by (simp add: obind_assoc)
qed simp

lemma reads_trans: "reads key s r1 r2 \<Longrightarrow> reads key s r2 r3 \<Longrightarrow> reads key s r1 r3"
  unfolding reads_def by (metis obind_ret search_steps_add)

lemma reads_step: "search_step key s r = ret r' \<Longrightarrow> reads key s r' r'' \<Longrightarrow> reads key s r r''"
  unfolding reads_def by (metis obind_ret search_steps.simps(2))

lemmas reads_one = reads_step [OF _ reads_refl]

section \<open>Undisturbed, the reads make up the search\<close>

lemma reads_compare:
  assumes "get_forward (mem s) c i = ret (Some b)" and "getKey (mem s) b = ret k"
  shows "reads key s (Test i c) (if k < key then Test i b else next_level i c)"
proof -
  have "reads key s (Test i c) (Compare i c b)"
    by (rule reads_step [of _ _ _ "Load i c", OF _ reads_one]) (simp_all add: assms(1) deref_ptr_def)
  moreover have "reads key s (Compare i c b) (if k < key then Test i b else next_level i c)"
  proof (cases "k < key")
    case True
    have "reads key s (Compare i c b) (Test i b)"
      by (rule reads_step [of _ _ _ "Move i c", OF _ reads_one]) (simp_all add: assms deref_ptr_def True)
    with True show ?thesis by simp
  qed (auto intro: reads_one simp: assms)
  ultimately show ?thesis by (rule reads_trans)
qed

lemma reads_walk: "walk (mem s) key i c = ret c' \<Longrightarrow> reads key s (Test i c) (next_level i c')"
proof -
  assume "walk (mem s) key i c = ret c'"
  then have w: "walk (mem s) key i c = Some (Inr c')" by (simp add: ret_def)
  let ?P = "\<lambda>h k i c (r :: fault + addr). \<forall>c'. r = Inr c' \<longrightarrow> h = mem s \<longrightarrow> k = key \<longrightarrow> reads key s (Test i c) (next_level i c')"
  have "?P (mem s) key i c (Inr c')"
  proof (rule walk.raw_induct [OF _ w, of ?P], goal_cases)
    case (1 walk' h k i c r)
    show ?case
    proof (intro allI impI)
      fix c' assume r: "r = Inr c'" and hk: "h = mem s" "k = key"
      from 1(2) r hk obtain p where p: "get_forward (mem s) c i = ret p"
        by (auto simp: ret_def fail_def split: option.splits sum.splits)
      show "reads key s (Test i c) (next_level i c')"
      proof (cases p)
        case None
        then have "c' = c" using 1(2) p r hk by (simp add: ret_def)
        then show ?thesis using p None by (intro reads_one) simp
      next
        case (Some b)
        with 1(2) r hk p obtain k' where k': "getKey (mem s) b = ret k'"
          by (auto simp: ret_def fail_def split: option.splits sum.splits)
        have step: "reads key s (Test i c) (if k' < key then Test i b else next_level i c)"
          using p Some k' by (intro reads_compare) simp_all
        show ?thesis
        proof (cases "k' < key")
          case True
          then have "walk' h k i b = Some r" using 1(2) p Some k' hk by (simp add: ret_def)
          from 1(1) [OF this] r hk have "reads key s (Test i b) (next_level i c')" by blast
          with step True show ?thesis by (auto elim: reads_trans)
        next
          case False
          then have "c' = c" using 1(2) p Some k' r hk by (simp add: ret_def)
          with step False show ?thesis by simp
        qed
      qed
    qed
  qed
  then show ?thesis by blast
qed

lemma reads_descend:
  "descend_search (mem s) key (Suc n) c = ret c' \<Longrightarrow> reads key s (Test n c) (Bottom c')"
proof (induction n arbitrary: c)
  case 0
  then show ?case using reads_walk [of s key 0 c c'] by (auto elim!: obind_eq_retE)
next
  case (Suc n)
  then obtain d where d: "walk (mem s) key (Suc n) c = ret d" "descend_search (mem s) key (Suc n) d = ret c'"
    by (auto elim!: obind_eq_retE)
  from reads_walk [OF d(1)] have "reads key s (Test (Suc n) c) (Test n d)" by simp
  then show ?case using Suc.IH [OF d(2)] by (rule reads_trans)
qed

text \<open>A search that returns is made up of its reads.\<close>

lemma search_is_reads:
  assumes "searchElement key w s = ret (found, v)"
  shows "reads key s Enter (Done (if found then Some v else None))"
proof -
  from assms obtain c p ex where c: "descend_search (mem s) key (curLevel s + 1) (headerNode s) = ret c"
    and p: "get_forward (mem s) c 0 = ret p" and ex: "has_key (mem s) p key = ret ex"
    and tail: "(if ex then obind (deref_ptr p) (\<lambda>a. obind (getValue (mem s) a) (\<lambda>v. ret (True, v)))
      else ret (False, w)) = ret (found, v)"
    unfolding searchElement_def by (elim obind_eq_retE)
  have "reads key s (Test (curLevel s) (headerNode s)) (Bottom c)" using c reads_descend by simp
  then have "reads key s Enter (Bottom c)" by (rule reads_step [rotated]) simp
  moreover have "reads key s (Bottom c) (Check p)" using p by (intro reads_one) simp
  moreover have "reads key s (Check p) (Done (if found then Some v else None))"
  proof (cases ex)
    case True
    with tail obtain a where "deref_ptr p = ret a" "getValue (mem s) a = ret v" "found"
      by (auto elim!: obind_eq_retE)
    then show ?thesis
      using ex True reads_step [of key s "Check p" "Fetch a", OF _ reads_step [of _ _ _ "Print a v", OF _ reads_one]]
      by simp
  qed (use tail ex in \<open>auto intro!: reads_one\<close>)
  ultimately show ?thesis by (blast intro: reads_trans)
qed

section \<open>Overtaken by a deletion or an insertion\<close>

lemma reads_bottom:
  assumes "sl_chain s as"
  shows "reads key s Enter (Bottom (pred (mem s) (headerNode s) as key 0))"
proof -
  have "reads key s (Test (curLevel s) (headerNode s)) (Bottom (pred (mem s) (headerNode s) as key 0))"
    using locate(2) [OF assms, of key] reads_descend by simp
  then show ?thesis by (rule reads_step [rotated]) simp
qed

text \<open>The node of a present key is freed under a search that has already reached it.\<close>

lemma search_meets_delete:
  assumes "sl_rep s xs" and "key \<in> fst ` set xs"
  obtains a s' where "reads key s Enter (Check (Some a))" and "deleteElement key s = ret (True, s')"
    and "sl_rep s' (del key xs)" and "search_step key s' (Check (Some a)) = fail Bad_pointer"
proof -
  from assms(1) obtain as where sl: "sl_chain s as" and xs: "xs = contents (mem s) as"
    by (auto simp: sl_rep_def)
  with assms(2) have k: "key \<in> key_at (mem s) ` set as" by (simp add: contents_keys)
  have ch: "chains (mem s) (headerNode s) (maxLevel s) as" using sl by (simp add: sl_chain_def)
  obtain a bs where a: "rest (mem s) as key 0 = a # bs" "key_at (mem s) a = key"
    and as: "as = takeWhile (\<lambda>a. key_at (mem s) a < key) as @ a # bs"
    by (rule present_split [OF ch k])
  have "a \<in> set as" by (subst as) simp
  have "reads key s (Bottom (pred (mem s) (headerNode s) as key 0)) (Check (Some a))"
    using locate(3) [OF sl, of key] a(1) by (intro reads_one) simp
  with reads_bottom [OF sl] have "reads key s Enter (Check (Some a))" by (rule reads_trans)
  moreover obtain s' as' where s': "deleteElement key s = ret (True, s')" "sl_chain s' as'"
    "contents (mem s') as' = del key (contents (mem s) as)" "mem s' a = None"
    by (rule deleteElement_present_at [OF sl k]) (use a(2) \<open>a \<in> set as\<close> in blast)
  moreover have "sl_rep s' (del key xs)" using s'(2,3) xs by (auto intro: sl_repI)
  moreover have "search_step key s' (Check (Some a)) = fail Bad_pointer"
    using s'(4) by (simp add: has_key_def getKey_def deref_def)
  ultimately show thesis using that by blast
qed

text \<open>
  An insertion right before the node of a present key, between the last comparison of the search and
  its step to that node, makes the search miss the key: the step leads to the new node.
\<close>

lemma pred_gap:
  assumes "\<forall>a \<in> set as. key_at h a < key \<longrightarrow> key_at h a < j" and "j < (key :: 'k::linorder)"
  shows "pred h hdr as key 0 = pred h hdr as j 0"
proof -
  have "takeWhile (\<lambda>a. key_at h a < key) as = takeWhile (\<lambda>a. key_at h a < j) as"
    using assms by (intro takeWhile_cong) (auto dest: less_trans)
  then show ?thesis by (simp add: pred_def)
qed

lemma search_meets_insert:
  assumes "sl_rep s xs" and "\<exists>r \<in> set (rands s). even r" and "j < key" and gap: "\<forall>k \<in> fst ` set xs. k < key \<longrightarrow> k < j"
  obtains c s' where "reads key s Enter (Bottom c)" and "insertElement j w s = ret (0, s')"
    and "sl_rep s' (put j w xs)" and "reads key s' (Bottom c) (Done None)"
proof -
  from assms(1) obtain as where sl: "sl_chain s as" and xs: "xs = contents (mem s) as"
    by (auto simp: sl_rep_def)
  have absent: "j \<notin> key_at (mem s) ` set as" using gap assms(3) by (auto simp: xs contents_def)
  let ?us = "takeWhile (\<lambda>a. key_at (mem s) a < j) as" and ?vs = "dropWhile (\<lambda>a. key_at (mem s) a < j) as"
  let ?c = "pred (mem s) (headerNode s) as key 0"
  have c: "?c = pred (mem s) (headerNode s) as j 0"
    using gap assms(3) by (intro pred_gap) (auto simp: xs contents_def)
  obtain s' as' where s': "insertElement j w s = ret (0, s')" "sl_chain s' as'"
    "contents (mem s') as' = put j w (contents (mem s) as)" "headerNode s' = headerNode s"
    "as' = ?us @ brk s # ?vs" "key_at (mem s') (brk s) = j"
    by (rule insertElement_new_at [OF sl absent assms(2)]) (rule that)
  have ch: "chains (mem s') (headerNode s) (maxLevel s') (?us @ brk s # ?vs)"
    using s'(2,4,5) by (simp add: sl_chain_def)
  then have "linked (nxt (mem s') 0) (headerNode s # ?us @ brk s # ?vs)"
    by (metis chains_def le0 level_list_0)
  moreover have "butlast (headerNode s # ?us) @ [?c] = headerNode s # ?us"
    by (subst c, unfold pred_def level_list_0, rule append_butlast_last_id) simp
  then have eq: "headerNode s # ?us @ brk s # ?vs = butlast (headerNode s # ?us) @ ?c # brk s # ?vs"
    by (metis append.assoc append_Cons append_Nil)
  ultimately have "linked (nxt (mem s') 0) (butlast (headerNode s # ?us) @ ?c # brk s # ?vs)" by (simp only:)
  then have "nxt (mem s') 0 ?c = Some (brk s)" by (drule_tac linked_next) simp
  moreover have "?c \<in> set (headerNode s # ?us @ brk s # ?vs)" unfolding eq by simp
  then have "node_ok (mem s') ?c" "node_ok (mem s') (brk s)" using ch by (auto simp: chains_def)
  ultimately have "get_forward (mem s') ?c 0 = ret (Some (brk s))" "getKey (mem s') (brk s) = ret j"
    by (simp_all add: get_forward_ok getKey_ok s'(6))
  then have "search_step key s' (Bottom ?c) = ret (Check (Some (brk s)))"
    and "search_step key s' (Check (Some (brk s))) = ret (Done None)"
    using assms(3) by (auto simp: has_key_def)
  then have "reads key s' (Bottom ?c) (Done None)" by (blast intro: reads_step reads_one)
  moreover have "sl_rep s' (put j w xs)" using s'(2,3) xs by (auto intro: sl_repI)
  ultimately show thesis using reads_bottom [OF sl] s'(1) that by blast
qed

section \<open>The writes of an insertion\<close>

text \<open>
  \<open>insert_trace\<close> is \<open>insertElement\<close> with the states a search can see on its way: after the write of
  \<open>_curLevel\<close>, after the new node is made, and after each pointer of its linking loop.
\<close>

fun link_trace :: "('k, 'v) skiplist \<Rightarrow> addr \<Rightarrow> addr option list \<Rightarrow> nat list \<Rightarrow> ('k, 'v) skiplist list outcome" where
  "link_trace s x update [] = ret [s]"
| "link_trace s x update (i # is) =
     obind (read_update update i) (\<lambda>u.
     obind (get_forward (mem s) u i) (\<lambda>p.
     obind (set_forward (mem s) x i p) (\<lambda>h1.
     obind (set_forward h1 u i (Some x)) (\<lambda>h2.
     obind (link_trace (s\<lparr>mem := h2\<rparr>) x update is) (\<lambda>ss. ret (s # s\<lparr>mem := h1\<rparr> # ss))))))"

definition insert_trace ::
  "'k::linorder \<Rightarrow> 'v \<Rightarrow> ('k, 'v) skiplist \<Rightarrow> (int \<times> ('k, 'v) skiplist list) outcome" where
  "insert_trace key value s0 =
     obind (lock_mtx s0) (\<lambda>s.
     obind (descend (mem s) key (curLevel s + 1) (headerNode s) (replicate (maxLevel s + 1) None))
       (\<lambda>(current, update).
     obind (get_forward (mem s) current 0) (\<lambda>p.
     obind (has_key (mem s) p key) (\<lambda>exists.
     if exists then
       obind (deref_ptr p) (\<lambda>a.
       obind (setValue (mem s) a value) (\<lambda>h. ret (1, [s, unlock_mtx (s\<lparr>mem := h\<rparr>)])))
     else
       obind (getRandomLevel s) (\<lambda>(random_level, s1).
       obind (if random_level > curLevel s1
              then obind (fill_update (headerNode s1) [curLevel s1 + 1 ..< random_level + 1] update)
                     (\<lambda>u. ret (u, s1\<lparr>curLevel := random_level\<rparr>))
              else ret (update, s1)) (\<lambda>(update, s2).
       let (insert_node, s3) = createNode key value random_level s2 in
       obind (link_trace s3 insert_node update [0 ..< random_level + 1]) (\<lambda>ss.
       ret (0, [s1, s2] @ ss @ [unlock_mtx ((last ss)\<lparr>elementCount := elementCount s3 + 1\<rparr>)]))))))))"

text \<open>The last state is the one \<open>insertElement\<close> returns.\<close>

lemma link_trace_last: "link_trace s x update is = ret ss \<Longrightarrow> ss \<noteq> [] \<and> last ss = s\<lparr>mem := mem (last ss)\<rparr>"
proof (induction s x update "is" arbitrary: ss rule: link_trace.induct)
  case (2 s x update i "is")
  from 2(2) show ?case by (auto elim!: obind_eq_retE dest!: 2(1))
qed simp

lemma link_is_trace:
  fixes s :: "('k, 'v) skiplist"
  shows "link (mem s) x update is = obind (link_trace s x update is) (\<lambda>ss. ret (mem (last ss)))"
proof (induction "is" arbitrary: s)
  case (Cons i "is")
  have "obind (link_trace t x update is) (\<lambda>ss. ret (mem (if ss = [] then b else last ss))) = link (mem t) x update is"
    for t :: "('k, 'v) skiplist" and b unfolding Cons.IH [of t] using link_trace_last [of t x update "is"] by (auto intro!: obind_cong)
  from this [of "s\<lparr>mem := h\<rparr>" for h] show ?case by (auto simp: obind_assoc intro!: obind_cong)
qed simp

lemma insertElement_is_trace:
  "insertElement key value s = obind (insert_trace key value s) (\<lambda>(r, ss). ret (r, last ss))"
proof -
  have link: "obind (link h x update is) (\<lambda>h. ret (0, unlock_mtx (t\<lparr>brk := a, mem := h, elementCount := n\<rparr>)))
      = obind (link_trace (t\<lparr>mem := h, brk := a\<rparr>) x update is)
          (\<lambda>ss. ret (0, unlock_mtx ((last ss)\<lparr>elementCount := n\<rparr>)))" for t h x update "is" n a
  proof -
    let ?t = "t\<lparr>mem := h, brk := a\<rparr>"
    have "unlock_mtx (t\<lparr>brk := a, mem := mem (last ss), elementCount := n\<rparr>) = unlock_mtx ((last ss)\<lparr>elementCount := n\<rparr>)"
      if "link_trace ?t x update is = ret ss" for ss
    proof -
      have "last ss = ?t\<lparr>mem := mem (last ss)\<rparr>" using link_trace_last [OF that] by blast
      from arg_cong [OF this, of "\<lambda>q. unlock_mtx (q\<lparr>elementCount := n\<rparr>)"] show ?thesis by simp
    qed
    then show ?thesis using link_is_trace [of ?t x update "is"] by (auto simp: obind_assoc intro!: obind_cong)
  qed
  show ?thesis
    unfolding insertElement_def insert_trace_def
    by (auto simp: obind_assoc link createNode_def Let_def case_prod_unfold intro!: obind_cong
        simp del: upt_Suc replicate_Suc descend.simps link.simps link_trace.simps)
qed

section \<open>A search among insertions\<close>

text \<open>
  \<open>hs\<close> are the states the running insertion still has to pass, \<open>s\<close> the one it ends in; the search sees
  the first of them. The mutex admits one insertion at a time.
\<close>

definition visible :: "('k, 'v) skiplist list \<Rightarrow> ('k, 'v) skiplist \<Rightarrow> ('k, 'v) skiplist" where
  "visible hs s = hd (hs @ [s])"

inductive search_vs_inserts ::
  "'k::linorder \<Rightarrow> ('k, 'v) skiplist \<Rightarrow> ('k, 'v) skiplist list \<Rightarrow> ('k, 'v) skiplist \<Rightarrow> 'v search_pc \<Rightarrow> bool"
  for key s0 where
  Begin: "search_vs_inserts key s0 [] s0 Enter"
| Read: "search_vs_inserts key s0 hs s r \<Longrightarrow> search_step key (visible hs s) r = ret r' \<Longrightarrow>
    search_vs_inserts key s0 hs s r'"
| Write: "search_vs_inserts key s0 (t # hs) s r \<Longrightarrow> search_vs_inserts key s0 hs s r"
| Call: "search_vs_inserts key s0 [] s r \<Longrightarrow> insert_trace k v s = ret (c, ss) \<Longrightarrow>
    search_vs_inserts key s0 (s # butlast ss) (last ss) r"

text \<open>
  What a search needs of a state: every pointer leads to a node that reaches its level. What it needs
  of a write: nodes stay, and no pointer becomes null.
\<close>

definition calm :: "('k, 'v) skiplist \<Rightarrow> bool" where
  "calm t \<longleftrightarrow> node_ok (mem t) (headerNode t) \<and> curLevel t \<le> level_at (mem t) (headerNode t)
     \<and> (\<forall>i a b. nxt (mem t) i a = Some b \<longrightarrow> node_ok (mem t) b \<and> i \<le> level_at (mem t) b \<and> b \<noteq> headerNode t)"

definition grows :: "('k, 'v) skiplist \<Rightarrow> ('k, 'v) skiplist \<Rightarrow> bool" where
  "grows t t' \<longleftrightarrow> headerNode t' = headerNode t
     \<and> (\<forall>a. node_ok (mem t) a \<longrightarrow> node_ok (mem t') a \<and> level_at (mem t') a = level_at (mem t) a
          \<and> key_at (mem t') a = key_at (mem t) a)
     \<and> (\<forall>i a. nxt (mem t) i a \<noteq> None \<longrightarrow> nxt (mem t') i a \<noteq> None)"

definition at_level :: "('k, 'v) skiplist \<Rightarrow> nat \<Rightarrow> addr \<Rightarrow> bool" where
  "at_level t i c \<longleftrightarrow> node_ok (mem t) c \<and> i \<le> level_at (mem t) c"

fun search_ok :: "'k \<Rightarrow> ('k, 'v) skiplist \<Rightarrow> 'v search_pc \<Rightarrow> bool" where
  "search_ok key t Enter = True"
| "search_ok key t (Test i c) = at_level t i c"
| "search_ok key t (Load i c) = (at_level t i c \<and> nxt (mem t) i c \<noteq> None)"
| "search_ok key t (Compare i c b) = (at_level t i c \<and> nxt (mem t) i c \<noteq> None \<and> node_ok (mem t) b)"
| "search_ok key t (Move i c) = (at_level t i c \<and> nxt (mem t) i c \<noteq> None)"
| "search_ok key t (Bottom c) = at_level t 0 c"
| "search_ok key t (Check p) = (\<forall>a. p = Some a \<longrightarrow> node_ok (mem t) a \<and> a \<noteq> headerNode t)"
| "search_ok key t (Fetch a) = (node_ok (mem t) a \<and> a \<noteq> headerNode t \<and> key_at (mem t) a = key)"
| "search_ok key t (Print a v) = (node_ok (mem t) a \<and> a \<noteq> headerNode t \<and> key_at (mem t) a = key)"
| "search_ok key t (Done r) =
     (r \<noteq> None \<longrightarrow> (\<exists>a. node_ok (mem t) a \<and> a \<noteq> headerNode t \<and> key_at (mem t) a = key))"

lemma search_step_ok:
  assumes "calm t" and "search_ok key t r"
  obtains r' where "search_step key t r = ret r'" and "search_ok key t r'"
proof -
  have next_ok: "search_ok key t (next_level i c)" if "at_level t i c" for i c
    using that by (cases i) (auto simp: at_level_def)
  have "\<exists>r'. search_step key t r = ret r' \<and> search_ok key t r'"
  proof (cases r)
    case (Test i c)
    then show ?thesis using assms next_ok by (auto simp: at_level_def get_forward_ok)
  next
    case (Load i c)
    with assms obtain b where "nxt (mem t) i c = Some b" "node_ok (mem t) b" by (auto simp: calm_def)
    with Load assms(2) show ?thesis by (auto simp: at_level_def get_forward_ok deref_ptr_def)
  next
    case (Compare i c b)
    then show ?thesis using assms next_ok by (auto simp: getKey_ok)
  next
    case (Move i c)
    with assms obtain b where "nxt (mem t) i c = Some b" "node_ok (mem t) b" "i \<le> level_at (mem t) b"
      by (auto simp: calm_def)
    with Move assms(2) show ?thesis by (auto simp: at_level_def get_forward_ok deref_ptr_def)
  next
    case (Bottom c)
    then show ?thesis using assms by (auto simp: at_level_def get_forward_ok calm_def)
  next
    case (Check p)
    then show ?thesis using assms(2)
      by (cases p) (auto simp: has_key_def getKey_ok deref_ptr_def)
  next
    case (Print a v)
    then show ?thesis using assms(2) by (auto simp: getValue_ok)
  qed (use assms in \<open>auto simp: calm_def at_level_def getValue_ok\<close>)
  then show thesis using that by blast
qed

lemma search_ok_grows: "grows t t' \<Longrightarrow> search_ok key t r \<Longrightarrow> search_ok key t' r"
  by (cases r) (auto simp: grows_def at_level_def)

section \<open>The writes of an insertion keep what a search needs\<close>

lemma grows_refl [simp]: "grows t t"
  by (simp add: grows_def)

lemma grows_trans: "grows t1 t2 \<Longrightarrow> grows t2 t3 \<Longrightarrow> grows t1 t3"
  by (simp add: grows_def)

lemma write_pointer:
  assumes "calm t" and "shape h = shape (mem t)"
    and "\<And>j. nxt h j = (if j = i then (nxt (mem t) i)(a := p) else nxt (mem t) j)"
    and "p \<noteq> None \<or> nxt (mem t) i a = None"
    and "\<And>b. p = Some b \<Longrightarrow> node_ok (mem t) b \<and> i \<le> level_at (mem t) b \<and> b \<noteq> headerNode t"
  shows "calm (t\<lparr>mem := h\<rparr>)" and "grows t (t\<lparr>mem := h\<rparr>)"
proof -
  have ok: "node_ok h b = node_ok (mem t) b" for b by (simp add: node_ok_shape assms(2))
  note sh = shape_cong [OF assms(2)]
  show "calm (t\<lparr>mem := h\<rparr>)"
    using assms(1,5) by (auto simp: calm_def ok sh assms(3) split: if_splits)
  show "grows t (t\<lparr>mem := h\<rparr>)"
    using assms(4) by (auto simp: grows_def ok sh assms(3))
qed

lemma link_trace_grows:
  assumes "calm t" and "distinct is" and "x \<noteq> headerNode t"
    and "\<forall>i \<in> set is. link_ready (mem t) x q up i \<and> i \<le> level_at (mem t) x \<and> nxt (mem t) i x = None"
  shows "\<exists>ss. link_trace t x up is = ret (t # ss) \<and> (\<forall>u \<in> set ss. calm u) \<and> successively grows (t # ss)"
  using assms
proof (induction "is" arbitrary: t)
  case (Cons i "is")
  then have ready: "link_ready (mem t) x q up i" and ix: "i \<le> level_at (mem t) x" and new: "nxt (mem t) i x = None" by auto
  then have x: "node_ok (mem t) x" and q: "node_ok (mem t) (q i)" "i \<le> level_at (mem t) (q i)" "q i \<noteq> x"
    and up: "read_update up i = ret (q i)"
    by (simp_all add: link_ready_def read_update_def deref_ptr_def)
  obtain h1 where h1: "set_forward (mem t) x i (nxt (mem t) i (q i)) = ret h1" "shape h1 = shape (mem t)"
    "\<And>j. nxt h1 j = (if j = i then (nxt (mem t) i)(x := nxt (mem t) i (q i)) else nxt (mem t) j)"
    using set_forward_ok [OF x ix] by metis
  let ?t1 = "t\<lparr>mem := h1\<rparr>"
  have t1: "calm ?t1" "grows t ?t1"
    by (rule write_pointer [OF Cons.prems(1) h1(2,3)]; use Cons.prems(1) new in \<open>auto simp: calm_def\<close>)+
  have ok1: "node_ok h1 b = node_ok (mem t) b" for b by (simp add: node_ok_shape h1(2))
  note sh1 = shape_cong [OF h1(2)]
  have "node_ok h1 (q i)" and "i \<le> level_at h1 (q i)" using q by (simp_all add: ok1 sh1)
  then obtain h2 where h2: "set_forward h1 (q i) i (Some x) = ret h2" "shape h2 = shape h1"
    "\<And>j. nxt h2 j = (if j = i then (nxt h1 i)(q i := Some x) else nxt h1 j)"
    using set_forward_ok by metis
  let ?t2 = "t\<lparr>mem := h2\<rparr>"
  have "calm (?t1\<lparr>mem := h2\<rparr>)" "grows ?t1 (?t1\<lparr>mem := h2\<rparr>)"
    by (rule write_pointer [OF t1(1), of h2 i "q i" "Some x"]; use h2(2,3) x ix Cons.prems(3) in \<open>auto simp: ok1 sh1\<close>)+
  then have t2: "calm ?t2" "grows ?t1 ?t2" by simp_all
  have sh: "shape h2 = shape (mem t)" using h1 h2 by simp
  have "\<forall>j \<in> set is. link_ready h2 x q up j \<and> j \<le> level_at h2 x \<and> nxt h2 j x = None"
    using Cons.prems(2,4) by (auto simp: link_ready_shape [OF sh] shape_cong [OF sh] h2(3) h1(3))
  then obtain ss where "link_trace ?t2 x up is = ret (?t2 # ss)" "\<forall>u \<in> set ss. calm u" "successively grows (?t2 # ss)"
    using Cons.IH [OF t2(1)] Cons.prems(2,3) by auto
  then show ?case
    using up q h1(1) h2(1) t1 t2 by (intro exI [of _ "?t1 # ?t2 # ss"]) (simp add: get_forward_ok)
qed simp

lemma nxt_node: "nxt h i a = Some b \<Longrightarrow> a \<in> dom h \<and> (node_ok h a \<longrightarrow> i \<le> level_at h a)"
  by (auto simp: nxt_def node_ok_def level_at_def shape_def split: option.splits if_splits)

lemma linked_member: "linked f xs \<Longrightarrow> a \<in> set xs \<Longrightarrow> f a = Some b \<Longrightarrow> b \<in> set (tl xs)"
  by (induction f xs rule: linked.induct) auto

lemma sl_chain_calm:
  assumes sl: "sl_chain s as"
  shows "calm s"
proof -
  have ch: "chains (mem s) (headerNode s) (maxLevel s) as" and dom: "dom (mem s) = insert (headerNode s) (set as)"
    using sl by (simp_all add: sl_chain_def)
  have "node_ok (mem s) b \<and> i \<le> level_at (mem s) b \<and> b \<noteq> headerNode s" if n: "nxt (mem s) i a = Some b" for i a b
  proof -
    have a: "a \<in> insert (headerNode s) (set as)" "node_ok (mem s) a" "i \<le> level_at (mem s) a"
      using nxt_node [OF n] ch dom by (auto simp: chains_def)
    then have "i \<le> maxLevel s" using ch by (auto simp: chains_def)
    moreover have "a \<in> set (headerNode s # level_list (mem s) as i)" using a by (auto simp: set_level_list)
    ultimately have "b \<in> set (level_list (mem s) as i)" using ch n linked_member by (fastforce simp: chains_def)
    then show ?thesis using ch by (auto simp: set_level_list chains_def)
  qed
  then show ?thesis using sl ch by (auto simp: calm_def sl_chain_def chains_def)
qed

text \<open>Changes that no search sees: the mutex, the random numbers, the counters; and a new node.\<close>

lemma calm_cong:
  assumes "mem t' = mem t" and "headerNode t' = headerNode t"
  shows "grows t t'" and "curLevel t' \<le> level_at (mem t) (headerNode t) \<Longrightarrow> calm t \<Longrightarrow> calm t'"
  using assms by (simp_all add: grows_def calm_def)

lemma createNode_grows:
  assumes "calm t" and "createNode k v l t = (x, t')" and "mem t x = None"
  shows "calm t'" and "grows t t'"
proof -
  have t': "mem t' = (mem t)(x \<mapsto> Node k v l)" "headerNode t' = headerNode t" "curLevel t' = curLevel t"
    using assms(2) by (auto simp: createNode_def)
  have ok: "node_ok (mem t') a" "level_at (mem t') a = level_at (mem t) a" "key_at (mem t') a = key_at (mem t) a" "a \<noteq> x"
    if "node_ok (mem t) a" for a
    using that assms(3) by (auto simp: t' node_ok_def level_at_def key_at_def shape_def)
  have n: "nxt (mem t') i = nxt (mem t) i" for i
    using assms(3) unfolding t' nxt_new by (auto simp: fun_eq_iff nxt_def)
  show "calm t'" using assms(1) ok by (auto simp: calm_def t'(2,3) n)
  show "grows t t'" using ok by (auto simp: grows_def t'(2) n)
qed

lemma insert_keeps_chain:
  assumes sl: "sl_chain s as" and "insertElement k v s = ret (c, s')"
  shows "\<exists>as'. sl_chain s' as'"
proof (cases "k \<in> key_at (mem s) ` set as")
  case True
  from insertElement_existing [OF sl this, of v] assms(2) show ?thesis by (metis Pair_inject ret_inject)
next
  case False
  have "\<exists>r \<in> set (rands s). even r"
    using insertElement_no_draw [OF sl False, of v] assms(2) by (rule_tac ccontr) simp
  from insertElement_new [OF sl False this, of v] assms(2) show ?thesis by (metis Pair_inject ret_inject)
qed

lemma insert_trace_grows:
  assumes sl: "sl_chain s as" and trace: "insert_trace k v s = ret (c, ss)"
  shows "ss \<noteq> [] \<and> (\<exists>as'. sl_chain (last ss) as') \<and> (\<forall>t \<in> set (s # ss). calm t) \<and> successively grows (s # ss)"
proof -
  let ?h = "mem s" and ?hdr = "headerNode s" and ?q = "pred (mem s) (headerNode s) as k"
  let ?l = "s\<lparr>mtx_held := True\<rparr>"
  have ch: "chains ?h ?hdr (maxLevel s) as" and dom: "dom ?h = insert ?hdr (set as)"
    and le: "curLevel s \<le> maxLevel s" and free: "?h (brk s) = None"
    using sl by (auto simp: sl_chain_def)
  have calm: "calm s" by (rule sl_chain_calm [OF sl])
  then have calm_l: "calm ?l" by (simp add: calm_def)
  have lock: "lock_mtx s = ret ?l" using sl by (simp add: lock_mtx_def sl_chain_def)
  have "ss \<noteq> [] \<and> (\<forall>t \<in> set (s # ss). calm t) \<and> successively grows (s # ss)"
  proof (cases "k \<in> key_at ?h ` set as")
    case True
    obtain x bs where r: "rest ?h as k 0 = x # bs" and as: "as = takeWhile (\<lambda>a. key_at ?h a < k) as @ x # bs"
      by (rule present_split [OF ch True])
    have "x \<in> set as" by (subst as) simp
    then have x: "node_ok ?h x" using ch by (simp add: chains_def)
    then obtain h where h: "setValue ?h x v = ret h" "\<And>i. nxt h i = nxt ?h i"
      "shape h = (shape ?h)(x \<mapsto> (key_at ?h x, v, level_at ?h x, level_at ?h x + 1))"
      by (rule setValue_ok) (rule that)
    have ss: "ss = [?l, unlock_mtx (?l\<lparr>mem := h\<rparr>)]"
      using trace lock True locate [OF sl, of k] r h(1)
      by (simp add: insert_trace_def deref_ptr_def del: descend.simps descend_search.simps upt_Suc replicate_Suc)
    have same: "node_ok h a = node_ok ?h a" "level_at h a = level_at ?h a" "key_at h a = key_at ?h a" for a
      using x by (auto simp: node_ok_shape level_at_def key_at_def h(3))
    have "calm (unlock_mtx (?l\<lparr>mem := h\<rparr>))" "grows ?l (unlock_mtx (?l\<lparr>mem := h\<rparr>))"
      using calm by (auto simp: calm_def grows_def unlock_mtx_def same h(2))
    then show ?thesis using calm calm_l by (simp add: ss calm_cong)
  next
    case False
    obtain r s1 up s2 x s3 ts where s1: "getRandomLevel ?l = ret (r, s1)"
      and up: "(if r > curLevel s1
              then obind (fill_update (headerNode s1) [curLevel s1 + 1 ..< r + 1] (update_array s as k))
                     (\<lambda>u. ret (u, s1\<lparr>curLevel := r\<rparr>))
              else ret (update_array s as k, s1)) = ret (up, s2)"
      and s3: "createNode k v r s2 = (x, s3)"
      and ts: "link_trace s3 x up [0 ..< r + 1] = ret ts"
      and ss: "ss = [s1, s2] @ ts @ [unlock_mtx ((last ts)\<lparr>elementCount := elementCount s3 + 1\<rparr>)]"
      using trace lock False locate [OF sl, of k]
      by (auto simp: insert_trace_def elim!: obind_eq_retE split: prod.splits simp del: descend.simps descend_search.simps upt_Suc replicate_Suc)
    have r: "r \<le> maxLevel s" "s1 = ?l\<lparr>rands := rands s1\<rparr>"
      using s1 by (auto simp: getRandomLevel_def elim!: obind_eq_retE split: if_splits)
    then have c1: "curLevel s1 = curLevel s" "headerNode s1 = ?hdr" "mem s1 = ?h" "brk s1 = brk s"
      by (metis skiplist.select_convs skiplist.update_convs skiplist.surjective)+
    obtain up' where up': "r > curLevel s \<Longrightarrow> fill_update ?hdr [curLevel s + 1 ..< r + 1] (update_array s as k) = ret up'"
        "\<not> r > curLevel s \<Longrightarrow> up' = update_array s as k"
      and len: "length up' = maxLevel s + 1" and upq: "\<And>i. i \<le> r \<Longrightarrow> up' ! i = Some (?q i)"
      by (rule insert_update [OF sl r(1) refl]) (rule that)
    have s2: "up = up'" "mem s2 = ?h" "headerNode s2 = ?hdr" "brk s2 = brk s" "curLevel s2 \<le> maxLevel s"
      using up up' c1 r(1) le by (auto split: if_splits simp del: upt_Suc)
    have x: "x = brk s" "mem s3 = ?h(x \<mapsto> Node k v r)" "headerNode s3 = ?hdr"
      using s3 s2 by (auto simp: createNode_def)
    have top: "level_at ?h ?hdr = maxLevel s" using ch by (simp add: chains_def)
    have calm_s: "calm s1" "calm s2"
      by (rule calm_cong(2) [OF _ _ _ calm]; use c1 s2 top le in simp)+
    have g_s: "grows s ?l" "grows ?l s1" "grows s1 s2"
      by (rule calm_cong(1); use c1 s2 in simp)+
    have s3_ok: "calm s3" "grows s2 s3"
      using createNode_grows [OF calm_s(2) s3] free x(1) s2(2) by simp_all
    have x_new: "x \<notin> insert ?hdr (set as)" using free dom x(1) by auto
    have sh: "shape (mem s3) = (shape ?h)(x \<mapsto> (k, v, r, r + 1))" by (simp add: x(2) shape_new)
    have new: "nxt (mem s3) i x = None" for i by (simp add: x(2) nxt_new)
    have "link_ready (mem s3) x ?q up i \<and> i \<le> level_at (mem s3) x \<and> nxt (mem s3) i x = None" if "i \<le> r" for i
      using that r(1) len upq s2(1) chains_pred_not [OF ch x_new] chains_node [OF ch _ pred_in, of i k]
      by (auto simp: link_ready_def node_ok_shape level_at_def sh new)
    then have "\<forall>i \<in> set [0 ..< r + 1]. link_ready (mem s3) x ?q up i \<and> i \<le> level_at (mem s3) x \<and> nxt (mem s3) i x = None"
      by (simp add: less_Suc_eq_le del: upt_Suc)
    from link_trace_grows [OF s3_ok(1) distinct_upt _ this] x_new ts x(3)
    obtain us where us: "ts = s3 # us" "\<forall>u \<in> set us. calm u" "successively grows (s3 # us)" by auto
    let ?z = "unlock_mtx ((last ts)\<lparr>elementCount := elementCount s3 + 1\<rparr>)"
    have "calm (last ts)" using us(1,2) s3_ok(1) by (cases us rule: rev_cases) auto
    then have "calm ?z" "grows (last ts) ?z"
      by (auto simp: calm_def unlock_mtx_def intro!: calm_cong(1))
    then have z: "successively grows (ts @ [?z])" "calm ?z"
      using us(1,3) by (simp_all only: successively_append_iff) auto
    then show ?thesis
      using calm calm_s s3_ok g_s us z by (auto simp: ss intro: grows_trans)
  qed
  moreover have "insertElement k v s = ret (c, last ss)" using trace by (simp add: insertElement_is_trace)
  ultimately show ?thesis using insert_keeps_chain [OF sl] by blast
qed

text \<open>In every state of a search among insertions the next read succeeds.\<close>

lemma search_safe:
  assumes "search_vs_inserts key s0 hs s r" and "\<exists>as. sl_chain s0 as"
  shows "(\<exists>as. sl_chain s as) \<and> (\<forall>t \<in> set (hs @ [s]). calm t) \<and> successively grows (hs @ [s])
    \<and> search_ok key (visible hs s) r"
  using assms
proof (induction rule: search_vs_inserts.induct)
  case Begin
  then show ?case using sl_chain_calm by auto
next
  case (Read hs s r r')
  have "calm (visible hs s)" using Read by (cases hs) (auto simp: visible_def)
  then obtain r'' where "search_step key (visible hs s) r = ret r''" "search_ok key (visible hs s) r''"
    using search_step_ok Read by metis
  then show ?case using Read by simp
next
  case (Write t hs s r)
  then have "grows t (visible hs s)" by (cases hs) (auto simp: visible_def)
  then show ?case using Write search_ok_grows by (cases hs) (auto simp: visible_def)
next
  case (Call s r k v c ss)
  then obtain as where "sl_chain s as" by blast
  from insert_trace_grows [OF this Call(2)]
  have ss: "ss \<noteq> []" "\<exists>as'. sl_chain (last ss) as'" "\<forall>t \<in> set (s # ss). calm t" "successively grows (s # ss)" by blast+
  have "(s # butlast ss) @ [last ss] = s # ss" using ss(1) by simp
  then show ?case using ss Call by (simp only: visible_def) auto
qed

lemma search_found_ok:
  assumes "search_ok key (visible hs s) (Done (Some v))" and "sl_chain s as" and "successively grows (hs @ [s])"
  shows "key \<in> key_at (mem s) ` set as"
proof -
  have "search_ok key s (Done (Some v))" using assms(1,3)
  proof (induction hs)
    case (Cons t hs)
    then have "grows t (visible hs s)" by (cases hs) (auto simp: visible_def)
    then have "search_ok key (visible hs s) (Done (Some v))"
      using Cons.prems(1) search_ok_grows by (simp add: visible_def del: search_ok.simps)
    moreover have "successively grows (hs @ [s])" using Cons.prems(2) by (cases hs) auto
    ultimately show ?case by (rule Cons.IH)
  qed (simp add: visible_def)
  then obtain a where "node_ok (mem s) a" "a \<noteq> headerNode s" "key_at (mem s) a = key" by auto
  then show ?thesis using assms(2) node_ok_allocated by (fastforce simp: sl_chain_def)
qed

section \<open>A search ends once it is left alone\<close>

lemma walk_ends:
  assumes "sl_chain s as" and "at_level s i c"
  shows "\<exists>c'. walk (mem s) key i c = ret c' \<and> at_level s i c'"
proof -
  let ?L = "level_list (mem s) as i"
  have ch: "chains (mem s) (headerNode s) (maxLevel s) as" using assms(1) by (simp add: sl_chain_def)
  have c: "c \<in> insert (headerNode s) (set as)" "i \<le> level_at (mem s) c"
    using assms node_ok_allocated by (fastforce simp: sl_chain_def at_level_def)+
  then have i: "i \<le> maxLevel s" using ch by (auto simp: chains_def)
  have "c \<in> set (headerNode s # ?L)" using c by (auto simp: set_level_list)
  then obtain us vs where eq: "headerNode s # ?L = us @ c # vs" by (meson split_list)
  have "linked (nxt (mem s) i) (us @ c # vs)" using ch i eq by (auto simp: chains_def)
  then have l: "linked (nxt (mem s) i) (c # vs)" by (rule linked_suffix)
  have lvl: "\<forall>a \<in> set (c # vs). node_ok (mem s) a \<and> i \<le> level_at (mem s) a"
  proof
    fix a assume "a \<in> set (c # vs)"
    then have "a \<in> set (headerNode s # ?L)" unfolding eq by auto
    then show "node_ok (mem s) a \<and> i \<le> level_at (mem s) a" using chains_node [OF ch i] by simp
  qed
  let ?d = "last (c # takeWhile (\<lambda>a. key_at (mem s) a < key) vs)"
  have "?d \<in> set (c # takeWhile (\<lambda>a. key_at (mem s) a < key) vs)" by (rule last_in_set) simp
  then have "at_level s i ?d" using lvl by (auto simp: at_level_def dest: set_takeWhileD)
  then show ?thesis using walk_linked [OF l lvl] by blast
qed

lemma search_descends:
  assumes "sl_chain s as" and "at_level s i c"
  shows "\<exists>c'. reads key s (Test i c) (Bottom c') \<and> at_level s 0 c'"
  using assms(2)
proof (induction i arbitrary: c)
  case 0
  then show ?case using walk_ends [OF assms(1), of 0 c key] reads_walk [of s key 0 c] by fastforce
next
  case (Suc i)
  obtain d where d: "walk (mem s) key (Suc i) c = ret d" "at_level s (Suc i) d"
    using walk_ends [OF assms(1) Suc.prems] by blast
  then have "at_level s i d" by (simp add: at_level_def)
  then obtain c' where "reads key s (Test i d) (Bottom c')" "at_level s 0 c'" using Suc.IH by blast
  then show ?case using reads_walk [OF d(1)] reads_trans by fastforce
qed

lemma search_ends:
  assumes "sl_chain s as" and "search_ok key s r"
  shows "\<exists>v. reads key s r (Done v)"
proof -
  have calm: "calm s" by (rule sl_chain_calm [OF assms(1)])
  have check: "\<exists>v. reads key s (Check p) (Done v)" if "search_ok key s (Check p)" for p
  proof (cases p)
    case None
    then show ?thesis by (auto intro!: exI [of _ None] reads_one simp: has_key_def)
  next
    case (Some a)
    then have a: "node_ok (mem s) a" using that by simp
    show ?thesis
    proof (cases "key_at (mem s) a = key")
      case True
      then have "reads key s (Check p) (Done (Some (val_at (mem s) a)))"
        using Some a
        by (intro reads_step [of _ _ _ "Fetch a", OF _ reads_step [of _ _ _ "Print a (val_at (mem s) a)", OF _ reads_one]])
          (simp_all add: has_key_def getKey_ok getValue_ok deref_ptr_def)
      then show ?thesis by blast
    next
      case False
      then show ?thesis
        using Some a by (auto intro!: exI [of _ None] reads_one simp: has_key_def getKey_ok deref_ptr_def)
    qed
  qed
  have step: "\<exists>v. reads key s r (Done v)" if "search_ok key s r"
    and "\<And>r'. search_step key s r = ret r' \<Longrightarrow> search_ok key s r' \<Longrightarrow> \<exists>v. reads key s r' (Done v)" for r
    using search_step_ok [OF calm that(1)] that(2) by (metis reads_step)
  have bottom: "\<exists>v. reads key s (Bottom c) (Done v)" if "at_level s 0 c" for c
  proof (rule step)
    fix r' assume "search_step key s (Bottom c) = ret r'" "search_ok key s r'"
    then show "\<exists>v. reads key s r' (Done v)" using check by (auto elim!: obind_eq_retE simp del: search_ok.simps)
  qed (use that in simp)
  have test: "\<exists>v. reads key s (Test i c) (Done v)" if "at_level s i c" for i c
    using search_descends [OF assms(1) that] bottom reads_trans by fast
  have next_level: "\<exists>v. reads key s (next_level i c) (Done v)" if "search_ok key s (next_level i c)" for i c
    using that test bottom by (cases i) simp_all
  have move: "\<exists>v. reads key s (Move i c) (Done v)" if "search_ok key s (Move i c)" for i c
  proof (rule step [OF that])
    fix r' assume r': "search_step key s (Move i c) = ret r'" "search_ok key s r'"
    then obtain b where "r' = Test i b" by (auto elim!: obind_eq_retE)
    then show "\<exists>v. reads key s r' (Done v)" using r'(2) test by simp
  qed
  have compare: "\<exists>v. reads key s (Compare i c b) (Done v)" if "search_ok key s (Compare i c b)" for i c b
  proof (rule step [OF that])
    fix r' assume r': "search_step key s (Compare i c b) = ret r'" "search_ok key s r'"
    then consider "r' = Move i c" | "r' = next_level i c" by (auto elim!: obind_eq_retE split: if_splits)
    then show "\<exists>v. reads key s r' (Done v)" using r'(2) move next_level by cases simp_all
  qed
  have load: "\<exists>v. reads key s (Load i c) (Done v)" if "search_ok key s (Load i c)" for i c
  proof (rule step [OF that])
    fix r' assume r': "search_step key s (Load i c) = ret r'" "search_ok key s r'"
    then obtain b where "r' = Compare i c b" by (auto elim!: obind_eq_retE)
    then show "\<exists>v. reads key s r' (Done v)" using r'(2) compare by simp
  qed
  show ?thesis
  proof (cases r)
    case Enter
    have "at_level s (curLevel s) (headerNode s)" using calm by (simp add: calm_def at_level_def)
    then have "\<exists>v. reads key s (Test (curLevel s) (headerNode s)) (Done v)" by (rule test)
    then show ?thesis unfolding Enter using reads_step [of key s Enter "Test (curLevel s) (headerNode s)"] by auto
  next
    case (Fetch a)
    then have "reads key s r (Done (Some (val_at (mem s) a)))"
      using assms(2) by (intro reads_step [of _ _ _ "Print a (val_at (mem s) a)", OF _ reads_one]) (simp_all add: getValue_ok)
    then show ?thesis ..
  next
    case (Print a v)
    then have "reads key s r (Done (Some v))" using assms(2) by (intro reads_one) (simp add: getValue_ok)
    then show ?thesis ..
  next
    case (Done v)
    then show ?thesis by (intro exI [of _ v]) simp
  qed (use assms(2) check bottom test compare move load in simp_all)
qed

end
