(* ===== verification/Close_Race.thy ===== *)
theory Close_Race
  imports Server
begin

text \<open>
  Two threads delete one connection at the same time. The thread of a sub reactor deletes a connection
  when it reads its end (\<open>Connection::Close\<close>), the thread of the main reactor when the periodic check
  finds it idle (\<open>src/network/Server.cpp\<close>); nothing keeps them apart. Here \<open>Connection::deleteConnection\<close>
  is split into its accesses of the shared connection and the kernel, one per step, and two threads run
  it under an arbitrary schedule.
\<close>

section \<open>One thread\<close>

datatype delete_pc =
    Mark               \<comment> \<open>\<open>state_ = State::Closed\<close>\<close>
  | Disable            \<comment> \<open>\<open>listen_events_ &= 0\<close>\<close>
  | Look               \<comment> \<open>\<open>UpdateChannel\<close> reads the events and \<open>in_epoll_\<close>\<close>
  | Ctl_mod "32 word"  \<comment> \<open>\<open>epoll_ctl(EPOLL_CTL_MOD)\<close>\<close>
  | Ctl_add "32 word"  \<comment> \<open>\<open>epoll_ctl(EPOLL_CTL_ADD)\<close>\<close>
  | Set_flag           \<comment> \<open>\<open>SetInEpoll()\<close>\<close>
  | Ctl_del            \<comment> \<open>\<open>DeleteChannel\<close>: \<open>epoll_ctl(EPOLL_CTL_DEL)\<close>\<close>
  | Clear_flag         \<comment> \<open>\<open>SetInEpoll(false)\<close>\<close>
  | Finished

abbreviation set_channel :: "(channel \<Rightarrow> channel) \<Rightarrow> connection \<Rightarrow> connection" where
  "set_channel f c \<equiv> c\<lparr>conn_channel := f (conn_channel c)\<rparr>"

fun delete_step :: "'k epoll_ctl \<Rightarrow> delete_pc \<Rightarrow> 'k conn \<Rightarrow> (delete_pc \<times> 'k conn) outcome" where
  "delete_step ctl Mark (c, k) = ret (Disable, c\<lparr>conn_state := Closed\<rparr>, k)"
| "delete_step ctl Disable (c, k) =
     ret (Look, set_channel (\<lambda>ch. ch\<lparr>listen_events := listen_events ch AND 0\<rparr>) c, k)"
| "delete_step ctl Look (c, k) =
     (let ch = conn_channel c in
      ret (if in_epoll ch then Ctl_mod (listen_events ch) else Ctl_add (listen_events ch), c, k))"
| "delete_step ctl (Ctl_add ev) (c, k) =
     (case ctl k EPOLL_CTL_ADD (ch_fd (conn_channel c)) ev of
        None \<Rightarrow> fail (Exit ''epoll add error'') | Some k' \<Rightarrow> ret (Set_flag, c, k'))"
| "delete_step ctl Set_flag (c, k) = ret (Ctl_del, set_channel (\<lambda>ch. ch\<lparr>in_epoll := True\<rparr>) c, k)"
| "delete_step ctl (Ctl_mod ev) (c, k) =
     (case ctl k EPOLL_CTL_MOD (ch_fd (conn_channel c)) ev of
        None \<Rightarrow> fail (Exit ''epoll modify error'') | Some k' \<Rightarrow> ret (Ctl_del, c, k'))"
| "delete_step ctl Ctl_del (c, k) =
     (case ctl k EPOLL_CTL_DEL (ch_fd (conn_channel c)) 0 of
        None \<Rightarrow> fail (Exit ''epoll delete error'') | Some k' \<Rightarrow> ret (Clear_flag, c, k'))"
| "delete_step ctl Clear_flag (c, k) = ret (Finished, set_channel (\<lambda>ch. ch\<lparr>in_epoll := False\<rparr>) c, k)"
| "delete_step ctl Finished ck = ret (Finished, ck)"

fun delete_steps :: "'k epoll_ctl \<Rightarrow> nat \<Rightarrow> delete_pc \<times> 'k conn \<Rightarrow> (delete_pc \<times> 'k conn) outcome" where
  "delete_steps ctl 0 p = ret p"
| "delete_steps ctl (Suc n) p = obind (delete_step ctl (fst p) (snd p)) (delete_steps ctl n)"

text \<open>With nobody else at work the steps are \<open>deleteConnection\<close>.\<close>

lemma delete_steps_deleteConnection:
  "delete_steps ctl 7 (Mark, ck) = obind (deleteConnection ctl ck) (\<lambda>ck. ret (Finished, ck))"
proof (cases ck)
  case (Pair c k)
  then show ?thesis
    by (auto simp: eval_nat_numeral deleteConnection_def disableAll_def UpdateChannel_def DeleteChannel_def Let_def
        split: option.splits)
qed

section \<open>Two threads\<close>

text \<open>A schedule says for every step whether the first thread makes it.\<close>

fun race :: "'k epoll_ctl \<Rightarrow> bool list \<Rightarrow> delete_pc \<times> delete_pc \<times> 'k conn \<Rightarrow> (delete_pc \<times> delete_pc \<times> 'k conn) outcome" where
  "race ctl [] x = ret x"
| "race ctl (b # bs) (p, q, ck) =
     (if b then obind (delete_step ctl p ck) (\<lambda>(p, ck). race ctl bs (p, q, ck))
      else obind (delete_step ctl q ck) (\<lambda>(q, ck). race ctl bs (p, q, ck)))"

text \<open>The documented failures of \<open>epoll_ctl\<close>: \<open>ENOENT\<close> on a descriptor that is not registered.\<close>

locale strict_epoll = epoll_instance ctl interest
  for ctl :: "'k epoll_ctl" and interest :: "'k \<Rightarrow> int \<rightharpoonup> 32 word" +
  assumes mod_fail: "interest k fd = None \<Longrightarrow> ctl k EPOLL_CTL_MOD fd ev = None"
    and del_fail: "interest k fd = None \<Longrightarrow> ctl k EPOLL_CTL_DEL fd ev = None"

interpretation map_strict: strict_epoll map_ctl "\<lambda>k. k"
  by unfold_locales simp_all

text \<open>
  The position of a thread that found the connection registered, counted in steps. One deletion comes
  before the other when it has made all its six steps while the other has made at most its first two
  and so has not looked at the flag.
\<close>

fun position :: "delete_pc \<Rightarrow> nat" where
  "position Mark = 0"
| "position Disable = 1"
| "position Look = 2"
| "position (Ctl_mod ev) = 3"
| "position Ctl_del = 4"
| "position Clear_flag = 5"
| "position Finished = 6"
| "position pc = 7"

definition ahead :: "bool \<Rightarrow> nat \<Rightarrow> nat \<Rightarrow> bool list \<Rightarrow> bool" where
  "ahead b i j bs \<longleftrightarrow> (\<exists>n. 6 \<le> i + count_list (take n bs) b \<and> j + count_list (take n bs) (\<not> b) \<le> 2)"

definition serial :: "nat \<Rightarrow> nat \<Rightarrow> bool list \<Rightarrow> bool" where
  "serial i j bs \<longleftrightarrow> ahead True i j bs \<or> ahead False j i bs"

lemma ahead_Nil [simp]: "ahead b i j [] \<longleftrightarrow> 6 \<le> i \<and> j \<le> 2"
  by (simp add: ahead_def)

lemma ahead_Cons:
  "ahead b i j (x # bs) \<longleftrightarrow> 6 \<le> i \<and> j \<le> 2 \<or> (if x = b then ahead b (Suc i) j bs else ahead b i (Suc j) bs)"
proof -
  have "(\<exists>n. P n) \<longleftrightarrow> P 0 \<or> (\<exists>n. P (Suc n))" for P :: "nat \<Rightarrow> bool" by (metis not0_implies_Suc)
  from this [of "\<lambda>n. 6 \<le> i + count_list (take n (x # bs)) b \<and> j + count_list (take n (x # bs)) (\<not> b) \<le> 2"]
  show ?thesis unfolding ahead_def by (cases "x = b") simp_all
qed

lemma ahead_late [simp]: "2 < j \<Longrightarrow> \<not> ahead b i j bs"
  by (auto simp: ahead_def)

lemma ahead_now [simp]: "6 \<le> i \<Longrightarrow> j \<le> 2 \<Longrightarrow> ahead b i j bs"
  by (auto simp: ahead_def intro: exI [of _ 0])

lemma serial_Nil: "serial i j [] \<longleftrightarrow> 6 \<le> i \<and> j \<le> 2 \<or> 6 \<le> j \<and> i \<le> 2"
  by (simp add: serial_def)

text \<open>What the two positions say of the connection and the kernel.\<close>

definition shared :: "('k \<Rightarrow> int \<rightharpoonup> 32 word) \<Rightarrow> int \<Rightarrow> nat \<Rightarrow> nat \<Rightarrow> 'k conn \<Rightarrow> bool" where
  "shared interest fd i j = (\<lambda>(c, k).
     ch_fd (conn_channel c) = fd \<and> (in_epoll (conn_channel c) \<longleftrightarrow> i < 6 \<and> j < 6)
     \<and> (interest k fd \<noteq> None \<longleftrightarrow> i < 5 \<and> j < 5) \<and> (1 \<le> i \<or> 1 \<le> j \<longrightarrow> conn_state c = Closed))"

definition both_done :: "('k \<Rightarrow> int \<rightharpoonup> 32 word) \<Rightarrow> int \<Rightarrow> (delete_pc \<times> delete_pc \<times> 'k conn) outcome \<Rightarrow> bool" where
  "both_done interest fd m \<longleftrightarrow>
     (\<exists>c k. m = ret (Finished, Finished, c, k) \<and> conn_state c = Closed \<and> interest k fd = None)"

definition process_dies :: "(delete_pc \<times> delete_pc \<times> 'k conn) outcome \<Rightarrow> bool" where
  "process_dies m \<longleftrightarrow> m = fail (Exit ''epoll modify error'') \<or> m = fail (Exit ''epoll delete error'')"

lemma dies_fail [simp]:
  "process_dies (fail (Exit ''epoll modify error''))" "process_dies (fail (Exit ''epoll delete error''))"
  by (simp_all add: process_dies_def)

definition steps_left :: "bool \<Rightarrow> bool list \<Rightarrow> delete_pc \<Rightarrow> bool" where
  "steps_left b bs p \<longleftrightarrow> p = Finished \<or> 7 \<le> position p + count_list bs b"

lemma steps_left_other: "steps_left b (x # bs) p \<Longrightarrow> x \<noteq> b \<Longrightarrow> steps_left b bs p"
  by (simp add: steps_left_def)

lemma position_cases:
  "position p = 0 \<longleftrightarrow> p = Mark" "position p = Suc 0 \<longleftrightarrow> p = Disable" "position p = 2 \<longleftrightarrow> p = Look"
  "position p = 3 \<longleftrightarrow> (\<exists>ev. p = Ctl_mod ev)" "position p = 4 \<longleftrightarrow> p = Ctl_del" "position p = 5 \<longleftrightarrow> p = Clear_flag"
  "position p = 6 \<longleftrightarrow> p = Finished"
  by (cases p; simp)+

lemma steps_left_step:
  "steps_left b (b # bs) p \<Longrightarrow> position p' = min 6 (Suc (position p)) \<Longrightarrow> steps_left b bs p'"
  by (auto simp: steps_left_def min_def position_cases split: if_splits)

lemma shared_swap: "shared interest fd i j = shared interest fd j i"
  by (auto simp: shared_def fun_eq_iff)

section \<open>The outcome of every schedule\<close>

context strict_epoll begin

text \<open>Both threads have found the flag set: the one that calls \<open>epoll_ctl\<close> last ends the process.\<close>

definition overlapping :: "int \<Rightarrow> delete_pc \<Rightarrow> delete_pc \<Rightarrow> 'k conn \<Rightarrow> bool" where
  "overlapping fd p q ck \<longleftrightarrow> position p \<in> {3..6} \<and> position q \<in> {3..6} \<and> (position p < 5 \<or> position q < 5)
     \<and> shared interest fd (position p) (position q) ck"

lemma overlapping_swap: "overlapping fd p q ck = overlapping fd q p ck"
  by (auto simp: overlapping_def shared_swap)

lemma overlapping_step:
  assumes "overlapping fd p q ck"
  shows "process_dies (obind (delete_step ctl p ck) f)
    \<or> (\<exists>p' ck'. delete_step ctl p ck = ret (p', ck') \<and> overlapping fd p' q ck' \<and> position p' = min 6 (Suc (position p)))"
proof (cases ck)
  case (Pair c k)
  show ?thesis
  proof (cases p)
    case (Ctl_mod ev)
    show ?thesis
    proof (cases "position q < 5")
      case True
      then obtain k' where "ctl k EPOLL_CTL_MOD fd ev = Some k'" "interest k' = (interest k)(fd \<mapsto> ev)"
        using mod_law [of k fd ev] assms Pair Ctl_mod by (auto simp: overlapping_def shared_def)
      then show ?thesis using assms Pair Ctl_mod True by (auto simp: overlapping_def shared_def)
    next
      case False
      then have "ctl k EPOLL_CTL_MOD fd ev = None"
        using assms Pair Ctl_mod by (intro mod_fail) (simp add: overlapping_def shared_def)
      then show ?thesis using assms Pair Ctl_mod by (auto simp: overlapping_def shared_def)
    qed
  next
    case Ctl_del
    show ?thesis
    proof (cases "position q < 5")
      case True
      then obtain k' where "ctl k EPOLL_CTL_DEL fd 0 = Some k'" "interest k' = (interest k)(fd := None)"
        using del_law [of k fd 0] assms Pair Ctl_del by (auto simp: overlapping_def shared_def)
      then show ?thesis using assms Pair Ctl_del True by (auto simp: overlapping_def shared_def)
    next
      case False
      then have "ctl k EPOLL_CTL_DEL fd 0 = None"
        using assms Pair Ctl_del by (intro del_fail) (simp add: overlapping_def shared_def)
      then show ?thesis using assms Pair Ctl_del by (auto simp: overlapping_def shared_def)
    qed
  qed (use assms Pair in \<open>auto simp: overlapping_def shared_def\<close>)
qed

lemma overlapping_dies:
  assumes "overlapping fd p q ck" and "steps_left True bs p" and "steps_left False bs q"
  shows "process_dies (race ctl bs (p, q, ck))"
  using assms
proof (induction bs arbitrary: p q ck)
  case Nil
  then show ?case by (auto simp: steps_left_def overlapping_def)
next
  case (Cons b bs)
  show ?case
  proof (cases b)
    case True
    then show ?thesis
      using overlapping_step [OF Cons.prems(1), of "\<lambda>(p, ck). race ctl bs (p, q, ck)"] Cons.IH Cons.prems(2,3) steps_left_step [of True bs p]
      by (auto simp: steps_left_def)
  next
    case False
    have o: "overlapping fd q p ck" using Cons.prems(1) by (simp add: overlapping_swap)
    have "process_dies (race ctl bs (p, q', ck'))"
      if "overlapping fd q' p ck'" "position q' = min 6 (Suc (position q))" for q' ck'
    proof (rule Cons.IH)
      show "overlapping fd p q' ck'" using that(1) by (subst overlapping_swap)
      show "steps_left False bs q'" using steps_left_step [of False bs q q'] Cons.prems(3) False that(2) by simp
    qed (use Cons.prems(2) False in \<open>auto simp: steps_left_def\<close>)
    then show ?thesis
      using overlapping_step [OF o, of "\<lambda>(q, ck). race ctl bs (p, q, ck)"] False by auto
  qed
qed

text \<open>A thread that looks after the other is done registers the channel again and takes it out.\<close>

fun late :: "int \<Rightarrow> delete_pc \<Rightarrow> 'k conn \<Rightarrow> bool" where
  "late fd p (c, k) \<longleftrightarrow> ch_fd (conn_channel c) = fd \<and> conn_state c = Closed
     \<and> (case p of Ctl_add ev \<Rightarrow> interest k fd = None | Set_flag \<Rightarrow> interest k fd \<noteq> None
        | Ctl_del \<Rightarrow> interest k fd \<noteq> None | Clear_flag \<Rightarrow> interest k fd = None | Finished \<Rightarrow> interest k fd = None
        | _ \<Rightarrow> False)"

fun late_left :: "delete_pc \<Rightarrow> nat" where
  "late_left (Ctl_add ev) = 4"
| "late_left Set_flag = 3"
| "late_left Ctl_del = 2"
| "late_left Clear_flag = 1"
| "late_left _ = 0"

lemma late_step:
  assumes "late fd p ck"
  shows "\<exists>p' ck'. delete_step ctl p ck = ret (p', ck') \<and> late fd p' ck' \<and> late_left p' = late_left p - 1"
proof (cases ck)
  case (Pair c k)
  show ?thesis
  proof (cases p)
    case (Ctl_add ev)
    then show ?thesis using assms Pair add_law [of k fd ev] by auto
  next
    case Ctl_del
    then show ?thesis using assms Pair del_law [of k fd 0] by auto
  qed (use assms Pair in auto)
qed

lemma late_finishes:
  assumes "late fd p ck" and "late_left p \<le> count_list bs b"
  shows "both_done interest fd (race ctl bs (if b then (p, Finished, ck) else (Finished, p, ck)))"
  using assms
proof (induction bs arbitrary: p ck)
  case Nil
  then show ?case by (cases ck; cases p; cases b) (auto simp: both_done_def)
next
  case (Cons x bs)
  obtain p' ck' where p': "delete_step ctl p ck = ret (p', ck')" "late fd p' ck'" "late_left p' = late_left p - 1"
    using late_step [OF Cons.prems(1)] by blast
  show ?case
  proof (cases "x = b")
    case True
    then have "both_done interest fd (race ctl bs (if b then (p', Finished, ck') else (Finished, p', ck')))"
      using Cons p' by auto
    then show ?thesis using True p'(1) by (cases b) simp_all
  next
    case False
    then show ?thesis using Cons by (cases b) auto
  qed
qed

text \<open>At most one of the threads has looked at the flag.\<close>

definition apart :: "int \<Rightarrow> delete_pc \<Rightarrow> delete_pc \<Rightarrow> 'k conn \<Rightarrow> bool" where
  "apart fd p q ck \<longleftrightarrow> position p \<le> 6 \<and> position q \<le> 6 \<and> (position p \<le> 2 \<or> position q \<le> 2)
     \<and> shared interest fd (position p) (position q) ck"

lemma apart_swap: "apart fd p q ck = apart fd q p ck"
  by (auto simp: apart_def shared_swap)

lemma apart_step:
  assumes "apart fd p q ck"
  obtains p' ck' where "delete_step ctl p ck = ret (p', ck')" "apart fd p' q ck'" "position p' = min 6 (Suc (position p))"
  | p' ck' where "delete_step ctl p ck = ret (p', ck')" "overlapping fd p' q ck'" "position p = 2" "position p' = 3"
      "3 \<le> position q" "position q < 6"
  | p' ck' where "delete_step ctl p ck = ret (p', ck')" "late fd p' ck'" "late_left p' = 4" "position p = 2" "q = Finished"
proof -
  obtain c k where ck: "ck = (c, k)" by (cases ck)
  show thesis
  proof (cases p)
    case Look
    then show thesis using assms ck that position_cases(7) [of q]
      by (cases "position q \<le> 2") (auto simp: apart_def overlapping_def shared_def split: if_splits)
  next
    case (Ctl_mod ev)
    then show thesis
      using assms ck that(1) mod_law [of k fd ev] by (auto simp: apart_def shared_def)
  next
    case Ctl_del
    then show thesis
      using assms ck that(1) del_law [of k fd 0] by (auto simp: apart_def shared_def)
  qed (use assms ck that(1) in \<open>auto simp: apart_def shared_def\<close>)
qed

lemma serial_step:
  assumes "apart fd p q ck" and "apart fd p' q ck'" and "position p' = min 6 (Suc (position p))"
  shows "serial (position p) (position q) (True # bs) = serial (position p') (position q) bs"
    and "serial (position q) (position p) (False # bs) = serial (position q) (position p') bs"
  using assms by (auto simp: serial_def ahead_Cons apart_def min_def split: if_splits)

lemma race_apart:
  assumes "apart fd p q ck" and "steps_left True bs p" and "steps_left False bs q"
  shows "if serial (position p) (position q) bs then both_done interest fd (race ctl bs (p, q, ck))
    else process_dies (race ctl bs (p, q, ck))"
  using assms
proof (induction bs arbitrary: p q ck)
  case Nil
  then show ?case by (auto simp: steps_left_def apart_def)
next
  case (Cons b bs)
  show ?case
  proof (cases b)
    case True
    show ?thesis
    proof (rule apart_step [OF Cons.prems(1)])
      fix p' ck' assume st: "delete_step ctl p ck = ret (p', ck')" "apart fd p' q ck'" "position p' = min 6 (Suc (position p))"
      then show ?thesis
        using Cons.IH [OF st(2)] Cons.prems(2,3) True serial_step(1) [OF Cons.prems(1) st(2,3)]
          steps_left_step [of True bs p p'] steps_left_other [of False b bs q] by simp
    next
      fix p' ck' assume st: "delete_step ctl p ck = ret (p', ck')" "overlapping fd p' q ck'" "position p = 2"
        "position p' = 3" "3 \<le> position q" "position q < 6"
      then show ?thesis
        using overlapping_dies [OF st(2), of bs] Cons.prems(2,3) True
          steps_left_step [of True bs p p'] steps_left_other [of False b bs q] by (simp add: serial_def ahead_Cons)
    next
      fix p' ck' assume st: "delete_step ctl p ck = ret (p', ck')" "late fd p' ck'" "late_left p' = 4" "position p = 2" "q = Finished"
      then show ?thesis
        using late_finishes [OF st(2), of bs True] Cons.prems(2) True
        by (auto simp add: serial_def steps_left_def)
    qed
  next
    case False
    have a: "apart fd q p ck" using Cons.prems(1) by (simp add: apart_swap)
    show ?thesis
    proof (rule apart_step [OF a])
      fix q' ck' assume st: "delete_step ctl q ck = ret (q', ck')" "apart fd q' p ck'" "position q' = min 6 (Suc (position q))"
      then have "apart fd p q' ck'" by (simp add: apart_swap)
      then show ?thesis
        using Cons.IH Cons.prems(2,3) False serial_step(2) [OF a st(2,3)] st(1,3)
          steps_left_step [of False bs q q'] steps_left_other [of True b bs p] by simp
    next
      fix q' ck' assume st: "delete_step ctl q ck = ret (q', ck')" "overlapping fd q' p ck'" "position q = 2"
        "position q' = 3" "3 \<le> position p" "position p < 6"
      then have "overlapping fd p q' ck'" by (simp add: overlapping_swap)
      then show ?thesis
        using overlapping_dies [of fd p q' ck' bs] Cons.prems(2,3) False st
          steps_left_step [of False bs q q'] steps_left_other [of True b bs p] by (simp add: serial_def ahead_Cons)
    next
      fix q' ck' assume st: "delete_step ctl q ck = ret (q', ck')" "late fd q' ck'" "late_left q' = 4" "position q = 2" "p = Finished"
      then show ?thesis
        using late_finishes [OF st(2), of bs False] Cons.prems(3) False
        by (auto simp add: serial_def steps_left_def)
    qed
  qed
qed

end

end
