(* ===== verification/Timed_Server.thy ===== *)
theory Timed_Server
  imports Server_Process TimerQueue
begin

text \<open>
  The server with its periodic check (\<open>Server::CheckActiveConnection\<close>, \<open>src/network/Server.cpp\<close>): the
  callback of a timer in the queue of the main reactor. A round of the main loop handles the acceptor
  and the timer descriptor; when the latter is ready, \<open>TimerQueue::handleRead\<close> runs every due callback
  on the state of the server.
\<close>

section \<open>Timers whose callbacks act\<close>

text \<open>
  \<open>handle_loop\<close> of theory \<open>TimerQueue\<close> records the callbacks that run; here they run, on a state \<open>'x\<close>. They
  do not touch the queue.
\<close>

function run_loop ::
  "queue_top \<Rightarrow> (nat \<Rightarrow> 'x \<Rightarrow> 'x outcome) \<Rightarrow> timeval list \<Rightarrow> timer_node list \<Rightarrow> 'x
    \<Rightarrow> (timer_node list \<times> 'x \<times> timeval list) outcome"
where
  "run_loop pick run nows q x =
     (if q = [] then ret (q, x, nows)
      else if \<not> pick q < length q then fail Out_of_range
      else
        (let t = q ! pick q in
         if deleted t then run_loop pick run nows (pop pick q) x
         else
           (case nows of
              [] \<Rightarrow> None
            | now # nows' \<Rightarrow>
                (let (valid, t) = isValid now t in
                 if valid then ret (q, x, nows')
                 else
                   obind (run (callback t) x) (\<lambda>x.
                   let q = pop pick q in
                   if repeating t
                   then run_loop pick run nows' (snd (insert_timer pick (restart now t) q)) x
                   else run_loop pick run nows' q x)))))"
  by pat_completeness auto
termination
  by (relation "measures [\<lambda>(pick, run, nows, q, x). length nows, \<lambda>(pick, run, nows, q, x). length q]")
    (auto simp: pop_def)

declare run_loop.simps [simp del]

definition handleRead_run ::
  "queue_top \<Rightarrow> (nat \<Rightarrow> 'x \<Rightarrow> 'x outcome) \<Rightarrow> timeval list \<Rightarrow> timer_queue \<times> 'x \<Rightarrow> (timer_queue \<times> 'x) outcome" where
  "handleRead_run pick run nows = (\<lambda>(tq, x).
     let tq = tq\<lparr>callingExpiredTimers := True\<rparr> in
     obind (run_loop pick run nows (timerNodeQueue tq) x) (\<lambda>(q, x, nows').
     let tq = tq\<lparr>timerNodeQueue := q, callingExpiredTimers := False\<rparr> in
     if q = [] then ret (tq, x)
     else (case nows' of [] \<Rightarrow> None | now # _ \<Rightarrow> ret (resetTimerfd (expiration (q ! pick q)) now tq, x))))"

text \<open>The callbacks that run are those \<open>handle_loop\<close> records, in that order.\<close>

fun run_all :: "(nat \<Rightarrow> 'x \<Rightarrow> 'x outcome) \<Rightarrow> nat list \<Rightarrow> 'x \<Rightarrow> 'x outcome" where
  "run_all run [] x = ret x"
| "run_all run (cb # cbs) x = obind (run cb x) (run_all run cbs)"

lemma run_loop_runs:
  assumes "handle_loop pick nows q runs = ret (q', runs', nows')"
  shows "\<exists>cbs. runs' = runs @ cbs \<and> (\<forall>x. run_loop pick run nows q x = obind (run_all run cbs x) (\<lambda>x. ret (q', x, nows')))"
  using assms
proof (induction pick nows q runs rule: handle_loop.induct)
  case (1 pick nows q runs)
  let ?t = "q ! pick q"
  have in_q: "q \<noteq> [] \<Longrightarrow> pick q < length q"
    using 1(4) by (auto simp: handle_loop.simps [of pick nows q runs] split: if_splits)
  consider "q = []" | "q \<noteq> []" "deleted ?t" | "q \<noteq> []" "\<not> deleted ?t" by blast
  then show ?case
  proof cases
    case 1
    then show ?thesis
      using "1.prems" by (intro exI [of _ "[]"]) (auto simp: handle_loop.simps [of pick nows "[]"] run_loop.simps [of pick run _ "[]"])
  next
    case 2
    then have "handle_loop pick nows (pop pick q) runs = ret (q', runs', nows')"
      using "1.prems" in_q by (simp add: handle_loop.simps [of pick nows q])
    from "1.IH"(1) [OF _ _ refl _ this] show ?thesis
      using 2 in_q by (simp add: run_loop.simps [of pick run nows q])
  next
    case 3
    note q = 3
    then obtain now nows1 where nows: "nows = now # nows1"
      using "1.prems" in_q by (cases nows) (simp_all add: handle_loop.simps [of pick "[]" q])
    show ?thesis
    proof (cases "fst (isValid now ?t)")
      case True
      then show ?thesis
        using "1.prems" q in_q nows
        by (intro exI [of _ "[]"]) (auto simp: handle_loop.simps [of pick "now # nows1" q] run_loop.simps [of pick run "now # v" w for v w] case_prod_unfold)
    next
      case False
      obtain u where u: "isValid now ?t = (False, u)" using False by (cases "isValid now ?t") auto
      let ?q = "if repeating u then snd (insert_timer pick (restart now u) (pop pick q)) else pop pick q"
      have "handle_loop pick nows1 ?q (runs @ [callback u]) = ret (q', runs', nows')"
        using "1.prems" q in_q nows u by (simp add: handle_loop.simps [of pick "now # nows1" q] Let_def split: if_splits)
      then have "\<exists>cbs. runs' = (runs @ [callback u]) @ cbs
          \<and> (\<forall>x. run_loop pick run nows1 ?q x = obind (run_all run cbs x) (\<lambda>x. ret (q', x, nows')))"
        using "1.IH"(2) [OF q(1) _ refl q(2) nows refl u [symmetric] _ refl refl]
          "1.IH"(3) [OF q(1) _ refl q(2) nows refl u [symmetric] _ refl refl] in_q q(1) by (cases "repeating u") simp_all
      then obtain cbs where "runs' = (runs @ [callback u]) @ cbs"
        "\<And>x. run_loop pick run nows1 ?q x = obind (run_all run cbs x) (\<lambda>x. ret (q', x, nows'))" by blast
      then show ?thesis
        using q in_q nows u
        by (intro exI [of _ "callback u # cbs"], cases "repeating u")
          (auto simp: run_loop.simps [of pick run "now # nows1" q] obind_assoc Let_def intro!: obind_cong)
    qed
  qed
qed

lemma handleRead_run_runs:
  assumes "handleRead pick nows tq = ret tq'"
  shows "\<exists>cbs. fired tq' = fired tq @ cbs
    \<and> handleRead_run pick run nows (tq, x) = obind (run_all run cbs x) (\<lambda>x. ret (tq'\<lparr>fired := fired tq\<rparr>, x))"
proof -
  let ?tq = "tq\<lparr>callingExpiredTimers := True\<rparr>"
  from assms obtain q runs nows' where loop: "handle_loop pick nows (timerNodeQueue tq) (fired tq) = ret (q, runs, nows')"
    and tq': "(if q = [] then ret (?tq\<lparr>timerNodeQueue := q, fired := runs, callingExpiredTimers := False\<rparr>)
      else (case nows' of [] \<Rightarrow> None | now # _ \<Rightarrow> ret (resetTimerfd (expiration (q ! pick q)) now
        (?tq\<lparr>timerNodeQueue := q, fired := runs, callingExpiredTimers := False\<rparr>)))) = ret tq'"
    by (auto simp: handleRead_def Let_def elim!: obind_eq_retE)
  obtain cbs where cbs: "runs = fired tq @ cbs"
    and run: "run_loop pick run nows (timerNodeQueue tq) x = obind (run_all run cbs x) (\<lambda>x. ret (q, x, nows'))"
    using run_loop_runs [OF loop, of run] by auto
  have rd: "handleRead_run pick run nows (tq, x) = obind (run_all run cbs x)
      (\<lambda>x. let tq = ?tq\<lparr>timerNodeQueue := q, callingExpiredTimers := False\<rparr> in
        if q = [] then ret (tq, x)
        else (case nows' of [] \<Rightarrow> None | now # _ \<Rightarrow> ret (resetTimerfd (expiration (q ! pick q)) now tq, x)))"
    by (auto simp: handleRead_run_def run obind_assoc Let_def intro!: obind_cong split: list.splits)
  show ?thesis
  proof (cases "q = []")
    case True
    then have "tq'\<lparr>fired := fired tq\<rparr> = ?tq\<lparr>timerNodeQueue := q, callingExpiredTimers := False\<rparr>" using tq' by auto
    then show ?thesis using rd cbs True tq' by (intro exI [of _ cbs]) auto
  next
    case False
    then obtain now nows'' where n: "nows' = now # nows''" using tq' by (cases nows') simp_all
    then have "tq'\<lparr>fired := fired tq\<rparr> = resetTimerfd (expiration (q ! pick q)) now
        (?tq\<lparr>timerNodeQueue := q, callingExpiredTimers := False\<rparr>)" using tq' False by (auto simp: resetTimerfd_def)
    then show ?thesis using rd cbs False tq' n by (intro exI [of _ cbs]) (auto simp: resetTimerfd_def)
  qed
qed

lemma set_pop: "set (pop pick q) \<subseteq> set q"
  by (auto simp: pop_def dest: in_set_takeD in_set_dropD)

lemma run_loop_yields:
  assumes "timer_order pick" and "P x" and "\<forall>t \<in> set q. callback t = cb"
    and run: "\<And>x. P x \<Longrightarrow> yields E P (run cb x)"
  shows "yields E (\<lambda>(q', x', nows'). P x' \<and> (\<forall>t \<in> set q'. callback t = cb)) (run_loop pick run nows q x)"
  using assms(1-3) run
proof (induction pick run nows q x rule: run_loop.induct)
  case (1 pick run nows q x)
  let ?t = "q ! pick q"
  let ?Q = "yields E (\<lambda>(q', x', nows'). P x' \<and> (\<forall>t \<in> set q'. callback t = cb))"
  show ?case
  proof (cases "q = []")
    case True
    then show ?thesis using "1.prems" by (simp add: run_loop.simps [of _ _ _ "[]"])
  next
    case False
    then have in_q: "pick q < length q" using timer_order.pick_less [OF "1.prems"(1)] by blast
    then have t: "callback ?t = cb" and popped: "\<forall>t \<in> set (pop pick q). callback t = cb"
      using "1.prems"(3) set_pop [of pick q] by auto
    show ?thesis
    proof (cases "deleted ?t")
      case True
      then show ?thesis
        using "1.IH"(1) [OF False _ refl True "1.prems"(1,2) popped "1.prems"(4)] in_q False
        by (simp add: run_loop.simps [of pick run nows q])
    next
      case live: False
      show ?thesis
      proof (cases nows)
        case Nil
        then show ?thesis using in_q False live by (simp add: run_loop.simps [of pick run "[]" q])
      next
        case (Cons now nows1)
        obtain valid u where u: "isValid now ?t = (valid, u)" by (cases "isValid now ?t") auto
        then have cu: "callback u = cb" using t by (auto simp: isValid_def setDeleted_def split: if_splits)
        show ?thesis
        proof (cases valid)
          case True
          then show ?thesis using Cons in_q False live u "1.prems" by (simp add: run_loop.simps [of pick run "now # nows1" q])
        next
          case due: False
          let ?q = "if repeating u then snd (insert_timer pick (restart now u) (pop pick q)) else pop pick q"
          have q: "\<forall>t \<in> set ?q. callback t = cb"
            using popped cu by (auto simp: insert_timer_def restart_def)
          have rec: "?Q (run_loop pick run nows1 ?q x')" if "P x'" for x'
            using "1.IH"(2) [OF False _ refl live Cons refl u [symmetric] due refl _ "1.prems"(1) that _ "1.prems"(4)]
              "1.IH"(3) [OF False _ refl live Cons refl u [symmetric] due refl _ "1.prems"(1) that _ "1.prems"(4)] in_q q
            by (cases "repeating u") simp_all
          have "run_loop pick run nows q x = obind (run cb x) (run_loop pick run nows1 ?q)"
            using Cons in_q False live u due cu
            by (cases "repeating u") (auto simp: run_loop.simps [of pick run "now # nows1" q] Let_def)
          also have "?Q \<dots>" by (rule yields_bind [OF "1.prems"(4) [OF "1.prems"(2)]]) (rule rec)
          finally show ?thesis .
        qed
      qed
    qed
  qed
qed

section \<open>The main loop\<close>

text \<open>
  \<open>checks\<close> are inputs of the checks to come: in which order each will walk the table, an \<open>unordered_map\<close>,
  and the readings of the clock it will make.
\<close>

type_synonym table_order = "(int \<rightharpoonup> connection) \<Rightarrow> int list"

definition walks_table :: "table_order \<Rightarrow> bool" where
  "walks_table order \<longleftrightarrow> (\<forall>m. set (order m) \<subseteq> dom m \<and> distinct (order m) \<and> (finite (dom m) \<longrightarrow> set (order m) = dom m))"

record 'k timed =
  proc :: "'k process"
  timers :: timer_queue
  checks :: "(table_order \<times> 64 word list) list"

text \<open>The queue of a new reactor; the lambda of \<open>CheckActiveConnection\<close> is the callback \<open>check_id\<close>.\<close>

definition TimerQueue_init :: timer_queue where
  "TimerQueue_init = \<lparr>timerNodeQueue = [], armed = None, fired = [], callingExpiredTimers = False\<rparr>"

definition check_id :: nat where "check_id = 0"

definition run_check :: "'k epoll_ctl \<Rightarrow> nat \<Rightarrow> 'k server \<times> (table_order \<times> 64 word list) list
    \<Rightarrow> ('k server \<times> (table_order \<times> 64 word list) list) outcome" where
  "run_check ctl cb = (\<lambda>(s, ins).
     if cb = check_id then
       (case ins of
          [] \<Rightarrow> None
        | (order, nows) # ins \<Rightarrow>
            obind (CheckActiveConnection ctl (order (connections s)) nows s) (\<lambda>s. ret (s, ins)))
     else fail Bad_function)"

text \<open>The period is a \<open>size_t\<close> that \<open>runEvery\<close> takes as an \<open>int\<close>.\<close>

definition start_check :: "queue_top \<Rightarrow> 64 word \<Rightarrow> timeval \<Rightarrow> timeval \<Rightarrow> 'k timed \<Rightarrow> 'k timed" where
  "start_check pick t now1 now2 T =
     T\<lparr>timers := runEvery pick check_id (sint (ucast t :: 32 word)) now1 now2 (timers T)\<rparr>"

text \<open>\<open>Poll\<close> on the main reactor stores the events of a channel, the acceptor's or the timer queue's.\<close>

definition main_ready :: "int \<Rightarrow> 32 word \<Rightarrow> 'k timed \<Rightarrow> 'k timed outcome" where
  "main_ready fd ev T =
     (let p = proc T; a = acceptor p in
      if fd = ch_fd (acc_channel a) then
        ret (T\<lparr>proc := p\<lparr>acceptor := a\<lparr>acc_channel := SetReadyEvents ev (acc_channel a)\<rparr>\<rparr>\<rparr>)
      else
        (case main_timer p of
           None \<Rightarrow> fail Bad_pointer
         | Some ch \<Rightarrow>
             if fd = ch_fd ch then ret (T\<lparr>proc := p\<lparr>main_timer := Some (SetReadyEvents ev ch)\<rparr>\<rparr>)
             else fail Bad_pointer))"

fun main_poll :: "(int \<times> 32 word) list \<Rightarrow> 'k timed \<Rightarrow> 'k timed outcome" where
  "main_poll [] T = ret T"
| "main_poll ((fd, ev) # evs) T = obind (main_ready fd ev T) (main_poll evs)"

text \<open>The timer queue's channel has a read callback only.\<close>

definition timer_event ::
  "'k epoll_ctl \<Rightarrow> queue_top \<Rightarrow> timeval list \<Rightarrow> channel \<Rightarrow> 'k timed \<Rightarrow> 'k timed outcome" where
  "timer_event ctl pick nows ch T =
     obind (HandleEvent (\<lambda>_. ready_events ch) (Some (handleRead_run pick (run_check ctl) nows)) None None
              (timers T, the_server (proc T), checks T))
       (\<lambda>(tq, s, ins). ret (T\<lparr>timers := tq, proc := (proc T)\<lparr>the_server := s\<rparr>, checks := ins\<rparr>))"

definition main_handle ::
  "'k epoll_ctl \<Rightarrow> queue_top \<Rightarrow> ('k conn \<Rightarrow> 'k conn outcome) option \<Rightarrow> int \<Rightarrow> timeval list \<Rightarrow> int \<Rightarrow> 'k timed \<Rightarrow> 'k timed outcome" where
  "main_handle ctl pick new_connect spare nows fd T =
     (let p = proc T; a = acceptor p in
      if fd = ch_fd (acc_channel a) then
        obind (acceptor_event ctl new_connect spare (ready_events (acc_channel a)) (a, the_server p))
          (\<lambda>(a, s). ret (T\<lparr>proc := p\<lparr>acceptor := a, the_server := s\<rparr>\<rparr>))
      else
        (case main_timer p of
           None \<Rightarrow> fail Bad_pointer
         | Some ch \<Rightarrow> if fd = ch_fd ch then timer_event ctl pick nows ch T else fail Bad_pointer))"

fun main_handle_all ::
  "'k epoll_ctl \<Rightarrow> queue_top \<Rightarrow> ('k conn \<Rightarrow> 'k conn outcome) option \<Rightarrow> int \<Rightarrow> timeval list \<Rightarrow> int list \<Rightarrow> 'k timed \<Rightarrow> 'k timed outcome" where
  "main_handle_all ctl pick new_connect spare nows [] T = ret T"
| "main_handle_all ctl pick new_connect spare nows (fd # fds) T =
     obind (main_handle ctl pick new_connect spare nows fd T) (main_handle_all ctl pick new_connect spare nows fds)"

definition main_round ::
  "'k epoll_ctl \<Rightarrow> queue_top \<Rightarrow> ('k conn \<Rightarrow> 'k conn outcome) option \<Rightarrow> int \<Rightarrow> timeval list
    \<Rightarrow> (int \<times> 32 word) list option \<Rightarrow> 'k timed \<Rightarrow> 'k timed outcome" where
  "main_round ctl pick new_connect spare nows nfds T =
     (case nfds of
        None \<Rightarrow> fail (Exit ''epoll wait error'')
      | Some evs \<Rightarrow> obind (main_poll evs T) (main_handle_all ctl pick new_connect spare nows (map fst evs)))"

section \<open>Steps\<close>

text \<open>
  What the kernel may do: report the descriptors the main reactor watches, each once, with events they
  were registered for, and hand out a socket whose descriptor is not in use.
\<close>

definition kernel_main :: "('k \<Rightarrow> int \<rightharpoonup> 32 word) \<Rightarrow> 'k timed \<Rightarrow> (int \<times> 32 word) list \<Rightarrow> bool" where
  "kernel_main interest T evs \<longleftrightarrow> distinct (map fst evs)
     \<and> (\<forall>(fd, ev) \<in> set evs. interest (main_reactor (proc T)) fd \<noteq> None \<and> ev AND EPOLLOUT = 0)"

definition fresh_socket :: "('k \<Rightarrow> int \<rightharpoonup> 32 word) \<Rightarrow> 'k process \<Rightarrow> bool" where
  "fresh_socket interest p \<longleftrightarrow> kernel_accepts interest p
     \<and> (\<forall>so addr rs. lsn_queue (acc_sock (acceptor p)) = Accepted so addr # rs \<longrightarrow>
          sock_fd so \<notin> dom (connections (the_server p)))"

text \<open>The outcomes of a round of the main reactor and of a round of a sub reactor.\<close>

inductive timed_work ::
  "'k epoll_ctl \<Rightarrow> ('k \<Rightarrow> int \<rightharpoonup> 32 word) \<Rightarrow> queue_top \<Rightarrow> ('k conn \<Rightarrow> 'k conn outcome)
    \<Rightarrow> ('k conn \<Rightarrow> 'k conn outcome) option \<Rightarrow> 'k timed \<Rightarrow> 'k timed outcome \<Rightarrow> bool"
  for ctl interest pick on_message new_connect T where
  Main: "kernel_main interest T evs \<Longrightarrow> fresh_socket interest (proc T) \<Longrightarrow> \<forall>(order, _) \<in> set ins. walks_table order \<Longrightarrow>
    timed_work ctl interest pick on_message new_connect T
      (main_round ctl pick new_connect spare nows (Some evs) (T\<lparr>checks := ins\<rparr>))"
| Sub: "kernel_reports interest (proc T) r evs \<Longrightarrow>
    timed_work ctl interest pick on_message new_connect T
      (obind (loop_round ctl on_message (Some evs) (the_server (proc T)))
         (\<lambda>s. ret (T\<lparr>proc := (proc T)\<lparr>the_server := s\<rparr>\<rparr>)))"

inductive timed_reach ::
  "'k epoll_ctl \<Rightarrow> ('k \<Rightarrow> int \<rightharpoonup> 32 word) \<Rightarrow> queue_top \<Rightarrow> ('k conn \<Rightarrow> 'k conn outcome)
    \<Rightarrow> ('k conn \<Rightarrow> 'k conn outcome) option \<Rightarrow> 'k timed \<Rightarrow> 'k timed \<Rightarrow> bool"
  for ctl interest pick on_message new_connect T0 where
  start: "timed_reach ctl interest pick on_message new_connect T0 T0"
| step: "timed_reach ctl interest pick on_message new_connect T0 T \<Longrightarrow>
    timed_work ctl interest pick on_message new_connect T (ret T') \<Longrightarrow>
    timed_reach ctl interest pick on_message new_connect T0 T'"

text \<open>The main reactor watches its acceptor and its timer; the queue holds checks only.\<close>

definition timed_ok :: "('k \<Rightarrow> int \<rightharpoonup> 32 word) \<Rightarrow> 'k timed \<Rightarrow> bool" where
  "timed_ok interest T \<longleftrightarrow> process_ok interest (proc T)
     \<and> (\<forall>fd. interest (main_reactor (proc T)) fd \<noteq> None \<longrightarrow>
          fd = ch_fd (acc_channel (acceptor (proc T))) \<or> (\<exists>ch. main_timer (proc T) = Some ch \<and> ch_fd ch = fd))
     \<and> (\<forall>ch. main_timer (proc T) = Some ch \<longrightarrow> ready_events ch AND EPOLLOUT = 0)
     \<and> (\<forall>t \<in> set (timerNodeQueue (timers T)). callback t = check_id)
     \<and> (\<forall>(order, _) \<in> set (checks T). walks_table order)"

section \<open>Every step keeps the invariant\<close>

text \<open>A timer event runs checks, and a check only closes and deregisters.\<close>

lemma run_check_yields:
  assumes "epoll_instance ctl interest" and "server_ok interest s" and "same_rest interest s0 s"
    and "\<forall>(order, _) \<in> set ins. walks_table order"
  shows "yields {} (\<lambda>(s', ins'). server_ok interest s' \<and> same_rest interest s0 s' \<and> (\<forall>(order, _) \<in> set ins'. walks_table order))
    (run_check ctl check_id (s, ins))"
proof (cases ins)
  case (Cons i ins')
  obtain order nows where i: "i = (order, nows)" by (cases i)
  then have "set (order (connections s)) \<subseteq> dom (connections s)"
    using assms(4) Cons by (simp add: walks_table_def)
  from check_safe [OF assms(1,2) this, of nows]
  have "yields {} (\<lambda>(s', ins'). server_ok interest s' \<and> same_rest interest s0 s' \<and> (\<forall>(order, _) \<in> set ins'. walks_table order))
      (obind (CheckActiveConnection ctl (order (connections s)) nows s) (\<lambda>s. ret (s, ins')))"
    using same_rest_trans [OF assms(3)] assms(4) Cons by (auto elim!: yields_bind)
  then show ?thesis using Cons i by (simp add: run_check_def)
qed (simp add: run_check_def)

lemma handleRead_run_yields:
  assumes "timer_order pick" and "P x" and "\<forall>t \<in> set (timerNodeQueue tq). callback t = cb"
    and "\<And>x. P x \<Longrightarrow> yields E P (run cb x)"
  shows "yields E (\<lambda>(tq', x'). P x' \<and> (\<forall>t \<in> set (timerNodeQueue tq'). callback t = cb)) (handleRead_run pick run nows (tq, x))"
proof -
  have "yields E (\<lambda>(q', x', nows'). P x' \<and> (\<forall>t \<in> set q'. callback t = cb)) (run_loop pick run nows (timerNodeQueue tq) x)"
    by (rule run_loop_yields [of pick P x "timerNodeQueue tq" cb E run nows, OF assms])
  then show ?thesis
    by (auto simp: handleRead_run_def Let_def resetTimerfd_def elim!: yields_bind split: list.splits)
qed

lemma timer_event_yields:
  assumes "epoll_instance ctl interest" and "timer_order pick" and "timed_ok interest T"
    and "main_timer (proc T) = Some ch"
  shows "yields {} (\<lambda>T'. timed_ok interest T' \<and> (\<exists>s. proc T' = (proc T)\<lparr>the_server := s\<rparr> \<and> same_rest interest (the_server (proc T)) s))
    (timer_event ctl pick nows ch T)"
proof -
  let ?s0 = "the_server (proc T)"
  let ?P = "\<lambda>(s, ins :: (table_order \<times> 64 word list) list). server_ok interest s \<and> same_rest interest ?s0 s
    \<and> (\<forall>(order, _) \<in> set ins. walks_table order)"
  let ?Q = "\<lambda>(tq' :: timer_queue, x'). ?P x' \<and> (\<forall>t \<in> set (timerNodeQueue tq'). callback t = check_id)"
  have ok: "process_ok interest (proc T)" "?P (?s0, checks T)" "\<forall>t \<in> set (timerNodeQueue (timers T)). callback t = check_id"
    and quiet: "ready_events ch AND EPOLLOUT = 0"
    using assms(3,4) by (auto simp: timed_ok_def process_ok_def)
  have run: "yields {} ?P (run_check ctl check_id x)" if "?P x" for x
    using run_check_yields [OF assms(1)] that by (cases x) auto
  have read: "yields {} ?Q (handleRead_run pick (run_check ctl) nows (timers T, ?s0, checks T))"
    using handleRead_run_yields [of pick ?P "(?s0, checks T)" "timers T" check_id "{}" "run_check ctl", OF assms(2) ok(2,3) run] .
  have "yields {} ?Q (HandleEvent (\<lambda>_. ready_events ch) (Some (handleRead_run pick (run_check ctl) nows)) None None
      (timers T, ?s0, checks T))"
    using read ok quiet by (simp add: HandleEvent_def call_def) (auto simp: case_prod_unfold intro!: yields_bind [of _ ?Q])
  then show ?thesis
    unfolding timer_event_def
  proof (rule yields_bind)
    fix y assume y: "?Q y"
    then obtain tq s ins where y': "y = (tq, s, ins)" "server_ok interest s" "same_rest interest ?s0 s"
      "\<forall>(order, _) \<in> set ins. walks_table order" "\<forall>t \<in> set (timerNodeQueue tq). callback t = check_id"
      by (cases y) auto
    have "process_ok interest ((proc T)\<lparr>the_server := s\<rparr>)" by (rule process_ok_rest [OF ok(1) y'(2,3)])
    then show "yields {} (\<lambda>T'. timed_ok interest T' \<and> (\<exists>s. proc T' = (proc T)\<lparr>the_server := s\<rparr> \<and> same_rest interest ?s0 s))
      (case y of (tq, s, ins) \<Rightarrow> ret (T\<lparr>timers := tq, proc := (proc T)\<lparr>the_server := s\<rparr>, checks := ins\<rparr>))"
      using y' assms(3) by (auto simp: timed_ok_def)
  qed
qed

text \<open>Storing the events of a watched channel.\<close>

lemma registered_parts [simp]:
  "registered interest (p\<lparr>acceptor := a\<rparr>) = registered interest p"
  "registered interest (p\<lparr>main_timer := t\<rparr>) = registered interest p"
  by (simp_all add: registered_def owned_def is_timer_def)

lemma acceptor_ok_ready:
  "acceptor_ok interest a k \<Longrightarrow> ev AND EPOLLOUT = 0 \<Longrightarrow>
    acceptor_ok interest (a\<lparr>acc_channel := SetReadyEvents ev (acc_channel a)\<rparr>) k"
  by (simp add: acceptor_ok_def SetReadyEvents_def never_writes_def isWriting_def)

lemma main_ready_ok:
  assumes "timed_ok interest T" and "interest (main_reactor (proc T)) fd \<noteq> None" and "ev AND EPOLLOUT = 0"
  shows "\<exists>T'. main_ready fd ev T = ret T' \<and> timed_ok interest T' \<and> the_server (proc T') = the_server (proc T)
    \<and> main_reactor (proc T') = main_reactor (proc T) \<and> acc_sock (acceptor (proc T')) = acc_sock (acceptor (proc T))"
proof (cases "fd = ch_fd (acc_channel (acceptor (proc T)))")
  case True
  let ?a = "acceptor (proc T)"
  let ?p = "(proc T)\<lparr>acceptor := ?a\<lparr>acc_channel := SetReadyEvents ev (acc_channel ?a)\<rparr>\<rparr>"
  have "process_ok interest ?p"
    using assms(1,3) acceptor_ok_ready [of interest ?a "main_reactor (proc T)" ev] by (simp add: timed_ok_def process_ok_def)
  moreover have "ch_fd (acc_channel (acceptor ?p)) = ch_fd (acc_channel ?a)" by (simp add: SetReadyEvents_def)
  ultimately have "timed_ok interest (T\<lparr>proc := ?p\<rparr>)"
    using assms(1) unfolding timed_ok_def by simp
  then show ?thesis using True by (simp add: main_ready_def Let_def)
next
  case False
  then obtain ch where ch: "main_timer (proc T) = Some ch" "ch_fd ch = fd"
    using assms(1,2) by (auto simp: timed_ok_def)
  let ?p = "(proc T)\<lparr>main_timer := Some (SetReadyEvents ev ch)\<rparr>"
  have "process_ok interest ?p" using assms(1) by (simp add: timed_ok_def process_ok_def)
  then have "timed_ok interest (T\<lparr>proc := ?p\<rparr>)"
    using assms(1,3) ch unfolding timed_ok_def by (simp add: SetReadyEvents_def)
  then show ?thesis using False ch by (simp add: main_ready_def Let_def)
qed

lemma main_poll_ok:
  assumes "timed_ok interest T" and "\<forall>(fd, ev) \<in> set evs. interest (main_reactor (proc T)) fd \<noteq> None \<and> ev AND EPOLLOUT = 0"
  shows "\<exists>T'. main_poll evs T = ret T' \<and> timed_ok interest T' \<and> the_server (proc T') = the_server (proc T)
    \<and> main_reactor (proc T') = main_reactor (proc T) \<and> acc_sock (acceptor (proc T')) = acc_sock (acceptor (proc T))"
  using assms
proof (induction evs arbitrary: T)
  case (Cons e evs)
  obtain fd ev where e: "e = (fd, ev)" by (cases e)
  then obtain T1 where T1: "main_ready fd ev T = ret T1" "timed_ok interest T1" "the_server (proc T1) = the_server (proc T)"
    "main_reactor (proc T1) = main_reactor (proc T)" "acc_sock (acceptor (proc T1)) = acc_sock (acceptor (proc T))"
    using main_ready_ok [OF Cons.prems(1), of fd ev] Cons.prems(2) by auto
  then obtain T' where "main_poll evs T1 = ret T'" "timed_ok interest T'" "the_server (proc T') = the_server (proc T1)"
    "main_reactor (proc T') = main_reactor (proc T1)" "acc_sock (acceptor (proc T')) = acc_sock (acceptor (proc T1))"
    using Cons.IH [of T1] Cons.prems(2) by auto
  then show ?case using e T1 by simp
qed simp

lemma same_rest_free:
  assumes "same_rest interest s s'" and "fd \<notin> dom (connections s)" and "\<forall>k \<in> set (sub_reactors s). interest k fd = None"
  shows "\<forall>k \<in> set (sub_reactors s'). interest k fd = None"
proof
  fix k assume "k \<in> set (sub_reactors s')"
  then obtain r where r: "r < length (sub_reactors s)" "k = sub_reactors s' ! r"
    using assms(1) by (auto simp: in_set_conv_nth same_rest_def)
  then have "interest k fd = interest (sub_reactors s ! r) fd" using assms(1,2) by (simp add: same_rest_def)
  then show "interest k fd = None" using assms(3) r(1) by simp
qed

text \<open>A server program whose timers are kept in a priority queue.\<close>

locale timed_program =
  server_program ctl interest E on_message new_connect + timer_order pick
  for ctl :: "'k epoll_ctl" and interest :: "'k \<Rightarrow> int \<rightharpoonup> 32 word" and E :: "fault set"
    and on_message :: "'k conn \<Rightarrow> 'k conn outcome" and new_connect :: "('k conn \<Rightarrow> 'k conn outcome) option"
    and pick :: queue_top
begin

abbreviation accept_faults :: "fault set" where
  "accept_faults \<equiv> {Exit ''socket accept error'', Exit ''socket create error''}"

text \<open>
  Handling the acceptor or the timer. After a timer event the next socket is still fresh: the check
  leaves the descriptors of the table alone and touches no other entry of a reactor.
\<close>

definition keeps :: "'k timed \<Rightarrow> 'k timed \<Rightarrow> bool" where
  "keeps T T' \<longleftrightarrow> timed_ok interest T' \<and> main_reactor (proc T') = main_reactor (proc T)
     \<and> dom (connections (the_server (proc T))) \<subseteq> dom (connections (the_server (proc T')))
     \<and> ch_fd (acc_channel (acceptor (proc T'))) = ch_fd (acc_channel (acceptor (proc T)))"

lemma acceptor_fd: "timed_ok interest T \<Longrightarrow> ch_fd (acc_channel (acceptor (proc T))) = lsn_fd (acc_sock (acceptor (proc T)))"
  by (simp add: timed_ok_def process_ok_def acceptor_ok_def)

lemma handle_acceptor:
  assumes "timed_ok interest T" and "fd = ch_fd (acc_channel (acceptor (proc T)))" and "fresh_socket interest (proc T)"
  shows "yields accept_faults (keeps T) (main_handle ctl pick new_connect spare nows fd T)"
proof -
  let ?a = "acceptor (proc T)" and ?p = "proc T"
  have ok: "process_ok interest ?p" "ready_events (acc_channel ?a) AND EPOLLOUT = 0" "kernel_accepts interest ?p"
    using assms by (simp_all add: timed_ok_def process_ok_def acceptor_ok_def fresh_socket_def)
  have "main_handle ctl pick new_connect spare nows fd T
      = obind (acceptor_event ctl new_connect spare (ready_events (acc_channel ?a)) (?a, the_server ?p))
          (\<lambda>(a, s). ret (T\<lparr>proc := ?p\<lparr>acceptor := a, the_server := s\<rparr>\<rparr>))"
    using assms(2) by (simp add: main_handle_def Let_def)
  also have "yields accept_faults (keeps T) \<dots>"
  proof (rule yields_bind [OF accept_work [OF ok(1,3,2)]])
    fix x
    assume x: "case x of (a, s) \<Rightarrow> process_ok interest (?p\<lparr>acceptor := a, the_server := s\<rparr>)
        \<and> dom (connections (the_server ?p)) \<subseteq> dom (connections s)"
      and run: "acceptor_event ctl new_connect spare (ready_events (acc_channel ?a)) (?a, the_server ?p) = ret x"
    obtain a s where as: "x = (a, s)" by (cases x)
    have "acc_channel a = acc_channel ?a"
      using run as
      by (auto simp: acceptor_event_def HandleEvent_def call_def AcceptConnection_def SetReadyEvents_def Let_def
          elim!: obind_eq_retE split: if_splits)
    then show "yields accept_faults (keeps T) (case x of (a, s) \<Rightarrow> ret (T\<lparr>proc := ?p\<lparr>acceptor := a, the_server := s\<rparr>\<rparr>))"
      using x as assms(1) by (simp add: keeps_def timed_ok_def)
  qed
  finally show ?thesis .
qed

lemma handle_timer:
  assumes "timed_ok interest T" and "interest (main_reactor (proc T)) fd \<noteq> None"
    and "fd \<noteq> ch_fd (acc_channel (acceptor (proc T)))"
  shows "yields {} (\<lambda>T'. keeps T T' \<and> (fresh_socket interest (proc T) \<longrightarrow> fresh_socket interest (proc T')))
    (main_handle ctl pick new_connect spare nows fd T)"
proof -
  obtain ch where ch: "main_timer (proc T) = Some ch" "ch_fd ch = fd"
    using assms by (auto simp: timed_ok_def)
  then have "main_handle ctl pick new_connect spare nows fd T = timer_event ctl pick nows ch T"
    using assms(3) by (simp add: main_handle_def Let_def)
  also have "yields {} (\<lambda>T'. keeps T T' \<and> (fresh_socket interest (proc T) \<longrightarrow> fresh_socket interest (proc T'))) \<dots>"
  proof (rule yields_mono [OF timer_event_yields [OF epoll_instance_axioms timer_order_axioms assms(1) ch(1)]])
    fix T' assume T': "timed_ok interest T' \<and> (\<exists>s. proc T' = (proc T)\<lparr>the_server := s\<rparr> \<and> same_rest interest (the_server (proc T)) s)"
    then obtain s where s: "proc T' = (proc T)\<lparr>the_server := s\<rparr>" "same_rest interest (the_server (proc T)) s" by blast
    have "fresh_socket interest (proc T')" if "fresh_socket interest (proc T)"
      using that same_rest_free [OF s(2)] s(2) unfolding s(1) fresh_socket_def kernel_accepts_def
      by (simp add: same_rest_def)
    then show "keeps T T' \<and> (fresh_socket interest (proc T) \<longrightarrow> fresh_socket interest (proc T'))"
      using T' s by (simp add: keeps_def same_rest_def)
  qed simp
  finally show ?thesis .
qed

lemma keeps_trans: "keeps T1 T2 \<Longrightarrow> keeps T2 T3 \<Longrightarrow> keeps T1 T3"
  unfolding keeps_def by auto

lemma handle_all_yields:
  assumes "timed_ok interest T" and "\<forall>fd \<in> set fds. interest (main_reactor (proc T)) fd \<noteq> None" and "distinct fds"
    and "ch_fd (acc_channel (acceptor (proc T))) \<in> set fds \<longrightarrow> fresh_socket interest (proc T)"
  shows "yields accept_faults (keeps T) (main_handle_all ctl pick new_connect spare nows fds T)"
  using assms
proof (induction fds arbitrary: T)
  case Nil
  then show ?case by (simp add: keeps_def)
next
  case (Cons fd fds)
  let ?acc = "\<lambda>T. ch_fd (acc_channel (acceptor (proc T)))"
  have rest: "yields accept_faults (keeps T) (main_handle_all ctl pick new_connect spare nows fds T1)"
    if "keeps T T1" "?acc T \<in> set fds \<longrightarrow> fresh_socket interest (proc T1)" for T1
  proof (rule yields_mono [OF Cons.IH])
    show "keeps T T2" if "keeps T1 T2" for T2 using \<open>keeps T T1\<close> that by (rule keeps_trans)
  qed (use that Cons.prems in \<open>auto simp: keeps_def\<close>)
  have "yields accept_faults (\<lambda>T1. keeps T T1 \<and> (?acc T \<in> set fds \<longrightarrow> fresh_socket interest (proc T1)))
      (main_handle ctl pick new_connect spare nows fd T)"
  proof (cases "fd = ?acc T")
    case True
    then show ?thesis
      using Cons.prems by (intro yields_mono [OF handle_acceptor [OF Cons.prems(1) True]]) auto
  next
    case False
    then show ?thesis
      using Cons.prems by (intro yields_mono [OF handle_timer [OF Cons.prems(1) _ False]]) auto
  qed
  then show ?case by (auto intro: yields_bind rest)
qed

lemma main_round_yields:
  assumes "timed_ok interest T" and "kernel_main interest T evs" and "fresh_socket interest (proc T)"
    and "\<forall>(order, _) \<in> set ins. walks_table order"
  shows "yields accept_faults (keeps T) (main_round ctl pick new_connect spare nows (Some evs) (T\<lparr>checks := ins\<rparr>))"
proof -
  let ?T = "T\<lparr>checks := ins\<rparr>"
  have "timed_ok interest ?T" using assms(1,4) by (simp add: timed_ok_def)
  moreover have "\<forall>(fd, ev) \<in> set evs. interest (main_reactor (proc ?T)) fd \<noteq> None \<and> ev AND EPOLLOUT = 0"
    using assms(2) by (simp add: kernel_main_def)
  ultimately obtain T' where T': "main_poll evs ?T = ret T'" "timed_ok interest T'" "the_server (proc T') = the_server (proc T)"
    "main_reactor (proc T') = main_reactor (proc T)" "acc_sock (acceptor (proc T')) = acc_sock (acceptor (proc T))"
    using main_poll_ok [of interest ?T evs] by auto
  have "fresh_socket interest (proc T')"
    using assms(3) T'(3,5) by (simp add: fresh_socket_def kernel_accepts_def)
  moreover have "\<forall>fd \<in> set (map fst evs). interest (main_reactor (proc T')) fd \<noteq> None"
    using assms(2) T'(4) by (auto simp: kernel_main_def)
  moreover have "distinct (map fst evs)" using assms(2) by (simp add: kernel_main_def)
  ultimately have "yields accept_faults (keeps T') (main_handle_all ctl pick new_connect spare nows (map fst evs) T')"
    using T'(2) by (intro handle_all_yields) auto
  moreover have "keeps T' T2 \<Longrightarrow> keeps T T2" for T2
    using T'(3-5) acceptor_fd [OF T'(2)] acceptor_fd [OF assms(1)] by (simp add: keeps_def)
  ultimately show ?thesis
    using T'(1) by (auto simp: main_round_def elim!: yields_mono)
qed

text \<open>Every step of the server keeps the invariant and ends the process in the listed ways only.\<close>

lemma timed_work_safe:
  assumes "timed_ok interest T" and "timed_work ctl interest pick on_message new_connect T m"
  shows "yields (E \<union> accept_faults)
    (\<lambda>T'. timed_ok interest T' \<and> dom (connections (the_server (proc T))) \<subseteq> dom (connections (the_server (proc T')))) m"
  using assms(2)
proof cases
  case (Main evs ins spare nows)
  show ?thesis
    unfolding Main(1) by (rule yields_mono [OF main_round_yields [OF assms(1) Main(2-4)]]) (auto simp: keeps_def)
next
  case (Sub r evs)
  let ?m = "obind (loop_round ctl on_message (Some evs) (the_server (proc T))) (\<lambda>s. ret ((proc T)\<lparr>the_server := s\<rparr>))"
  have "process_work ctl interest on_message new_connect (proc T) ?m" by (rule process_work.Round [OF Sub(2)])
  moreover have "process_ok interest (proc T)" using assms(1) by (simp add: timed_ok_def)
  ultimately have "yields (E \<union> accept_faults) (\<lambda>p'. process_ok interest p'
      \<and> dom (connections (the_server (proc T))) \<subseteq> dom (connections (the_server p'))) ?m"
    by (rule work_safe [rotated])
  then show ?thesis
    unfolding Sub(1) using assms(1)
    by (cases "loop_round ctl on_message (Some evs) (the_server (proc T))")
      (auto simp: obind_def ret_def yields_def fail_def timed_ok_def split: sum.splits)
qed

lemma timed_reach_ok:
  assumes "timed_reach ctl interest pick on_message new_connect T0 T" and "timed_ok interest T0"
  shows "timed_ok interest T"
  using assms
proof induction
  case (step T T')
  then show ?case using timed_work_safe [of T "ret T'"] by auto
qed

end

section \<open>A due check drops the idle connections\<close>

lemma due_check_run_loop:
  assumes "timer_order pick" and "repeating t" and "\<not> deleted t"
    and "expiration t \<le> ms_of now1" and "ms_of now2 < expiration (restart now1 t)"
  shows "run_loop pick run (now1 # now2 # nows) [t] x = obind (run (callback t) x) (\<lambda>x. ret ([restart now1 t], x, nows))"
proof -
  have pick: "pick [u] = 0" for u using timer_order.top_law [OF assms(1), of "[u]"] by simp
  let ?u = "restart now1 t"
  have u: "restart now1 (setDeleted t) = ?u" "\<not> deleted ?u" "callback (setDeleted t) = callback t" "repeating (setDeleted t)"
    using assms(2) by (simp_all add: restart_def setDeleted_def)
  have "run_loop pick run (now2 # nows) [?u] = (\<lambda>x. ret ([?u], x, nows))"
    using assms(5) u(2) by (simp add: fun_eq_iff run_loop.simps [of pick run "now2 # nows"] pick isValid_def)
  moreover have "isValid now1 t = (False, setDeleted t)" using assms(4) by (simp add: isValid_def not_less)
  ultimately show ?thesis
    using assms(3) u by (simp add: run_loop.simps [of pick run "now1 # now2 # nows"] pick pop_def insert_timer_def)
qed

lemma due_check_event:
  assumes "timer_order pick" and "timerNodeQueue (timers T) = [t]" and "repeating t" and "\<not> deleted t" and "callback t = check_id"
    and "expiration t \<le> ms_of now1" and "ms_of now2 < expiration (restart now1 t)"
    and "checks T = (order, nows) # ins" and "ready_events ch = EPOLLIN"
    and "CheckActiveConnection ctl (order (connections (the_server (proc T)))) nows (the_server (proc T)) = ret s'"
  shows "timer_event ctl pick (now1 # now2 # now3 # rest) ch T =
    ret (T\<lparr>timers := (timers T)\<lparr>timerNodeQueue := [restart now1 t], callingExpiredTimers := False,
             armed := Some (delay (expiration (restart now1 t)) now3)\<rparr>,
           proc := (proc T)\<lparr>the_server := s'\<rparr>, checks := ins\<rparr>)"
proof -
  have pick: "pick [u] = 0" for u using timer_order.top_law [OF assms(1), of "[u]"] by simp
  have run: "run_check ctl check_id (the_server (proc T), checks T) = ret (s', ins)"
    using assms(8,10) by (simp add: run_check_def)
  show ?thesis
    using assms(2,5,9) run due_check_run_loop [OF assms(1,3,4,6,7), of "run_check ctl" "now3 # rest"]
    by (simp add: timer_event_def HandleEvent_def call_def handleRead_run_def pick resetTimerfd_def Let_def epoll_masks)
qed

text \<open>
  The timer descriptor is ready and the check is due once: the round of the main loop closes and
  deregisters exactly the idle connections, keeps the check in the queue for the next time and arms the
  descriptor for it.
\<close>

lemma due_check_round:
  assumes "timer_order pick" and "epoll_instance ctl interest" and "timed_ok interest T"
    and "main_timer (proc T) = Some ch" and "ch_fd ch \<noteq> ch_fd (acc_channel (acceptor (proc T)))"
    and "timerNodeQueue (timers T) = [t]" and "repeating t" and "\<not> deleted t"
    and "expiration t \<le> ms_of now1" and "ms_of now2 < expiration (restart now1 t)"
    and "checks T = (order, nows) # ins"
    and "length (order (connections (the_server (proc T)))) \<le> length nows"
    and "\<And>fd c. connections (the_server (proc T)) fd = Some c \<Longrightarrow> \<exists>c'. Send ''You are cleared!'' c = ret c'"
  defines "idle \<equiv> set (expired_fds (the_server (proc T)) (order (connections (the_server (proc T)))) nows)"
  shows "\<exists>T'. main_round ctl pick new_connect spare (now1 # now2 # now3 # rest) (Some [(ch_fd ch, EPOLLIN)]) T = ret T'
    \<and> timed_ok interest T'
    \<and> (\<forall>fd \<in> idle. dropped fd (the_server (proc T')))
    \<and> (\<forall>fd. fd \<notin> idle \<longrightarrow> connections (the_server (proc T')) fd = connections (the_server (proc T)) fd)
    \<and> timerNodeQueue (timers T') = [restart now1 t]
    \<and> armed (timers T') = Some (delay (expiration (restart now1 t)) now3)"
proof -
  let ?ch = "SetReadyEvents EPOLLIN ch" and ?s = "the_server (proc T)"
  let ?T = "T\<lparr>proc := (proc T)\<lparr>main_timer := Some ?ch\<rparr>\<rparr>"
  have ok: "server_ok interest ?s" "callback t = check_id" "walks_table order"
    using assms(3,6,11) by (auto simp: timed_ok_def process_ok_def)
  then have order: "distinct (order (connections ?s))" "set (order (connections ?s)) \<subseteq> dom (connections ?s)"
    by (simp_all add: walks_table_def)
  have sends: "\<exists>c c'. connections ?s fd = Some c \<and> Send ''You are cleared!'' c = ret c'"
    if "fd \<in> set (order (connections ?s))" for fd
    using that order(2) assms(13) by blast
  obtain s' where s': "CheckActiveConnection ctl (order (connections ?s)) nows ?s = ret s'"
    "\<forall>fd \<in> idle. dropped fd s'" "\<forall>fd. fd \<notin> idle \<longrightarrow> connections s' fd = connections ?s fd"
    using check_ok [OF assms(2) ok(1) order(1) assms(12) sends] unfolding idle_def by blast
  have "EPOLLIN AND EPOLLOUT = 0" by (simp add: epoll_masks)
  with assms(3,4) have "timed_ok interest ?T"
    by (simp add: timed_ok_def process_ok_def SetReadyEvents_def)
  then have T': "\<And>T'. timer_event ctl pick (now1 # now2 # now3 # rest) ?ch ?T = ret T' \<Longrightarrow> timed_ok interest T'"
    using timer_event_yields [OF assms(2,1), of ?T ?ch "now1 # now2 # now3 # rest"] by fastforce
  have "timer_event ctl pick (now1 # now2 # now3 # rest) ?ch ?T =
    ret (?T\<lparr>timers := (timers T)\<lparr>timerNodeQueue := [restart now1 t], callingExpiredTimers := False,
             armed := Some (delay (expiration (restart now1 t)) now3)\<rparr>,
           proc := (proc ?T)\<lparr>the_server := s'\<rparr>, checks := ins\<rparr>)" (is "_ = ret ?T'")
    using due_check_event [OF assms(1) _ assms(7,8) ok(2) assms(9,10), of ?T order nows ins ?ch ctl s' now3 rest]
      assms(6,11) s'(1) by (simp add: SetReadyEvents_def)
  moreover from this have "main_round ctl pick new_connect spare (now1 # now2 # now3 # rest) (Some [(ch_fd ch, EPOLLIN)]) T = ret ?T'"
    using assms(4,5) by (simp add: main_round_def main_ready_def main_handle_def Let_def SetReadyEvents_def)
  ultimately show ?thesis using T' s'(2,3) by (intro exI [of _ ?T']) simp
qed

end
