(* ===== verification/Server_Mains.thy ===== *)
theory Server_Mains
  imports Server_Programs Kv_Server Timed_Server
begin

text \<open>
  The \<open>main\<close> functions of the example servers: they build a server, install their callbacks, the timer
  server also its periodic check, and enter the loop. The states here are those in which
  \<open>main_reactor_->Loop()\<close> begins; it never returns, so nothing after it is reached.
\<close>

section \<open>The callbacks of a server\<close>

record 'k callbacks =
  on_connect_callback :: "('k conn \<Rightarrow> 'k conn outcome) option"
  on_message_callback :: "('k conn \<Rightarrow> 'k conn outcome) option"
  new_connect_callback :: "('k conn \<Rightarrow> 'k conn outcome) option"

definition no_callbacks :: "'k callbacks" where
  "no_callbacks = \<lparr>on_connect_callback = None, on_message_callback = None, new_connect_callback = None\<rparr>"

definition OnConnect :: "('k conn \<Rightarrow> 'k conn outcome) \<Rightarrow> 'k callbacks \<Rightarrow> 'k callbacks" where
  "OnConnect fn cbs = cbs\<lparr>on_connect_callback := Some fn\<rparr>"

definition OnMessage :: "('k conn \<Rightarrow> 'k conn outcome) \<Rightarrow> 'k callbacks \<Rightarrow> 'k callbacks" where
  "OnMessage fn cbs = cbs\<lparr>on_message_callback := Some fn\<rparr>"

definition NewConnect :: "('k conn \<Rightarrow> 'k conn outcome) \<Rightarrow> 'k callbacks \<Rightarrow> 'k callbacks" where
  "NewConnect fn cbs = cbs\<lparr>new_connect_callback := Some fn\<rparr>"

text \<open>\<open>Connection::Business\<close> calls the installed callback; calling an empty one throws.\<close>

definition message_callback :: "'k callbacks \<Rightarrow> 'k conn \<Rightarrow> 'k conn outcome" where
  "message_callback cbs = call (on_message_callback cbs)"

section \<open>The programs\<close>

text \<open>
  \<open>env\<close> is what the system gives the constructor: the descriptors of the main loop, the listening
  socket, whether \<open>bind\<close> and \<open>listen\<close> fail, the descriptors of the sub reactors, an empty epoll instance.
\<close>

record 'k environment =
  main_fds :: "int \<times> int"
  listen_socket :: listen_sock
  bind_fails :: bool
  listen_fails :: bool
  sub_fds :: "(int \<times> int) list"
  empty_epoll :: 'k

definition new_Server :: "'k epoll_ctl \<Rightarrow> 'k environment \<Rightarrow> 'k process outcome" where
  "new_Server ctl env =
     Server ctl (main_fds env) (listen_socket env) (bind_fails env) (listen_fails env) (sub_fds env) (empty_epoll env)"

definition idle_timers :: "'k process \<Rightarrow> 'k timed" where
  "idle_timers p = \<lparr>proc = p, timers = TimerQueue_init, checks = []\<rparr>"

definition start_timed :: "'k timed \<Rightarrow> 'k timed outcome" where
  "start_timed T = obind (Start (proc T)) (\<lambda>p. ret (T\<lparr>proc := p\<rparr>))"

definition echo_main :: "'k epoll_ctl \<Rightarrow> 'k environment \<Rightarrow> ('k callbacks \<times> 'k timed) outcome" where
  "echo_main ctl env =
     obind (new_Server ctl env) (\<lambda>p.
     let cbs = OnMessage echo_message (NewConnect print_connection no_callbacks) in
     obind (start_timed (idle_timers p)) (\<lambda>T. ret (cbs, T)))"

definition timer_main ::
  "('k \<times> timeval list) epoll_ctl \<Rightarrow> ('k \<times> timeval list) environment \<Rightarrow> queue_top \<Rightarrow> timeval \<Rightarrow> timeval
    \<Rightarrow> (('k \<times> timeval list) callbacks \<times> ('k \<times> timeval list) timed) outcome" where
  "timer_main ctl env pick now1 now2 =
     obind (new_Server ctl env) (\<lambda>p.
     let cbs = OnMessage timer_message (NewConnect timer_connect no_callbacks);
         T = start_check pick 5000 now1 now2 (idle_timers p) in
     obind (start_timed T) (\<lambda>T. ret (cbs, T)))"

definition kv_main :: "('k \<times> worker) epoll_ctl \<Rightarrow> ('k \<times> worker) environment
    \<Rightarrow> (('k \<times> worker) callbacks \<times> ('k \<times> worker) timed) outcome" where
  "kv_main ctl env =
     obind (new_Server ctl env) (\<lambda>p.
     let cbs = OnMessage kv_message (NewConnect print_connection no_callbacks) in
     obind (start_timed (idle_timers p)) (\<lambda>T. ret (cbs, T)))"

text \<open>The HTTP server: the callbacks its constructor installs, and the user's callback put into the object.\<close>

definition http_callbacks :: "header_order \<Rightarrow> http_server \<Rightarrow> 'k callbacks" where
  "http_callbacks iter h =
     OnMessage (http_on_message iter (httpCallback h) (http_worker h)) (NewConnect onConnection no_callbacks)"

definition http_main :: "'k epoll_ctl \<Rightarrow> 'k environment \<Rightarrow> header_order \<Rightarrow> ('k callbacks \<times> 'k timed) outcome" where
  "http_main ctl env iter =
     obind (new_Server ctl env) (\<lambda>p.
     let h = setHttpCallback example_onRequest HttpServer in
     obind (start_timed (idle_timers p)) (\<lambda>T. ret (http_callbacks iter h, T)))"

section \<open>The programs are timed programs\<close>

text \<open>Whatever the epoll instance and the order in which equal timers come.\<close>

lemma echo_program:
  assumes "epoll_instance ctl interest" and "timer_order pick"
  shows "timed_program ctl interest {} echo_message (Some print_connection) pick"
  by (intro timed_program.intro server_program.intro message_handler.intro message_handler_axioms.intro
      server_program_axioms.intro assms)
    (auto simp: echo_law benign_connect_def print_connection_def same_wiring_def)

lemma timer_program:
  assumes "epoll_instance ctl interest" and "timer_order pick"
  shows "timed_program (lift_ctl ctl) (\<lambda>(k, nows :: timeval list). interest k) {} timer_message (Some timer_connect) pick"
  by (intro timed_program.intro server_program.intro message_handler.intro message_handler_axioms.intro
      server_program_axioms.intro lift_epoll assms timer_law)
    (auto simp: benign_connect_def timer_connect_def same_wiring_def next_reading_def setContext_def split: list.splits)

lemma http_program:
  assumes "epoll_instance ctl interest" and "timer_order pick" and "bounded_reply cb"
  shows "timed_program ctl interest shutdown_failed (http_on_message iter cb w) (Some onConnection) pick"
  by (intro timed_program.intro server_program.intro message_handler.intro message_handler_axioms.intro
      server_program_axioms.intro assms http_law)
    (auto simp: benign_connect_def onConnection_def same_wiring_def)

interpretation timed_echo: timed_program map_ctl "\<lambda>k. k" "{}" echo_message "Some print_connection" first_min
  by (rule echo_program) unfold_locales

interpretation timed_timer: timed_program "lift_ctl map_ctl" "\<lambda>(k, nows :: timeval list). k" "{}"
  timer_message "Some timer_connect" first_min
  by (rule timer_program) unfold_locales

interpretation timed_http: timed_program map_ctl "\<lambda>k. k" shutdown_failed
  "http_on_message iter example_onRequest w" "Some onConnection" first_min
  by (rule http_program [OF _ _ example_bounded]) unfold_locales

section \<open>The state in which the loop begins\<close>

text \<open>\<open>Start\<close> only gives the reactors their threads.\<close>

lemma process_ok_pool [simp]: "process_ok interest (p\<lparr>pool := q\<rparr>) = process_ok interest p"
  by (simp add: process_ok_def registered_def owned_def is_timer_def)

lemma timed_ok_pool: "timed_ok interest (T\<lparr>proc := (proc T)\<lparr>pool := q\<rparr>\<rparr>) = timed_ok interest T"
  by (simp add: timed_ok_def)

lemma runEvery_callbacks:
  "\<forall>t \<in> set (timerNodeQueue tq). callback t = cb \<Longrightarrow>
    \<forall>t \<in> set (timerNodeQueue (runEvery pick cb ivl now1 now2 tq)). callback t = cb"
  by (auto simp: runEvery_def addTimer_def addTimerInLoop_def insert_timer_def resetTimerfd_def TimerNode_def Let_def)

lemma start_check_ok: "timed_ok interest T \<Longrightarrow> timed_ok interest (start_check pick t now1 now2 T)"
  using runEvery_callbacks [of "timers T" check_id] by (simp add: timed_ok_def start_check_def)

lemma idle_timers_ok:
  assumes "process_ok interest p"
    and "\<forall>fd. interest (main_reactor p) fd \<noteq> None \<longrightarrow>
          fd = ch_fd (acc_channel (acceptor p)) \<or> (\<exists>ch. main_timer p = Some ch \<and> ch_fd ch = fd)"
    and "\<forall>ch. main_timer p = Some ch \<longrightarrow> ready_events ch = 0"
  shows "timed_ok interest (idle_timers p)"
  using assms by (simp add: timed_ok_def idle_timers_def TimerQueue_init_def)

text \<open>What the system must give the constructor for it to succeed.\<close>

definition good_environment :: "('k \<Rightarrow> int \<rightharpoonup> 32 word) \<Rightarrow> 'k environment \<Rightarrow> bool" where
  "good_environment interest env \<longleftrightarrow> interest (empty_epoll env) = (\<lambda>_. None)
     \<and> fst (main_fds env) \<noteq> -1 \<and> (\<forall>f \<in> set (sub_fds env). fst f \<noteq> -1) \<and> sub_fds env \<noteq> []
     \<and> lsn_fd (listen_socket env) \<noteq> -1 \<and> lsn_fd (listen_socket env) \<noteq> snd (main_fds env)
     \<and> \<not> lsn_nonblocking (listen_socket env) \<and> \<not> bind_fails env \<and> \<not> listen_fails env"

definition built :: "('k \<Rightarrow> int \<rightharpoonup> 32 word) \<Rightarrow> 'k environment \<Rightarrow> 'k process \<Rightarrow> bool" where
  "built interest env p \<longleftrightarrow> pool p = ThreadPool (length (sub_fds env))
     \<and> length (sub_reactors (the_server p)) = length (sub_fds env) \<and> connections (the_server p) = (\<lambda>_. None)
     \<and> lsn_queue (acc_sock (acceptor p)) = lsn_queue (listen_socket env)
     \<and> (\<forall>k \<in> set (sub_reactors (the_server p)). dom (interest k) \<subseteq> snd ` set (sub_fds env))"

lemma new_Server_ok:
  assumes "epoll_instance ctl interest" and "good_environment interest env"
  shows "\<exists>p. new_Server ctl env = ret p \<and> timed_ok interest (idle_timers p) \<and> built interest env p"
proof -
  obtain p where "Server ctl (main_fds env) (listen_socket env) False False (sub_fds env) (empty_epoll env) = ret p"
    "process_ok interest p" "connections (the_server p) = (\<lambda>_. None)"
    "length (sub_reactors (the_server p)) = length (sub_fds env)"
    "lsn_queue (acc_sock (acceptor p)) = lsn_queue (listen_socket env)" "pool p = ThreadPool (length (sub_fds env))"
    "\<forall>k \<in> set (sub_reactors (the_server p)). dom (interest k) \<subseteq> snd ` set (sub_fds env)"
    "\<forall>fd. interest (main_reactor p) fd \<noteq> None \<longrightarrow>
          fd = ch_fd (acc_channel (acceptor p)) \<or> (\<exists>ch. main_timer p = Some ch \<and> ch_fd ch = fd)"
    "\<forall>ch. main_timer p = Some ch \<longrightarrow> ready_events ch = 0"
    using Server_ok [of ctl interest "empty_epoll env" "main_fds env" "sub_fds env" "listen_socket env"] assms
    unfolding good_environment_def by blast
  then show ?thesis using assms(2) idle_timers_ok by (simp add: new_Server_def good_environment_def built_def)
qed

section \<open>The programs from main on\<close>

lemma callbacks_simps [simp]:
  "message_callback (OnMessage f cbs) = f" "new_connect_callback (OnMessage f cbs) = new_connect_callback cbs"
  "new_connect_callback (NewConnect g cbs) = Some g"
  by (simp_all add: message_callback_def OnMessage_def NewConnect_def call_def fun_eq_iff)

lemma start_check_queue:
  "timerNodeQueue (timers (start_check pick 5000 now1 now2 (idle_timers p))) = [TimerNode check_id 5000 5000 now1]"
  by (simp add: start_check_def idle_timers_def TimerQueue_init_def runEvery_def addTimer_def addTimerInLoop_def
      insert_timer_def resetTimerfd_def Let_def)

text \<open>The state when the loop begins, and every step from there on.\<close>

definition entered :: "('k \<Rightarrow> int \<rightharpoonup> 32 word) \<Rightarrow> 'k environment \<Rightarrow> timer_node list \<Rightarrow> 'k timed \<Rightarrow> bool" where
  "entered interest env q T \<longleftrightarrow> timed_ok interest T \<and> timerNodeQueue (timers T) = q
     \<and> (\<exists>p. built interest env p
          \<and> proc T = p\<lparr>pool := (pool p)\<lparr>workers := workers (pool p) @ map Fresh [0 ..< length (sub_fds env)]\<rparr>\<rparr>)"

lemma start_timed_entered:
  assumes "timed_ok interest T" and "built interest env (proc T)"
  shows "\<exists>T'. start_timed T = ret T' \<and> entered interest env (timerNodeQueue (timers T)) T'"
proof -
  let ?p = "proc T"
  have "\<not> stopped (pool ?p)" "length (sub_reactors (the_server ?p)) = length (sub_fds env)"
    using assms(2) by (simp_all add: built_def ThreadPool_def)
  then have "start_timed T = ret (T\<lparr>proc := ?p\<lparr>pool := (pool ?p)\<lparr>workers := workers (pool ?p)
      @ map Fresh [0 ..< length (sub_fds env)]\<rparr>\<rparr>\<rparr>)"
    by (simp add: start_timed_def Start_def add_loops_threads)
  then show ?thesis using assms by (auto simp: entered_def timed_ok_pool)
qed

lemma main_enters:
  assumes "epoll_instance ctl interest" and "good_environment interest env"
  shows "\<exists>p T. new_Server ctl env = ret p \<and> start_timed (idle_timers p) = ret T \<and> entered interest env [] T"
  using new_Server_ok [OF assms] start_timed_entered [of interest "idle_timers p" env for p]
  by (fastforce simp: idle_timers_def TimerQueue_init_def)

lemma echo_main_enters:
  assumes "epoll_instance ctl interest" and "good_environment interest env"
  shows "\<exists>T. echo_main ctl env = ret (OnMessage echo_message (NewConnect print_connection no_callbacks), T)
    \<and> entered interest env [] T"
  using main_enters [OF assms] by (auto simp: echo_main_def Let_def)

lemma http_main_enters:
  assumes "epoll_instance ctl interest" and "good_environment interest env"
  shows "\<exists>T. http_main ctl env iter = ret (http_callbacks iter (setHttpCallback example_onRequest HttpServer), T)
    \<and> entered interest env [] T"
  using main_enters [OF assms] by (auto simp: http_main_def Let_def)

lemma kv_main_enters:
  assumes "epoll_instance ctl interest" and "good_environment interest env"
  shows "\<exists>T. kv_main ctl env = ret (OnMessage kv_message (NewConnect print_connection no_callbacks), T)
    \<and> entered interest env [] T"
  using main_enters [OF assms] by (auto simp: kv_main_def Let_def)

lemma timer_main_enters:
  assumes "epoll_instance ctl interest" and "good_environment interest env"
  shows "\<exists>T. timer_main ctl env pick now1 now2 = ret (OnMessage timer_message (NewConnect timer_connect no_callbacks), T)
    \<and> entered interest env [TimerNode check_id 5000 5000 now1] T"
proof -
  obtain p where p: "new_Server ctl env = ret p" "timed_ok interest (idle_timers p)" "built interest env p"
    using new_Server_ok [OF assms] by blast
  let ?T = "start_check pick 5000 now1 now2 (idle_timers p)"
  have "proc ?T = p" by (simp add: start_check_def idle_timers_def)
  then show ?thesis
    using start_timed_entered [OF start_check_ok [OF p(2)], of env pick 5000 now1 now2] p(1,3) start_check_queue [of pick now1 now2 p]
    by (auto simp: timer_main_def Let_def)
qed

text \<open>From there on the program is safe.\<close>

lemma timed_safe:
  assumes "timed_program ctl interest E on_message new_connect pick" and "entered interest env q T0"
    and "timed_reach ctl interest pick on_message new_connect T0 T"
    and "timed_work ctl interest pick on_message new_connect T m"
  shows "timed_ok interest T \<and> yields (E \<union> {Exit ''socket accept error'', Exit ''socket create error''})
    (\<lambda>T'. timed_ok interest T' \<and> dom (connections (the_server (proc T))) \<subseteq> dom (connections (the_server (proc T')))) m"
  using timed_program.timed_reach_ok [OF assms(1,3)] timed_program.timed_work_safe [OF assms(1) _ assms(4)] assms(2)
  by (simp add: entered_def)

end
