(* ===== verification/Descriptors.thy ===== *)
theory Descriptors
  imports Server_Programs
begin

text \<open>
  The descriptors a server holds. Accepting a client opens two: the one \<open>accept\<close> returns
  (\<open>Acceptor::AcceptConnection\<close>, \<open>src/network/Acceptor.cpp\<close>) and the one of the socket that the constructor of
  \<open>Connection\<close> makes and then forgets (\<open>src/network/Connection.cpp\<close>). Nothing closes them: a deleted
  connection stays in the table with its \<open>Socket\<close> and its \<open>Channel\<close>.
\<close>

section \<open>The descriptor table of the process\<close>

text \<open>
  \<open>alloc fds\<close> is the number a new descriptor gets when \<open>fds\<close> are open, or -1 when the kernel refuses. The
  law: a new descriptor was not open, and is below the limit of the process (\<open>RLIMIT_NOFILE\<close>).
\<close>

locale descriptor_table =
  fixes alloc :: "int list \<Rightarrow> int" and limit :: nat
  assumes alloc_law: "alloc fds \<noteq> -1 \<Longrightarrow> 0 \<le> alloc fds \<and> alloc fds < int limit \<and> alloc fds \<notin> set fds"
begin

definition held :: "int list \<Rightarrow> bool" where
  "held fds \<longleftrightarrow> distinct fds \<and> set fds \<subseteq> {0 ..< int limit}"

lemma held_length: "held fds \<Longrightarrow> length fds \<le> limit"
  using card_mono [of "{0 ..< int limit}" "set fds"] by (simp add: held_def distinct_card)

lemma held_alloc: "held fds \<Longrightarrow> alloc fds \<noteq> -1 \<Longrightarrow> held (alloc fds # fds)"
  using alloc_law [of fds] by (simp add: held_def)

lemma alloc_full: "held fds \<Longrightarrow> limit \<le> length fds \<Longrightarrow> alloc fds = -1"
  using held_length [of "alloc fds # fds"] held_alloc [of fds] by fastforce

end

text \<open>What POSIX prescribes is the lowest number that is free.\<close>

definition lowest_free :: "nat \<Rightarrow> int list \<Rightarrow> int" where
  "lowest_free limit fds = (case find (\<lambda>i. int i \<notin> set fds) [0 ..< limit] of None \<Rightarrow> -1 | Some i \<Rightarrow> int i)"

interpretation posix: descriptor_table "lowest_free limit" limit for limit
  by unfold_locales (auto simp: lowest_free_def find_Some_iff split: option.splits)

section \<open>Clients\<close>

text \<open>The next client: what \<open>accept\<close> and \<open>socket\<close> return is up to the descriptor table.\<close>

definition client_arrives ::
  "'k epoll_ctl \<Rightarrow> ('k conn \<Rightarrow> 'k conn outcome) option \<Rightarrow> (int list \<Rightarrow> int) \<Rightarrow> sock \<Rightarrow> sockaddr_in
    \<Rightarrow> int list \<times> 'k process \<Rightarrow> (int list \<times> 'k process) outcome" where
  "client_arrives ctl new_connect alloc so addr = (\<lambda>(fds, p).
     let fd = alloc fds; spare = alloc (fd # fds); a = acceptor p;
         r = (if fd = -1 then Accept_error else Accepted (so\<lparr>sock_fd := fd\<rparr>) addr) in
     obind (acceptor_event ctl new_connect spare EPOLLIN
              (a\<lparr>acc_sock := (acc_sock a)\<lparr>lsn_queue := [r]\<rparr>\<rparr>, the_server p))
       (\<lambda>(a, s). ret (spare # fd # fds, p\<lparr>acceptor := a, the_server := s\<rparr>)))"

text \<open>Clients arrive, and between them the reactors work and the check runs; \<open>n\<close> counts the clients.\<close>

inductive serving ::
  "'k epoll_ctl \<Rightarrow> ('k \<Rightarrow> int \<rightharpoonup> 32 word) \<Rightarrow> ('k conn \<Rightarrow> 'k conn outcome) \<Rightarrow> ('k conn \<Rightarrow> 'k conn outcome) option
    \<Rightarrow> (int list \<Rightarrow> int) \<Rightarrow> int list \<times> 'k process \<Rightarrow> nat \<Rightarrow> int list \<times> 'k process \<Rightarrow> bool"
  for ctl interest on_message new_connect alloc st0 where
  Open: "serving ctl interest on_message new_connect alloc st0 0 st0"
| Client: "serving ctl interest on_message new_connect alloc st0 n st \<Longrightarrow>
    client_arrives ctl new_connect alloc so addr st = ret st' \<Longrightarrow>
    serving ctl interest on_message new_connect alloc st0 (Suc n) st'"
| Events: "serving ctl interest on_message new_connect alloc st0 n (fds, p) \<Longrightarrow>
    kernel_reports interest p r evs \<Longrightarrow> loop_round ctl on_message (Some evs) (the_server p) = ret s \<Longrightarrow>
    serving ctl interest on_message new_connect alloc st0 n (fds, p\<lparr>the_server := s\<rparr>)"
| Idle_check: "serving ctl interest on_message new_connect alloc st0 n (fds, p) \<Longrightarrow>
    set order \<subseteq> dom (connections (the_server p)) \<Longrightarrow> CheckActiveConnection ctl order nows (the_server p) = ret s \<Longrightarrow>
    serving ctl interest on_message new_connect alloc st0 n (fds, p\<lparr>the_server := s\<rparr>)"

section \<open>Every client costs two descriptors\<close>

text \<open>The descriptors of the table and of the timers are among the open ones.\<close>

definition open_ok :: "('k \<Rightarrow> int \<rightharpoonup> 32 word) \<Rightarrow> int list \<times> 'k process \<Rightarrow> bool" where
  "open_ok interest = (\<lambda>(fds, p). process_ok interest p \<and> dom (connections (the_server p)) \<subseteq> set fds
     \<and> (\<forall>r fd. r < length (sub_reactors (the_server p)) \<longrightarrow> is_timer p r fd \<longrightarrow> fd \<in> set fds))"

lemma open_ok_fresh:
  assumes "open_ok interest (fds, p)" and "fd \<notin> set fds" and "k \<in> set (sub_reactors (the_server p))"
  shows "interest k fd = None"
proof (rule ccontr)
  assume "interest k fd \<noteq> None"
  moreover obtain r where r: "r < length (sub_reactors (the_server p))" "k = sub_reactors (the_server p) ! r"
    using assms(3) by (auto simp: in_set_conv_nth)
  ultimately have "owned p r fd" using assms(1) by (auto simp: open_ok_def process_ok_def registered_def)
  then show False using assms(1,2) r(1) by (auto simp: open_ok_def owned_def)
qed

lemma open_ok_rest:
  assumes "open_ok interest (fds, p)" and "server_ok interest s" and "same_rest interest (the_server p) s"
  shows "open_ok interest (fds, p\<lparr>the_server := s\<rparr>)"
  using assms process_ok_rest [of interest p s] by (auto simp: open_ok_def same_rest_def is_timer_def)

lemma accept_files:
  assumes "acceptor_event ctl new_connect spare EPOLLIN (a, s) = ret (a', s')"
    and "lsn_queue (acc_sock a) = [Accepted so addr]" and "\<not> lsn_nonblocking (acc_sock a)"
  shows "dom (connections s') = insert (sock_fd so) (dom (connections s)) \<and> length (sub_reactors s') = length (sub_reactors s)"
  using assms
  by (auto simp: acceptor_event_def HandleEvent_def call_def SetReadyEvents_def AcceptConnection_def Accept_def
      NewConnection_def SetNonBlocking_def epoll_masks Let_def elim!: obind_eq_retE split: if_splits)

locale descriptor_program =
  server_program ctl interest E on_message new_connect + descriptor_table alloc limit
  for ctl :: "'k epoll_ctl" and interest :: "'k \<Rightarrow> int \<rightharpoonup> 32 word" and E :: "fault set"
    and on_message :: "'k conn \<Rightarrow> 'k conn outcome" and new_connect :: "('k conn \<Rightarrow> 'k conn outcome) option"
    and alloc :: "int list \<Rightarrow> int" and limit :: nat
begin

lemma client_step:
  assumes "open_ok interest (fds, p)" and "held fds" and "client_arrives ctl new_connect alloc so addr (fds, p) = ret (fds', p')"
  shows "open_ok interest (fds', p') \<and> held fds' \<and> length fds' = length fds + 2"
proof -
  let ?fd = "alloc fds" and ?a = "acceptor p"
  let ?spare = "alloc (?fd # fds)" and ?r = "if ?fd = -1 then Accept_error else Accepted (so\<lparr>sock_fd := ?fd\<rparr>) addr"
  let ?q = "p\<lparr>acceptor := ?a\<lparr>acc_sock := (acc_sock ?a)\<lparr>lsn_queue := [?r]\<rparr>\<rparr>\<rparr>"
  obtain a s where run: "acceptor_event ctl new_connect ?spare EPOLLIN (acceptor ?q, the_server ?q) = ret (a, s)"
    and fds': "fds' = ?spare # ?fd # fds" and p': "p' = p\<lparr>acceptor := a, the_server := s\<rparr>"
    using assms(3) by (auto simp: client_arrives_def Let_def elim!: obind_eq_retE)
  have ok: "process_ok interest ?q" "\<not> lsn_nonblocking (acc_sock ?a)"
    using assms(1) by (auto simp: open_ok_def process_ok_def acceptor_ok_def registered_def owned_def is_timer_def)
  have fd: "?fd \<noteq> -1"
  proof
    assume "?fd = -1"
    then show False
      using run ok(2) by (simp add: acceptor_event_def HandleEvent_def call_def SetReadyEvents_def AcceptConnection_def
          Accept_def epoll_masks)
  qed
  have spare: "?spare \<noteq> -1"
  proof
    assume "?spare = -1"
    then show False
      using run ok fd
      by (auto simp: acceptor_event_def HandleEvent_def call_def SetReadyEvents_def AcceptConnection_def
          Accept_def epoll_masks NewConnection_def Connection_def Let_def elim!: obind_eq_retE split: if_splits)
  qed
  have new: "0 \<le> ?fd" "?fd \<notin> set fds" using alloc_law [OF fd] by auto
  then have "kernel_accepts interest ?q"
    using fd open_ok_fresh [OF assms(1)] by (simp add: kernel_accepts_def)
  from accept_work [OF ok(1) this, of EPOLLIN ?spare] run have "process_ok interest (?q\<lparr>acceptor := a, the_server := s\<rparr>)"
    by (simp add: epoll_masks)
  moreover have "dom (connections s) = insert ?fd (dom (connections (the_server p)))"
    "length (sub_reactors s) = length (sub_reactors (the_server p))"
    using accept_files [OF run] ok(2) fd by simp_all
  ultimately have "open_ok interest (fds', p')" using assms(1) by (auto simp: open_ok_def p' fds' is_timer_def)
  moreover have "held fds'" unfolding fds' using held_alloc assms(2) fd spare by simp
  ultimately show ?thesis by (simp add: fds')
qed

lemma serving_ok:
  assumes "serving ctl interest on_message new_connect alloc st0 n st" and "open_ok interest st0" and "held (fst st0)"
  shows "open_ok interest st \<and> held (fst st) \<and> length (fst st) = length (fst st0) + 2 * n"
  using assms
proof induction
  case (Client n st so addr st')
  then show ?case using client_step [of "fst st" "snd st" so addr "fst st'" "snd st'"] by simp
next
  case (Events n fds p r evs s)
  then have ok: "open_ok interest (fds, p)" by simp
  then have "fst ` set evs \<subseteq> dom (connections (the_server p))" "distinct (map fst evs)"
    "\<forall>(fd, ev) \<in> set evs. ev AND EPOLLOUT = 0" "server_ok interest (the_server p)"
    using Events(2) by (fastforce simp: kernel_reports_def open_ok_def process_ok_def registered_def owned_def)+
  then have "server_ok interest s \<and> same_rest interest (the_server p) s"
    using round_safe [of "the_server p" evs] Events(3) by simp
  then show ?case using open_ok_rest [OF ok] Events by simp
next
  case (Idle_check n fds p order nows s)
  then have ok: "open_ok interest (fds, p)" by simp
  then have "server_ok interest (the_server p)" by (simp add: open_ok_def process_ok_def)
  from check_safe [OF epoll_instance_axioms this Idle_check(2), of nows] Idle_check(3)
  have "server_ok interest s \<and> same_rest interest (the_server p) s" by simp
  then show ?case using open_ok_rest [OF ok] Idle_check by simp
qed simp

text \<open>When fewer than two are left, the next client ends the server.\<close>

lemma client_refused:
  assumes "open_ok interest (fds, p)" and "held fds" and "limit < length fds + 2"
  shows "client_arrives ctl new_connect alloc so addr (fds, p) = fail (Exit ''socket accept error'')
    \<or> client_arrives ctl new_connect alloc so addr (fds, p) = fail (Exit ''socket create error'')"
proof (cases "alloc fds = -1")
  case True
  then show ?thesis
    using assms(1)
    by (simp add: client_arrives_def Let_def acceptor_event_def HandleEvent_def call_def SetReadyEvents_def
        AcceptConnection_def Accept_def epoll_masks open_ok_def process_ok_def acceptor_ok_def)
next
  case False
  then have "alloc (alloc fds # fds) = -1"
    using alloc_full [OF held_alloc [OF assms(2)]] assms(3) by simp
  then show ?thesis
    using assms(1) False alloc_law [OF False]
    by (simp add: client_arrives_def Let_def acceptor_event_def HandleEvent_def call_def SetReadyEvents_def
        AcceptConnection_def Accept_def epoll_masks open_ok_def process_ok_def acceptor_ok_def NewConnection_def
        Connection_def Socket_def SetNonBlocking_def)
qed

end

interpretation few_echo: descriptor_program map_ctl "\<lambda>k. k" "{}" echo_message "Some print_connection" "lowest_free limit" limit
  for limit
  by unfold_locales

end
