(* ===== verification/Storage_Tests.thy ===== *)
theory Storage_Tests
  imports SkipList_IO LogStream
begin

text \<open>
  The test drivers of the skip list (\<open>src/storage/test/test.cpp\<close>, \<open>stress_test.cpp\<close>), on lists with keys of
  type \<open>int\<close>. \<open>rand()\<close> draws from the list of random numbers in the state; \<open>main\<close> of the first driver returns
  what it prints itself, piece by piece, and the text it leaves in the store file.
\<close>

section \<open>The test program\<close>

type_synonym int_list = "(int, string) skiplist"

text \<open>The values, as the bytes of their UTF-8 texts.\<close>

definition james :: string where
  "james = [CHR 0xE8, CHR 0xA9, CHR 0xB9, CHR 0xE5, CHR 0xA7, CHR 0x86, CHR 0xE6, CHR 0x96, CHR 0xAF]"

definition kobe :: string where
  "kobe = [CHR 0xE7, CHR 0xA7, CHR 0x91, CHR 0xE6, CHR 0xAF, CHR 0x94]"

definition harden :: string where
  "harden = [CHR 0xE5, CHR 0x93, CHR 0x88, CHR 0xE7, CHR 0x99, CHR 0xBB]"

definition paul :: string where
  "paul = [CHR 0xE4, CHR 0xBF, CHR 0x9D, CHR 0xE7, CHR 0xBD, CHR 0x97]"

definition stephen :: string where
  "stephen = [CHR 0xE5, CHR 0xBA, CHR 0x93, CHR 0xE9, CHR 0x87, CHR 0x8C]"

definition george :: string where
  "george = [CHR 0xE4, CHR 0xB9, CHR 0x94, CHR 0xE6, CHR 0xB2, CHR 0xBB]"

definition jordan :: string where
  "jordan = [CHR 0xE4, CHR 0xB9, CHR 0x94, CHR 0xE4, CHR 0xB8, CHR 0xB9]"

definition display_int :: "int \<Rightarrow> string \<Rightarrow> string" where
  "display_int k v = int_text k @ '':'' @ v @ '';''"

definition dump_int :: "int \<Rightarrow> string \<Rightarrow> string" where
  "dump_int k v = int_text k @ '':'' @ v @ [newline]"

fun inserts :: "(int \<times> string) list \<Rightarrow> int_list \<Rightarrow> int_list outcome" where
  "inserts [] s = ret s"
| "inserts ((k, v) # ps) s = obind (insertElement k v s) (\<lambda>(_, s). inserts ps s)"

text \<open>\<open>k0\<close> is the uninitialised key of the header.\<close>

definition test_main :: "int \<Rightarrow> int list \<Rightarrow> (string list \<times> string \<times> int_list) outcome" where
  "test_main k0 rs =
     obind (inserts [(23, james), (24, kobe), (13, harden), (3, paul), (30, stephen)] (SkipList 6 k0 [] rs)) (\<lambda>s.
     obind (display_as display_int s) (\<lambda>shown1.
     let size_line = ''SkipList's size : '' @ int_text (sl_size s) @ [newline] in
     obind (dump_as dump_int s) (\<lambda>file.
     obind (searchElement 3 [] s) (\<lambda>(_, v3).
     let line3 = ''3 value : '' @ v3 @ [newline] in
     obind (searchElement 4 v3 s) (\<lambda>(_, v4).
     let line4 = ''4 value : '' @ v4 @ [newline] in
     obind (inserts [(13, george), (23, jordan)] s) (\<lambda>s.
     obind (display_as display_int s) (\<lambda>shown2.
     obind (deleteElement 13 s) (\<lambda>(_, s).
     obind (deleteElement 4 s) (\<lambda>(_, s).
     obind (display_as display_int s) (\<lambda>shown3.
     ret ([shown1, size_line, line3, line4, shown2, shown3], file, s)))))))))))"

section \<open>The stress test\<close>

text \<open>Both loops draw their keys and, for the levels, the list draws from the same \<open>rand()\<close>.\<close>

definition TEST_COUNT :: nat where "TEST_COUNT = 100000"

definition next_rand :: "int_list \<Rightarrow> (int \<times> int_list) outcome" where
  "next_rand s = (case rands s of [] \<Rightarrow> None | r # rs \<Rightarrow> ret (r, s\<lparr>rands := rs\<rparr>))"

fun insert_loop :: "nat \<Rightarrow> int_list \<Rightarrow> int_list outcome" where
  "insert_loop 0 s = ret s"
| "insert_loop (Suc n) s =
     obind (next_rand s) (\<lambda>(r, s).
     obind (insertElement (r mod int TEST_COUNT) ''a'' s) (\<lambda>(_, s). insert_loop n s))"

fun get_loop :: "nat \<Rightarrow> string \<Rightarrow> int_list \<Rightarrow> int_list outcome" where
  "get_loop 0 v s = ret s"
| "get_loop (Suc n) v s =
     obind (next_rand s) (\<lambda>(r, s).
     obind (searchElement (r mod int TEST_COUNT) v s) (\<lambda>(_, v). get_loop n v s))"

text \<open>
  The one thread of each kind; \<open>main\<close> starts the second kind only, on the empty list, and exits when
  \<open>pthread_create\<close> or \<open>pthread_join\<close> reports an error.
\<close>

definition stress_insertElement :: "int_list \<Rightarrow> int_list outcome" where
  "stress_insertElement = insert_loop TEST_COUNT"

definition stress_getElement :: "int_list \<Rightarrow> int_list outcome" where
  "stress_getElement = get_loop TEST_COUNT []"

definition stress_main :: "bool \<Rightarrow> bool \<Rightarrow> int \<Rightarrow> int list \<Rightarrow> int_list outcome" where
  "stress_main create_fails join_fails k0 rs =
     (if create_fails then fail (Exit ''Error:unable to create thread,'')
      else
        obind (stress_getElement (SkipList 18 k0 [] rs)) (\<lambda>s.
        if join_fails then fail (Exit ''pthread_create() error'') else ret s))"

section \<open>What they do\<close>

lemma inserts_rep:
  assumes "sl_rep s xs" and "draws_ready (length ps + n) s"
  shows "\<exists>s'. inserts ps s = ret s' \<and> sl_rep s' (puts ps xs) \<and> draws_ready n s'"
  using assms
proof (induction ps arbitrary: s xs)
  case (Cons p ps)
  obtain k v where p: "p = (k, v)" by (cases p)
  obtain s1 where s1: "insertElement k v s = ret (if k \<in> fst ` set xs then 1 else 0, s1)"
    "sl_rep s1 (put k v xs)" "draws_ready (length ps + n) s1"
    using sl.insert_law [OF Cons.prems(1), of "length ps + n" k v] Cons.prems(2) by auto
  then show ?case using Cons.IH [OF s1(2,3)] p by simp
qed simp

lemma display_rep: "sl_rep s xs \<Longrightarrow> \<exists>text. display_as fmt s = ret text"
  using display_as_chain by (auto simp: sl_rep_def)

text \<open>
  The test program's first search finds the value of key 3, its second finds nothing: the line printed
  for key 4 shows the value left over from the first search.
\<close>

lemma test_main_run:
  assumes "7 \<le> length (filter even rs)"
  shows "\<exists>shown1 shown2 shown3 s. test_main k0 rs =
    ret ([shown1, ''SkipList's size : 5'' @ [newline], ''3 value : '' @ paul @ [newline], ''4 value : '' @ paul @ [newline],
           shown2, shown3],
         concat (map (\<lambda>(k, v). dump_int k v) [(3, paul), (13, harden), (23, james), (24, kobe), (30, stephen)]), s)
    \<and> sl_rep s [(3, paul), (23, jordan), (24, kobe), (30, stephen)]"
proof -
  let ?s0 = "SkipList 6 k0 [] rs" and ?ps = "[(23, james), (24, kobe), (13, harden), (3, paul), (30, stephen)]"
  let ?xs = "[(3, paul), (13, harden), (23, james), (24, kobe), (30, stephen)]"
  let ?ys = "[(3, paul), (13, george), (23, jordan), (24, kobe), (30, stephen)]"
  have "draws_ready (length ?ps + 2) ?s0" using assms by (simp add: draws_ready_def SkipList_def)
  from inserts_rep [OF SkipList_rep this] obtain s1 where s1: "inserts ?ps ?s0 = ret s1" "sl_rep s1 ?xs" "draws_ready 2 s1"
    by auto
  obtain s2 where s2: "inserts [(13, george), (23, jordan)] s1 = ret s2" "sl_rep s2 ?ys" "draws_ready 0 s2"
    using inserts_rep [OF s1(2), of "[(13, george), (23, jordan)]" 0] s1(3) by (auto simp: numeral_2_eq_2)
  obtain s3 where s3: "deleteElement 13 s2 = ret (True, s3)" "sl_rep s3 [(3, paul), (23, jordan), (24, kobe), (30, stephen)]"
    "draws_ready 0 s3"
    using sl.delete_law [OF s2(2,3), of 13] by auto
  obtain s4 where s4: "deleteElement 4 s3 = ret (False, s4)" "sl_rep s4 [(3, paul), (23, jordan), (24, kobe), (30, stephen)]"
    using sl.delete_law [OF s3(2,3), of 4] by auto
  obtain t1 t2 t3 where "display_as display_int s1 = ret t1" "display_as display_int s2 = ret t2" "display_as display_int s4 = ret t3"
    using display_rep [OF s1(2)] display_rep [OF s2(2)] display_rep [OF s4(2)] by blast
  moreover have "searchElement 3 [] s1 = ret (True, paul)" "searchElement 4 paul s1 = ret (False, paul)"
    using sl.search_law [OF s1(2)] by simp_all
  moreover have "int_text (sl_size s1) = ''5''"
    using sl_rep_size [OF s1(2)] by (simp add: int_text_def decimal.simps digit_char_def char_of_def bit_0)
  ultimately show ?thesis
    using s1(1) s2(1) s3(1) s4 dump_as_rep [OF s1(2), of dump_int] by (simp add: test_main_def Let_def)
qed

lemma next_rand_ret: "next_rand s = ret (r, s') \<Longrightarrow> \<exists>rs. rands s = r # rs \<and> s' = s\<lparr>rands := rs\<rparr>"
  by (auto simp: next_rand_def split: list.splits)

lemma sl_rep_rands [simp]: "sl_rep (s\<lparr>rands := rs\<rparr>) xs = sl_rep s xs"
  by (simp add: sl_rep_def)

text \<open>The searches of the stress test all miss, and change nothing.\<close>

lemma get_loop_empty:
  assumes "sl_rep s []" and "n \<le> length (rands s)"
  shows "get_loop n v s = ret (s\<lparr>rands := drop n (rands s)\<rparr>)"
  using assms
proof (induction n arbitrary: s)
  case (Suc n)
  then obtain r rs where r: "rands s = r # rs" by (cases "rands s") auto
  let ?s = "s\<lparr>rands := rs\<rparr>"
  have rep: "sl_rep ?s []" using Suc.prems(1) by simp
  have "searchElement (r mod int TEST_COUNT) v ?s = ret (False, v)" using sl.search_law [OF rep] by simp
  moreover have "get_loop n v ?s = ret (?s\<lparr>rands := drop n rs\<rparr>)" using Suc.IH [OF rep] Suc.prems(2) r by simp
  ultimately show ?case using r by (simp add: next_rand_def)
qed simp

lemma stress_main_run:
  assumes "TEST_COUNT \<le> length rs"
  shows "stress_main False False k0 rs = ret (SkipList 18 k0 [] (drop TEST_COUNT rs))"
proof -
  have "TEST_COUNT \<le> length (rands (SkipList 18 k0 ([] :: string) rs))" using assms by (simp add: SkipList_def)
  from get_loop_empty [OF SkipList_rep this, of "[]"] show ?thesis
    by (simp add: stress_main_def stress_getElement_def SkipList_def)
qed

lemma insert_loop_rep:
  assumes "sl_rep s xs" and "draws_ready (2 * n) s"
  shows "\<exists>s' keys. insert_loop n s = ret s' \<and> length keys = n \<and> set keys \<subseteq> {0 ..< int TEST_COUNT}
    \<and> sl_rep s' (puts (map (\<lambda>k. (k, ''a'')) keys) xs)"
  using assms
proof (induction n arbitrary: s xs)
  case (Suc n)
  then obtain r rs where r: "rands s = r # rs" by (cases "rands s") (auto simp: draws_ready_def)
  let ?s = "s\<lparr>rands := rs\<rparr>" and ?k = "r mod int TEST_COUNT"
  have "draws_ready (Suc (2 * n)) ?s" using Suc.prems(2) r by (auto simp: draws_ready_def split: if_splits)
  moreover have "sl_rep ?s xs" using Suc.prems(1) by simp
  ultimately obtain c s1 where s1: "insertElement ?k ''a'' ?s = ret (c, s1)" "sl_rep s1 (put ?k ''a'' xs)" "draws_ready (2 * n) s1"
    using sl.insert_law [of ?s xs "2 * n" ?k "''a''"] by blast
  obtain s' keys where s': "insert_loop n s1 = ret s'" "length keys = n" "set keys \<subseteq> {0 ..< int TEST_COUNT}"
    "sl_rep s' (puts (map (\<lambda>k. (k, ''a'')) keys) (put ?k ''a'' xs))"
    using Suc.IH [OF s1(2,3)] by blast
  have "?k \<in> {0 ..< int TEST_COUNT}" by (simp add: TEST_COUNT_def)
  then show ?case
    using r s1(1) s' by (intro exI [of _ s'] exI [of _ "?k # keys"]) (simp add: next_rand_def)
qed auto

text \<open>The list never grows beyond the number of keys there are.\<close>

lemma keys_sorted_distinct: "keys_sorted xs \<Longrightarrow> distinct (map fst xs)"
  by (induction xs) fastforce+

lemma bounded_keys:
  assumes "keys_sorted xs" and "fst ` set xs \<subseteq> {0 ..< int m}"
  shows "length xs \<le> m"
proof -
  have "distinct (map fst xs)" using assms(1) by (rule keys_sorted_distinct)
  then have "length xs = card (fst ` set xs)" using distinct_card [of "map fst xs"] by simp
  also have "\<dots> \<le> m" using card_mono [OF _ assms(2)] by simp
  finally show ?thesis .
qed

lemma fst_set_puts: "fst ` set (puts ps xs) = fst ` set ps \<union> fst ` set xs"
proof (induction ps arbitrary: xs)
  case (Cons p ps)
  then show ?case by (cases p) (simp only: puts_simps fst_set_put, auto)
qed simp

lemma stress_insertElement_run:
  assumes "sl_rep s []" and "draws_ready (2 * TEST_COUNT) s"
  shows "\<exists>s' xs. stress_insertElement s = ret s' \<and> sl_rep s' xs \<and> length xs \<le> TEST_COUNT
    \<and> (\<forall>p \<in> set xs. 0 \<le> fst p \<and> fst p < int TEST_COUNT \<and> snd p = ''a'')"
proof -
  obtain s' keys where s': "stress_insertElement s = ret s'" "set keys \<subseteq> {0 ..< int TEST_COUNT}"
    "sl_rep s' (puts (map (\<lambda>k. (k, ''a'')) keys) [])"
    using insert_loop_rep [OF assms] unfolding stress_insertElement_def by blast
  let ?xs = "puts (map (\<lambda>k. (k, ''a'')) keys) []"
  have keys: "fst ` set ?xs \<subseteq> {0 ..< int TEST_COUNT}" using s'(2) by (simp add: fst_set_puts image_image)
  have sorted: "keys_sorted ?xs" using sl.rep_sorted [OF s'(3)] .
  have "snd p = ''a''" if "p \<in> set ?xs" for p
  proof -
    have "map_of ?xs (fst p) = Some (snd p)" using that keys_sorted_distinct [OF sorted] by (metis map_of_eq_Some_iff prod.collapse)
    then show ?thesis by (auto simp: map_of_puts dest!: map_of_SomeD)
  qed
  then show ?thesis using s'(1,3) keys bounded_keys [OF sorted keys] by (intro exI [of _ s'] exI [of _ ?xs]) force
qed

end
