(* ===== verification/Thread_Properties.thy ===== *)
theory Thread_Properties
  imports Program_Properties SkipList_Threads Close_Race Server_Mains Descriptors Storage_Tests
begin

text \<open>
  The properties of the programs from \<open>main\<close> on, with their timers, and of the threads that meet in the
  library without a lock between them.
\<close>

section \<open>The servers from main on\<close>







text \<open>
  C15. When the timer descriptor of the main reactor is ready and its check is due once, the round runs
  the check: each connection whose last activity is more than two minutes before the reading taken for it
  is closed and deregistered, the others stay as they are, and the check is queued again and the
  descriptor armed for it. (The hypothesis on \<open>Send\<close> says that the kernel answers every write.)
\<close>

theorem due_check_drops_idle_connections:
  assumes "timer_order pick" and "epoll_instance ctl interest" and "timed_ok interest T"
    and "main_timer (proc T) = Some ch" and "ch_fd ch \<noteq> ch_fd (acc_channel (acceptor (proc T)))"
    and "timerNodeQueue (timers T) = [t]" and "repeating t" and "\<not> deleted t"
    and "expiration t \<le> ms_of now1" and "ms_of now2 < expiration (restart now1 t)"
    and "checks T = (order, nows) # ins"
    and "length (order (connections (the_server (proc T)))) \<le> length nows"
    and "\<And>fd c. connections (the_server (proc T)) fd = Some c \<Longrightarrow> \<exists>c'. Send ''You are cleared!'' c = ret c'"
  shows "\<exists>T'. main_round ctl pick new_connect spare (now1 # now2 # now3 # later) (Some [(ch_fd ch, EPOLLIN)]) T = ret T'
    \<and> timed_ok interest T'
    \<and> (\<forall>fd \<in> set (expired_fds (the_server (proc T)) (order (connections (the_server (proc T)))) nows).
          dropped fd (the_server (proc T')))
    \<and> (\<forall>fd. fd \<notin> set (expired_fds (the_server (proc T)) (order (connections (the_server (proc T)))) nows) \<longrightarrow>
          connections (the_server (proc T')) fd = connections (the_server (proc T)) fd)
    \<and> timerNodeQueue (timers T') = [restart now1 t]
    \<and> armed (timers T') = Some (delay (expiration (restart now1 t)) now3)"
  using due_check_round [OF assms] .

definition sample_timed :: "(int \<rightharpoonup> 32 word) timed" where
  "sample_timed =
     \<lparr>proc = \<lparr>main_reactor = [3 \<mapsto> EPOLLIN, 5 \<mapsto> EPOLLIN], main_timer = Some ((Channel 5)\<lparr>in_epoll := True\<rparr>),
        acceptor = \<lparr>acc_sock = sample_lsn\<lparr>lsn_listening := True, lsn_addr := Some (InetAddress ''127.0.0.1'' 1234)\<rparr>,
                    acc_channel = (Channel 3)\<lparr>in_epoll := True\<rparr>\<rparr>,
        the_server = \<lparr>connections = [7 \<mapsto> sample_conn\<lparr>conn_sock := sample_sock\<lparr>outcomes := [Wrote 16]\<rparr>\<rparr>],
                      sub_reactors = [[7 \<mapsto> 0]]\<rparr>,
        sub_timers = [None], pool = ThreadPool 1\<rparr>,
      timers = \<lparr>timerNodeQueue = [TimerNode check_id 5000 5000 (1, 0)], armed = None, fired = [], callingExpiredTimers = False\<rparr>,
      checks = [(\<lambda>m. sorted_list_of_set (dom m), [120001])]\<rparr>"

lemma sample_timed_ok: "timed_ok (\<lambda>k. k) sample_timed"
proof -
  have "walks_table (\<lambda>m. sorted_list_of_set (dom m))"
    unfolding walks_table_def
  proof
    fix m :: "int \<rightharpoonup> connection"
    show "set (sorted_list_of_set (dom m)) \<subseteq> dom m \<and> distinct (sorted_list_of_set (dom m))
      \<and> (finite (dom m) \<longrightarrow> set (sorted_list_of_set (dom m)) = dom m)"
      by (cases "finite (dom m)") simp_all
  qed
  then show ?thesis
    using sample_conn_ok(2)
    by (auto simp: sample_timed_def timed_ok_def process_ok_def server_ok_def conn_ok_def acceptor_ok_def registered_def
        owned_def reactor_def Channel_def never_writes_def isWriting_def sample_lsn_def TimerNode_def sample_conn_def
        sample_sock_def)
qed

theorem due_check_drops_idle_connections_witness:
  "\<exists>T'. main_round map_ctl first_min None 9 [(6, 0), (6, 0), (6, 0)] (Some [(5, EPOLLIN)]) sample_timed = ret T'
     \<and> dropped 7 (the_server (proc T')) \<and> map expiration (timerNodeQueue (timers T')) = [11000]
     \<and> armed (timers T') = Some (5, 0)"
proof -
  let ?t = "TimerNode check_id 5000 5000 (1, 0)" and ?s = "the_server (proc sample_timed)"
  have t: "expiration ?t = 6000" "ms_of (6, 0) = 6000" "expiration (restart (6, 0) ?t) = 11000" "repeating ?t" "\<not> deleted ?t"
    by (simp_all add: TimerNode_def ms_of_def restart_def)
  have sends: "\<exists>c'. Send ''You are cleared!'' c = ret c'" if "connections ?s fd = Some c" for fd c
    using that write_loop_wire [of 16 "[Wrote 16]" 16 "''You are cleared!''"]
    by (auto simp: sample_timed_def Send_def SetSendBuffer_def SetBuf_def Write_def WriteNonBlocking_def IsNonBlocking_def
        sample_conn_def sample_sock_def split: if_splits)
  have order: "sorted_list_of_set (dom (connections ?s)) = [7]" by (simp add: sample_timed_def)
  have idle: "expired_fds ?s [7] [120001] = [7]"
    by (simp add: expired_fds_def expired_def idle_limit_def sample_conn_def sample_timed_def)
  have d: "delay 11000 (6, 0) = (5, 0)" by (simp add: delay_def t)
  have parts: "main_timer (proc sample_timed) = Some ((Channel 5)\<lparr>in_epoll := True\<rparr>)"
    "ch_fd ((Channel 5)\<lparr>in_epoll := True\<rparr>) \<noteq> ch_fd (acc_channel (acceptor (proc sample_timed)))"
    "timerNodeQueue (timers sample_timed) = [?t]" "checks sample_timed = [(\<lambda>m. sorted_list_of_set (dom m), [120001])]"
    by (simp_all add: sample_timed_def Channel_def)
  have due: "expiration ?t \<le> ms_of (6, 0)" "ms_of (6, 0) < expiration (restart (6, 0) ?t)"
    unfolding t by simp_all
  have "length (sorted_list_of_set (dom (connections ?s))) \<le> length [120001 :: 64 word]" unfolding order by simp
  from due_check_drops_idle_connections [where new_connect = None and spare = 9 and ?now3.0 = "(6, 0)" and later = "[]",
      OF first_min.timer_order_axioms sample_epoll sample_timed_ok parts(1-3) t(4,5) due
      parts(4) this]
  have round: "(\<And>fd c. connections ?s fd = Some c \<Longrightarrow> \<exists>c'. Send ''You are cleared!'' c = ret c') \<Longrightarrow>
    \<exists>T'. main_round map_ctl first_min None 9 [(6, 0), (6, 0), (6, 0)] (Some [(5, EPOLLIN)]) sample_timed = ret T'
      \<and> dropped 7 (the_server (proc T')) \<and> timerNodeQueue (timers T') = [restart (6, 0) ?t]
      \<and> armed (timers T') = Some (delay (expiration (restart (6, 0) ?t)) (6, 0))"
    unfolding order idle by (auto simp: Channel_def)
  obtain T' where "main_round map_ctl first_min None 9 [(6, 0), (6, 0), (6, 0)] (Some [(5, EPOLLIN)]) sample_timed = ret T'"
    "dropped 7 (the_server (proc T'))" "timerNodeQueue (timers T') = [restart (6, 0) ?t]"
    "armed (timers T') = Some (delay (expiration (restart (6, 0) ?t)) (6, 0))"
    using round sends by blast
  then show ?thesis by (intro exI [of _ T'] conjI) (simp_all only: list.map t d)
qed

section \<open>The descriptors of a server\<close>



section \<open>Two threads delete one connection\<close>

text \<open>
  C14. An open connection is deleted by two threads at once, as when its peer closes it just as the
  periodic check finds it idle, and both are given steps enough. If one of them has finished before the
  other has looked at the flag \<open>in_epoll_\<close>, both go through and the connection is closed and out of its
  reactor; in every other interleaving an \<open>epoll_ctl\<close> fails and ends the server.
\<close>

theorem double_deletion:
  assumes "strict_epoll ctl interest" and "conn_ok interest fd c k" and "interest k fd \<noteq> None"
    and "7 \<le> count_list bs True" and "7 \<le> count_list bs False"
  shows "if serial 0 0 bs then both_done interest fd (race ctl bs (Mark, Mark, c, k))
    else process_dies (race ctl bs (Mark, Mark, c, k))"
proof -
  have "shared interest fd 0 0 (c, k)"
    using assms(2,3) by (simp add: shared_def conn_ok_def agrees_def)
  then have "strict_epoll.apart interest fd Mark Mark (c, k)"
    by (simp add: strict_epoll.apart_def [OF assms(1)])
  from strict_epoll.race_apart [OF assms(1) this, of bs] show ?thesis
    using assms(4,5) by (simp add: steps_left_def)
qed

theorem double_deletion_witness:
  "process_dies (race map_ctl (replicate 3 True @ replicate 7 False @ replicate 4 True) (Mark, Mark, sample_conn, [7 \<mapsto> 0]))
   \<and> both_done (\<lambda>k. k) 7 (race map_ctl (replicate 7 True @ replicate 7 False) (Mark, Mark, sample_conn, [7 \<mapsto> 0]))"
proof -
  have "\<not> serial 0 0 (replicate 3 True @ replicate 7 False @ replicate 4 True)"
    "serial 0 0 (replicate 7 True @ replicate 7 False)"
    by (simp_all add: serial_def ahead_Cons eval_nat_numeral)
  then show ?thesis
    using double_deletion [OF map_strict.strict_epoll_axioms sample_conn_ok(2), of "replicate 3 True @ replicate 7 False @ replicate 4 True"]
      double_deletion [OF map_strict.strict_epoll_axioms sample_conn_ok(2), of "replicate 7 True @ replicate 7 False"]
    by (simp add: eval_nat_numeral)
qed

section \<open>A search in one thread, a change in another\<close>

text \<open>
  C11. \<open>searchElement\<close> takes no lock. Whatever insertions another thread makes meanwhile, and wherever
  between their writes its reads fall, a search never follows a null pointer, leaves an array or touches
  freed memory; what it reports as found is in the list; and as soon as no insertion is under way it comes
  to an end if it is left alone. The list stays well formed.
\<close>

theorem search_safe_among_insertions:
  assumes "sl_rep s0 xs" and "search_vs_inserts key s0 hs s r"
  shows "(\<forall>v. r \<noteq> Done v \<longrightarrow> (\<exists>r'. search_step key (visible hs s) r = ret r'))
    \<and> (\<exists>ys. sl_rep s ys \<and> (\<forall>v. r = Done (Some v) \<longrightarrow> key \<in> fst ` set ys))
    \<and> (hs = [] \<longrightarrow> (\<exists>v. reads key s r (Done v)))"
proof -
  have "\<exists>as. sl_chain s0 as" using assms(1) by (auto simp: sl_rep_def)
  from search_safe [OF assms(2) this] obtain as where sl: "sl_chain s as"
    and calm: "\<forall>t \<in> set (hs @ [s]). calm t" "successively grows (hs @ [s])" and ok: "search_ok key (visible hs s) r"
    by blast
  have "calm (visible hs s)" using calm(1) by (cases hs) (simp_all add: visible_def)
  then have step: "\<exists>r'. search_step key (visible hs s) r = ret r'" using search_step_ok [OF _ ok] by metis
  have found: "\<exists>ys. sl_rep s ys \<and> (\<forall>v. r = Done (Some v) \<longrightarrow> key \<in> fst ` set ys)"
    using sl search_found_ok [OF _ sl calm(2)] ok
    by (intro exI [of _ "contents (mem s) as"]) (auto simp: sl_rep_def contents_keys simp del: search_ok.simps)
  have "\<exists>v. reads key s r (Done v)" if "hs = []"
    using search_ends [OF sl, of key r] ok that by (simp add: visible_def)
  with step found show ?thesis by blast
qed

theorem search_safe_among_insertions_witness:
  "\<exists>ss s' r'. insertElement ''a'' ''b'' sample_list = ret (0, s')
     \<and> search_vs_inserts ''a'' sample_list (sample_list # ss) s' Enter
     \<and> search_step ''a'' (visible (sample_list # ss) s') Enter = ret r' \<and> (\<exists>ys. sl_rep s' ys)"
proof -
  obtain s' where s': "insertElement ''a'' ''b'' sample_list = ret (0, s')"
    using sl.insert_law [OF sample_rep, of 1 "''a''" "''b''"] sample_draws by (auto simp: numeral_2_eq_2)
  then obtain ss where ss: "insert_trace ''a'' ''b'' sample_list = ret (0, ss)" "last ss = s'"
    by (auto simp: insertElement_is_trace elim!: obind_eq_retE)
  have run: "search_vs_inserts ''a'' sample_list (sample_list # butlast ss) s' Enter"
    using search_vs_inserts.Call [OF search_vs_inserts.Begin ss(1)] ss(2) by simp
  from search_safe_among_insertions [OF sample_rep run] s' run show ?thesis by blast
qed

text \<open>
  C22. A deletion of the key that is searched for can come between two reads of the search: from every
  well-formed list that holds the key there is an interleaving in which \<open>searchElement\<close> reads the key of
  a node that \<open>deleteElement\<close> has just freed.
\<close>

theorem search_hit_by_delete:
  assumes "sl_rep s xs" and "key \<in> fst ` set xs"
  shows "\<exists>a s'. reads key s Enter (Check (Some a)) \<and> deleteElement key s = ret (True, s')
    \<and> sl_rep s' (del key xs) \<and> search_step key s' (Check (Some a)) = fail Bad_pointer"
  by (rule search_meets_delete [OF assms]) blast

lemma sample_with_key:
  fixes k v :: string
  obtains s where "sl_rep s [(k, v)]" and "draws_ready 1 s"
  using sl.insert_law [OF sample_rep, of 1 k v] sample_draws that by (auto simp: numeral_2_eq_2)

theorem search_hit_by_delete_witness:
  "\<exists>s a s'. sl_rep s [(''k'', ''v'')] \<and> deleteElement ''k'' s = ret (True, s')
     \<and> search_step ''k'' s' (Check (Some a)) = fail Bad_pointer"
proof (rule sample_with_key [of "''k''" "''v''"])
  fix s :: "(string, string) skiplist"
  assume s: "sl_rep s [(''k'', ''v'')]"
  then show ?thesis using search_hit_by_delete [OF s, of "''k''"] by auto
qed

text \<open>
  C23. A search can miss a key that is in the list all the time: from every well-formed list, when a new
  key is inserted right before the one that is searched for, after the search has gone down to the bottom
  and before it goes on, the search ends without having found anything.
\<close>

theorem search_misses_present_key:
  assumes "sl_rep s xs" and "\<exists>r \<in> set (rands s). even r"
    and "j < key" and "\<forall>k \<in> fst ` set xs. k < key \<longrightarrow> k < j" and "key \<in> fst ` set xs"
  shows "\<exists>c s'. reads key s Enter (Bottom c) \<and> insertElement j w s = ret (0, s')
    \<and> sl_rep s' (put j w xs) \<and> key \<in> fst ` set (put j w xs) \<and> reads key s' (Bottom c) (Done None)"
proof -
  have "key \<in> fst ` set (put j w xs)" using assms(5) by simp
  then show ?thesis by (rule_tac search_meets_insert [OF assms(1-4), of w]) blast
qed

theorem search_misses_present_key_witness:
  "\<exists>s c s'. sl_rep s [(''k'', ''v'')] \<and> insertElement ''j'' ''w'' s = ret (0, s')
     \<and> sl_rep s' [(''j'', ''w''), (''k'', ''v'')] \<and> reads ''k'' s' (Bottom c) (Done None)"
proof (rule sample_with_key [of "''k''" "''v''"])
  fix s :: "(string, string) skiplist"
  assume s: "sl_rep s [(''k'', ''v'')]" "draws_ready 1 s"
  have "\<exists>r \<in> set (rands s). even r" using s(2) by (intro draws_ready_even [of 0]) simp
  moreover have "''j'' < ''k''" by (simp add: list_less_def)
  ultimately show ?thesis
    using search_misses_present_key [OF s(1), of "''j''" "''k''" "''w''"] s(1) by fastforce
qed

end
