(* ===== verification/Shared_State.thy ===== *)
theory Shared_State
  imports Server_Programs
begin

text \<open>
  A state that the message callbacks of all reactors share, as the static database of
  \<open>src/storage/SkipListWorker.cpp\<close> is shared by the threads of \<open>example/kv_server.cpp\<close>. The library never
  touches it: its operations on a reactor leave the second component of \<open>lift_ctl\<close> alone. The locale
  \<open>shared_handler\<close> is the interface of a callback that executes what a connection has read as a command
  on the shared state; its lemmas say what an event and a round do to that state.
\<close>

section \<open>The library leaves the shared state alone\<close>

text \<open>\<open>unshared m x\<close>: if \<open>m\<close> returns, the shared state is still \<open>x\<close>.\<close>

definition unshared :: "('c \<times> 'k \<times> 'x) outcome \<Rightarrow> 'x \<Rightarrow> bool" where
  "unshared m x \<longleftrightarrow> (\<forall>c k x'. m = ret (c, k, x') \<longrightarrow> x' = x)"

named_theorems unshared

lemma unshared_ret [unshared]: "unshared (ret (c, k, x)) x"
  by (simp add: unshared_def)

lemma unshared_fail [unshared]: "unshared (fail f) x" "unshared None x"
  by (simp_all add: unshared_def)

lemma unshared_bind [unshared]:
  assumes "unshared m x" and "\<And>c k. unshared (f (c, k, x)) x"
  shows "unshared (obind m f) x"
  using assms by (force simp: unshared_def elim!: obind_eq_retE)

lemma unshared_UpdateChannel [unshared]: "unshared (UpdateChannel (lift_ctl ctl) ch (k, x)) x"
  by (auto simp: unshared_def UpdateChannel_def lift_ctl_def split: if_splits option.splits)

lemma unshared_channel [unshared]:
  "unshared (EnableRead (lift_ctl ctl) ch (k, x)) x" "unshared (UseET (lift_ctl ctl) ch (k, x)) x"
  "unshared (disableAll (lift_ctl ctl) ch (k, x)) x" "unshared (DeleteChannel (lift_ctl ctl) ch (k, x)) x"
  unfolding EnableRead_def UseET_def disableAll_def
  by (rule unshared_UpdateChannel)+ (auto simp: unshared_def DeleteChannel_def lift_ctl_def split: option.splits)

lemma unshared_deleteConnection [unshared]: "unshared (deleteConnection (lift_ctl ctl) (c, k, x)) x"
  unfolding deleteConnection_def by (auto simp: Let_def intro!: unshared)

lemma unshared_Close [unshared]: "unshared (Close (delete_cb (lift_ctl ctl) s) (c, k, x)) x"
  unfolding Close_def delete_cb_def by (auto intro!: unshared)

lemma unshared_read_loop [unshared]: "unshared (read_loop (delete_cb (lift_ctl ctl) s) rs (c, k, x)) x"
proof (induction rs arbitrary: c)
  case (Cons r rs)
  then show ?case by (cases r) (auto simp: Let_def intro!: unshared)
qed (simp add: unshared)

lemma unshared_Read [unshared]: "unshared (Read (delete_cb (lift_ctl ctl) s) (c, k, x)) x"
  unfolding Read_def ReadNonBlocking_def
  by (auto simp: Let_def intro!: unshared split: list.splits read_result.splits)

lemma unshared_Connection [unshared]: "unshared (Connection (lift_ctl ctl) spare so (k, x)) x"
  unfolding Connection_def by (cases "spare = -1") (auto intro!: unshared)

section \<open>The parts of an event\<close>

text \<open>The part of \<open>HandleEvent\<close> before the read callback: a hang-up without input closes.\<close>

lemma event_parts:
  assumes ei: "epoll_instance ctl interest" and ok: "server_ok interest s" and c: "connections s fd = Some c"
    and ev: "ev AND EPOLLOUT = 0"
  obtains c1 k1 where "conn_ok interest fd c1 k1"
    and "\<And>fd'. fd' \<noteq> fd \<Longrightarrow> interest k1 fd' = interest (sub_reactors s ! reactor s fd) fd'"
    and "(c1, k1) = (c\<lparr>conn_channel := SetReadyEvents ev (conn_channel c)\<rparr>, sub_reactors s ! reactor s fd)
      \<or> Close (delete_cb ctl s) (c\<lparr>conn_channel := SetReadyEvents ev (conn_channel c)\<rparr>, sub_reactors s ! reactor s fd)
          = ret (c1, k1)"
    and "\<And>f. connection_event ctl f fd ev s = obind
        (obind (if ev AND (EPOLLIN OR EPOLLPRI) \<noteq> 0 then obind (Read (delete_cb ctl s) (c1, k1)) f else ret (c1, k1))
          (\<lambda>ck. if ready_events (conn_channel (fst ck)) AND EPOLLOUT \<noteq> 0 then fail Bad_function else ret ck))
        (\<lambda>ck. ret (store fd (reactor s fd) ck s))"
proof -
  let ?k = "sub_reactors s ! reactor s fd" and ?c = "c\<lparr>conn_channel := SetReadyEvents ev (conn_channel c)\<rparr>"
  let ?close = "Close (delete_cb ctl s)"
  have good: "conn_ok interest fd ?c ?k"
    using ok c ev by (auto simp: server_ok_def conn_ok_def SetReadyEvents_def agrees_def never_writes_def isWriting_def)
  then have "conn_ok interest fd (?c\<lparr>conn_state := Closed\<rparr>) ?k" by simp
  from deleteConnection_ok [OF ei this] obtain c2 k2 where
    d: "deleteConnection ctl (?c\<lparr>conn_state := Closed\<rparr>, ?k) = ret (c2, k2)" "conn_ok interest fd c2 k2"
      "interest k2 = (interest ?k)(fd := None)" by blast
  have "sock_fd (conn_sock c) = fd" using good by (simp add: conn_ok_def)
  then have close: "?close (?c, ?k) = ret (c2, k2)" using d(1) c by (simp add: Close_def delete_cb_def)
  have ready: "ready_events (conn_channel c2) = ev"
    using d(1) by (auto simp: deleteConnection_def disableAll_def UpdateChannel_def DeleteChannel_def SetReadyEvents_def Let_def
        elim!: obind_eq_retE split: if_splits option.splits)
  let ?hup = "ev AND EPOLLHUP \<noteq> 0 \<and> \<not> (ev AND EPOLLIN \<noteq> 0)"
  define c1 k1 where "c1 = (if ?hup then c2 else ?c)" and "k1 = (if ?hup then k2 else ?k)"
  have r1: "ready_events (conn_channel c1) = ev" using ready by (simp add: c1_def SetReadyEvents_def)
  show thesis
  proof (rule that [of c1 k1])
    show "conn_ok interest fd c1 k1" using good d(2) by (simp add: c1_def k1_def)
    show "interest k1 fd' = interest ?k fd'" if "fd' \<noteq> fd" for fd' using that d(3) by (simp add: k1_def)
    show "(c1, k1) = (?c, ?k) \<or> ?close (?c, ?k) = ret (c1, k1)" using close by (simp add: c1_def k1_def)
    fix f
    have ev0: "ready_events (SetReadyEvents ev ch) = ev" for ch by (simp add: SetReadyEvents_def)
    show "connection_event ctl f fd ev s = obind
        (obind (if ev AND (EPOLLIN OR EPOLLPRI) \<noteq> 0 then obind (Read (delete_cb ctl s) (c1, k1)) f else ret (c1, k1))
          (\<lambda>ck. if ready_events (conn_channel (fst ck)) AND EPOLLOUT \<noteq> 0 then fail Bad_function else ret ck))
        (\<lambda>ck. ret (store fd (reactor s fd) ck s))"
      using c close ready
      by (cases "ev AND EPOLLHUP = 0"; cases "ev AND EPOLLIN = 0") (simp_all add: c1_def k1_def ev0 connection_event_def HandleEvent_def Business_def call_def Let_def
          case_prod_unfold cong: if_cong)
  qed
qed

section \<open>The commands an event brings\<close>

text \<open>
  What the message callback finds in the read buffer when an event reaches it on an open connection: the
  event is run with a callback that does nothing, and the connection is looked at.
\<close>

definition brought :: "'k epoll_ctl \<Rightarrow> int \<Rightarrow> 32 word \<Rightarrow> 'k server \<Rightarrow> string list" where
  "brought ctl fd ev s =
     (if ev AND (EPOLLIN OR EPOLLPRI) = 0 then []
      else
        (case connection_event ctl ret fd ev s of
           Some (Inr s') \<Rightarrow>
             (case connections s' fd of
                Some c \<Rightarrow> (if GetState c = Connected then [ReadBuffer c] else [])
              | None \<Rightarrow> [])
         | _ \<Rightarrow> []))"

fun served ::
  "'k epoll_ctl \<Rightarrow> ('k conn \<Rightarrow> 'k conn outcome) \<Rightarrow> (int \<times> 32 word) list \<Rightarrow> 'k server \<Rightarrow> string list" where
  "served ctl on_message [] s = []"
| "served ctl on_message ((fd, ev) # evs) s =
     brought ctl fd ev s @
     (case connection_event ctl on_message fd ev s of
        Some (Inr s') \<Rightarrow> served ctl on_message evs s'
      | _ \<Rightarrow> [])"

lemma served_Cons [simp]:
  "connection_event ctl on_message fd ev s = ret s' \<Longrightarrow>
    served ctl on_message ((fd, ev) # evs) s = brought ctl fd ev s @ served ctl on_message evs s'"
  by (simp add: ret_def)

declare served.simps(2) [simp del]

section \<open>The interface\<close>

text \<open>
  \<open>rep x a\<close> relates the shared state to an abstract one, \<open>exec cmd\<close> is what a command does to it. The law:
  on an open connection the callback executes what it finds in the read buffer, on a closed one nothing.
\<close>

locale shared_handler = epoll_instance ctl interest
  for ctl :: "'k epoll_ctl" and interest :: "'k \<Rightarrow> int \<rightharpoonup> 32 word" +
  fixes E :: "fault set"
    and on_message :: "('k \<times> 'x) conn \<Rightarrow> ('k \<times> 'x) conn outcome"
    and rep :: "'x \<Rightarrow> 'a \<Rightarrow> bool"
    and exec :: "string \<Rightarrow> 'a \<Rightarrow> 'a"
  assumes handler_law: "conn_ok interest fd c k \<Longrightarrow> rep x a \<Longrightarrow>
    yields E (\<lambda>(c', k', x'). conn_ok interest fd c' k' \<and> (\<forall>fd'. fd' \<noteq> fd \<longrightarrow> interest k' fd' = interest k fd')
        \<and> rep x' (if GetState c = Connected then exec (ReadBuffer c) a else a)) (on_message (c, k, x))"
begin

abbreviation watched :: "'k \<times> 'x \<Rightarrow> int \<rightharpoonup> 32 word" where
  "watched \<equiv> \<lambda>(k, x). interest k"

text \<open>\<open>moved r a s s'\<close>: the reactors but \<open>r\<close> are as they were, and \<open>r\<close> has the shared state at \<open>a\<close>.\<close>

definition moved :: "nat \<Rightarrow> 'a \<Rightarrow> ('k \<times> 'x) server \<Rightarrow> ('k \<times> 'x) server \<Rightarrow> bool" where
  "moved r a s s' \<longleftrightarrow> server_ok watched s' \<and> same_rest watched s s'
     \<and> (\<forall>i. i \<noteq> r \<longrightarrow> sub_reactors s' ! i = sub_reactors s ! i) \<and> rep (snd (sub_reactors s' ! r)) a"

lemma moved_trans: "moved r a s s1 \<Longrightarrow> moved r b s1 s2 \<Longrightarrow> moved r b s s2"
  unfolding moved_def using same_rest_trans [of watched s s1 s2] by simp

lemma event_moves:
  assumes ok: "server_ok watched s" and found: "connections s fd \<noteq> None" and ev: "ev AND EPOLLOUT = 0"
    and rep: "rep (snd (sub_reactors s ! reactor s fd)) a"
  shows "yields E (moved (reactor s fd) (fold exec (brought (lift_ctl ctl) fd ev s) a) s)
    (connection_event (lift_ctl ctl) on_message fd ev s)"
proof -
  let ?ctl = "lift_ctl ctl :: ('k \<times> 'x) epoll_ctl" and ?r = "reactor s fd"
  obtain c where c: "connections s fd = Some c" using found by blast
  obtain k x where k: "sub_reactors s ! ?r = (k, x)" by (cases "sub_reactors s ! ?r")
  have ei: "epoll_instance ?ctl watched" by (rule lift_epoll [OF epoll_instance_axioms])
  have r: "0 \<le> fd" "?r < length (sub_reactors s)" using ok c by (auto simp: server_ok_def)
  let ?c = "c\<lparr>conn_channel := SetReadyEvents ev (conn_channel c)\<rparr>"
  obtain c1 kx1 where 1: "conn_ok watched fd c1 kx1"
    "\<And>fd'. fd' \<noteq> fd \<Longrightarrow> watched kx1 fd' = watched (sub_reactors s ! ?r) fd'"
    "(c1, kx1) = (?c, sub_reactors s ! ?r) \<or> Close (delete_cb ?ctl s) (?c, sub_reactors s ! ?r) = ret (c1, kx1)"
    and event: "\<And>f. connection_event ?ctl f fd ev s = obind
        (obind (if ev AND (EPOLLIN OR EPOLLPRI) \<noteq> 0 then obind (Read (delete_cb ?ctl s) (c1, kx1)) f else ret (c1, kx1))
          (\<lambda>ck. if ready_events (conn_channel (fst ck)) AND EPOLLOUT \<noteq> 0 then fail Bad_function else ret ck))
        (\<lambda>ck. ret (store fd ?r ck s))"
    by (rule event_parts [OF ei ok c ev]) blast
  obtain k1 where kx1: "kx1 = (k1, x)"
    using 1(3) unshared_Close [of ctl s ?c k x] by (cases kx1) (auto simp: k unshared_def)
  text \<open>The state after the event, when the read callback leaves a good connection.\<close>
  have stored: "moved ?r b s (store fd ?r (c', k', x') s)"
    if "conn_ok interest fd c' k'" "\<And>fd'. fd' \<noteq> fd \<Longrightarrow> interest k' fd' = interest k fd'" "rep x' b" for c' k' x' b
  proof -
    have c': "conn_ok watched fd c' (k', x')" using that(1) by (simp add: conn_ok_clock)
    have fr: "watched (k', x') fd' = watched (sub_reactors s ! ?r) fd'" if "fd' \<noteq> fd" for fd'
      using \<open>\<And>fd'. fd' \<noteq> fd \<Longrightarrow> interest k' fd' = interest k fd'\<close> [OF that] by (simp add: k)
    have "server_ok watched (store fd ?r (c', k', x') s)"
      by (rule server_ok_store [OF ok r(1) refl r(2) c']) (rule fr)
    moreover have "same_rest watched s (store fd ?r (c', k', x') s)"
      by (rule same_rest_store [where interest = watched, OF found]) (rule fr)
    ultimately show ?thesis using that(3) r(2) by (simp add: moved_def)
  qed
  show ?thesis
  proof (cases "ev AND (EPOLLIN OR EPOLLPRI) = 0")
    case True
    have "conn_ok interest fd c1 k1" "\<And>fd'. fd' \<noteq> fd \<Longrightarrow> interest k1 fd' = interest k fd'"
      using 1(1,2) by (auto simp: kx1 k conn_ok_clock)
    then show ?thesis
      using stored [of c1 k1 x a] rep True by (simp add: event kx1 k brought_def conn_ok_def)
  next
    case False
    let ?read = "Read (delete_cb ?ctl s) (c1, kx1)"
    let ?output = "\<lambda>ck :: ('k \<times> 'x) conn. if ready_events (conn_channel (fst ck)) AND EPOLLOUT \<noteq> 0 then fail Bad_function else ret ck"
    have "safe_step {} watched fd kx1 ?read" by (rule safe_step_Read [OF ei found 1(1)])
    then consider "?read = None" | c2 kx2 where "?read = ret (c2, kx2)" "conn_ok watched fd c2 kx2"
        "\<forall>fd'. fd' \<noteq> fd \<longrightarrow> watched kx2 fd' = watched kx1 fd'"
      by (auto simp: safe_step_def)
    then show ?thesis
    proof cases
      case 1
      then show ?thesis using False by (simp add: event)
    next
      case (2 c2 kx2)
      obtain k2 where kx2: "kx2 = (k2, x)"
        using 2(1) unshared_Read [of ctl s c1 k1 x] by (cases kx2) (auto simp: kx1 unshared_def)
      have c2: "conn_ok interest fd c2 k2" "\<And>fd'. fd' \<noteq> fd \<Longrightarrow> interest k2 fd' = interest k fd'"
        using 2(2,3) 1(2) by (auto simp: kx1 kx2 k conn_ok_clock)
      have "connection_event ?ctl ret fd ev s = ret (store fd ?r (c2, kx2) s)"
        using False 2(1,2) by (simp add: event conn_ok_def)
      then have brought: "brought ?ctl fd ev s = (if GetState c2 = Connected then [ReadBuffer c2] else [])"
        using False by (simp add: brought_def ret_def kx2)
      have "yields E (moved ?r (fold exec (brought ?ctl fd ev s) a) s)
          (obind (obind (on_message (c2, k2, x)) ?output) (\<lambda>ck. ret (store fd ?r ck s)))"
        unfolding obind_assoc
      proof (rule yields_bind [OF handler_law [OF c2(1)]])
        show "rep x a" using rep by (simp add: k)
        fix y
        assume y: "case y of (c', k', x') \<Rightarrow> conn_ok interest fd c' k' \<and> (\<forall>fd'. fd' \<noteq> fd \<longrightarrow> interest k' fd' = interest k2 fd')
          \<and> rep x' (if GetState c2 = Connected then exec (ReadBuffer c2) a else a)"
        obtain c' k' x' where y': "y = (c', k', x')" by (cases y)
        have "moved ?r (if GetState c2 = Connected then exec (ReadBuffer c2) a else a) s (store fd ?r y s)"
          unfolding y' using y y' c2(2) by (intro stored) auto
        moreover have "?output y = ret y" using y y' by (simp add: conn_ok_def)
        ultimately show "yields E (moved ?r (fold exec (brought ?ctl fd ev s) a) s)
            (obind (?output y) (\<lambda>ck. ret (store fd ?r ck s)))"
          by (auto simp: brought split: if_splits)
      qed
      then show ?thesis using False 2(1) by (simp add: event kx2)
    qed
  qed
qed

text \<open>Events of one reactor in turn, and so a round of its loop: the commands are executed one after the other.\<close>

lemma turns_move:
  assumes "server_ok watched s" and "fst ` set evs \<subseteq> dom (connections s)"
    and "\<forall>(fd, ev) \<in> set evs. ev AND EPOLLOUT = 0 \<and> reactor s fd = r"
    and "rep (snd (sub_reactors s ! r)) a"
  shows "yields E (moved r (fold exec (served (lift_ctl ctl) on_message evs s) a) s)
    (in_turn (lift_ctl ctl) on_message evs s)"
  using assms
proof (induction evs arbitrary: s a)
  case (Cons e evs)
  obtain fd ev where e: "e = (fd, ev)" by (cases e)
  have fd: "connections s fd \<noteq> None" "ev AND EPOLLOUT = 0" "reactor s fd = r"
    using Cons.prems(2,3) e by auto
  let ?b = "fold exec (brought (lift_ctl ctl) fd ev s) a"
  show ?case
    unfolding e in_turn.simps
  proof (rule yields_bind [OF event_moves [OF Cons.prems(1) fd(1,2)]])
    fix s1
    assume run: "connection_event (lift_ctl ctl) on_message fd ev s = ret s1"
      and s1: "moved (reactor s fd) ?b s s1"
    have dom: "dom (connections s1) = dom (connections s)" "\<And>fd. reactor s1 fd = reactor s fd"
      using s1 by (simp_all add: moved_def same_rest_def reactor_def)
    have "yields E (moved r (fold exec (served (lift_ctl ctl) on_message evs s1) ?b) s1)
        (in_turn (lift_ctl ctl) on_message evs s1)"
      by (rule Cons.IH) (use s1 Cons.prems(2,3) dom fd(3) in \<open>auto simp: moved_def\<close>)
    then show "yields E (moved r (fold exec (served (lift_ctl ctl) on_message ((fd, ev) # evs) s) a) s)
        (in_turn (lift_ctl ctl) on_message evs s1)"
      using s1 fd(3) by (auto simp: run elim!: yields_mono intro: moved_trans)
  qed (use Cons.prems(4) fd(3) in simp)
qed (simp add: moved_def)

lemma round_moves:
  assumes "server_ok watched s" and "fst ` set evs \<subseteq> dom (connections s)" and "distinct (map fst evs)"
    and "\<forall>(fd, ev) \<in> set evs. ev AND EPOLLOUT = 0 \<and> reactor s fd = r"
    and "rep (snd (sub_reactors s ! r)) a"
  shows "yields E (moved r (fold exec (served (lift_ctl ctl) on_message evs s) a) s)
    (loop_round (lift_ctl ctl) on_message (Some evs) s)"
  using turns_move [OF assms(1,2,4,5)] round_in_turn [OF assms(3,2)] by simp

end

end
