(* ===== verification/Shared_Process.thy ===== *)
theory Shared_Process
  imports Shared_State Timed_Server
begin

text \<open>
  A server program whose message callbacks share a state, as a process: the rounds of the main reactor and
  of the sub reactors over \<open>src/network/Server.cpp\<close>. Every reactor carries a view of the shared state; after
  a round of a reactor \<open>share\<close> gives its view to all, so that the views are always equal. (The main reactor
  has a component for it too, which nothing reads.) The steps carry the commands they serve, and a run its
  history. A round is one step: how a search overlaps with an insertion or a deletion of another thread is
  the subject of theory \<open>SkipList_Threads\<close>.
\<close>

section \<open>The main reactor leaves the shared state alone\<close>

abbreviation views :: "('k \<times> 'x) server \<Rightarrow> 'x list" where
  "views s \<equiv> map snd (sub_reactors s)"

lemma map_snd_update: "snd y = snd (xs ! r) \<Longrightarrow> map snd (xs[r := y]) = map snd xs"
  by (cases "r < length xs") (simp_all add: map_update list_update_same_conv list_update_beyond)

lemma stored_views:
  assumes "obind m (\<lambda>ck. ret (store fd r ck s)) = ret s'" and "unshared m (snd (sub_reactors s ! r))"
  shows "views s' = views s"
  using assms by (auto simp: unshared_def store_def map_snd_update elim!: obind_eq_retE)

lemma DeleteConnection_views:
  assumes "DeleteConnection (lift_ctl ctl) fd s = ret s'"
  shows "views s' = views s"
proof (cases "connections s fd")
  case (Some c)
  obtain k x where "sub_reactors s ! reactor s fd = (k, x)" by (cases "sub_reactors s ! reactor s fd")
  then show ?thesis
    using assms Some stored_views [OF _ , of "deleteConnection (lift_ctl ctl) (c, k, x)"] unshared_deleteConnection [of ctl c k x]
    by (simp add: DeleteConnection_def Let_def)
qed (use assms in \<open>simp add: DeleteConnection_def\<close>)

lemma delete_all_views: "delete_all (lift_ctl ctl) fds s = ret s' \<Longrightarrow> views s' = views s"
  by (induction fds arbitrary: s) (auto elim!: obind_eq_retE dest!: DeleteConnection_views)

lemma check_loop_views: "check_loop (lift_ctl ctl) fds nows s = ret (s', dead) \<Longrightarrow> views s' = views s"
proof (induction fds arbitrary: nows s dead)
  case (Cons fd fds)
  obtain now nows' where nows: "nows = now # nows'" using Cons.prems by (cases nows) simp_all
  obtain k x where k: "sub_reactors s ! reactor s fd = (k, x)" by (cases "sub_reactors s ! reactor s fd")
  obtain c where c: "connections s fd = Some c" using Cons.prems nows by (cases "connections s fd") simp_all
  show ?case
  proof (cases "now - conn_context c > idle_limit")
    case True
    then obtain c' ck dead' where run: "deleteConnection (lift_ctl ctl) (c', k, x) = ret ck"
      "check_loop (lift_ctl ctl) fds nows' (store fd (reactor s fd) ck s) = ret (s', dead')"
      using Cons.prems c k nows by (auto simp: Let_def elim!: obind_eq_retE)
    then have "obind (deleteConnection (lift_ctl ctl) (c', k, x)) (\<lambda>ck. ret (store fd (reactor s fd) ck s))
        = ret (store fd (reactor s fd) ck s)" by simp
    from stored_views [OF this] have "views (store fd (reactor s fd) ck s) = views s"
      by (simp add: k unshared_deleteConnection)
    then show ?thesis using Cons.IH [OF run(2)] by simp
  next
    case False
    then show ?thesis using Cons.prems Cons.IH c nows by simp
  qed
qed simp

lemma CheckActiveConnection_views: "CheckActiveConnection (lift_ctl ctl) order nows s = ret s' \<Longrightarrow> views s' = views s"
  by (auto simp: CheckActiveConnection_def elim!: obind_eq_retE dest!: check_loop_views delete_all_views)

text \<open>A callback for new connections that leaves the shared state alone.\<close>

definition quiet_connect :: "(('k \<times> 'x) conn \<Rightarrow> ('k \<times> 'x) conn outcome) option \<Rightarrow> bool" where
  "quiet_connect new_connect \<longleftrightarrow> (\<forall>cb c k x. new_connect = Some cb \<longrightarrow> unshared (cb (c, k, x)) x)"

lemma NewConnection_views:
  assumes "NewConnection (lift_ctl ctl) new_connect spare so s = ret s'" and "quiet_connect new_connect"
  shows "views s' = views s"
proof -
  let ?r = "reactor s (sock_fd so)"
  obtain k x where k: "sub_reactors s ! ?r = (k, x)" by (cases "sub_reactors s ! ?r")
  let ?m = "obind (Connection (lift_ctl ctl) spare so (k, x)) (\<lambda>ck. case new_connect of None \<Rightarrow> ret ck | Some cb \<Rightarrow> cb ck)"
  have run: "obind ?m (\<lambda>ck. ret (store (sock_fd so) ?r ck s)) = ret s'"
    using assms(1) k by (auto simp: NewConnection_def Let_def obind_assoc elim!: obind_eq_retE split: if_splits)
  have "unshared ?m x"
    using assms(2) by (auto simp: quiet_connect_def intro!: unshared split: option.splits)
  with stored_views [OF run] show ?thesis by (simp add: k)
qed

lemma acceptor_event_views:
  assumes "acceptor_event (lift_ctl ctl) new_connect spare ev (a, s) = ret (a', s')" and "quiet_connect new_connect"
  shows "views s' = views s"
  using assms NewConnection_views [OF _ assms(2)]
  by (auto simp: acceptor_event_def HandleEvent_def call_def AcceptConnection_def Let_def
      elim!: obind_eq_retE split: if_splits)

text \<open>The due callbacks of the timer queue are checks.\<close>

lemma run_loop_keeps:
  assumes "run_loop pick run nows q x = ret (q', x', nows')" and "P x"
    and "\<And>cb x x'. run cb x = ret x' \<Longrightarrow> P x \<Longrightarrow> P x'"
  shows "P x'"
  using assms
proof (induction pick run nows q x rule: run_loop.induct)
  case (1 pick run nows q x)
  let ?t = "q ! pick q"
  show ?case
  proof (cases "q = []")
    case True
    then show ?thesis using "1.prems" by (simp add: run_loop.simps [of _ _ _ "[]"])
  next
    case False
    then have in_q: "pick q < length q"
      using "1.prems"(1) by (auto simp: run_loop.simps [of pick run nows q] split: if_splits)
    show ?thesis
    proof (cases "deleted ?t")
      case True
      then show ?thesis
        using "1.IH"(1) [OF False _ refl True _ "1.prems"(2,3)] "1.prems"(1) in_q False
        by (simp add: run_loop.simps [of pick run nows q])
    next
      case live: False
      then obtain now nows1 where nows: "nows = now # nows1"
        using "1.prems"(1) in_q False by (cases nows) (simp_all add: run_loop.simps [of pick run _ q])
      obtain valid u where u: "isValid now ?t = (valid, u)" by (cases "isValid now ?t") auto
      show ?thesis
      proof (cases valid)
        case True
        then show ?thesis
          using "1.prems" nows in_q False live u by (simp add: run_loop.simps [of pick run "now # nows1" q])
      next
        case due: False
        let ?q = "if repeating u then snd (insert_timer pick (restart now u) (pop pick q)) else pop pick q"
        obtain x1 where x1: "run (callback u) x = ret x1" "run_loop pick run nows1 ?q x1 = ret (q', x', nows')"
          using "1.prems"(1) nows in_q False live u due
          by (cases "repeating u") (auto simp: run_loop.simps [of pick run "now # nows1" q] Let_def elim!: obind_eq_retE)
        have "P x1" by (rule "1.prems"(3) [OF x1(1) "1.prems"(2)])
        then show ?thesis
          using "1.IH"(2) [OF False _ refl live nows refl u [symmetric] due refl _ _ _ "1.prems"(3), of x1]
            "1.IH"(3) [OF False _ refl live nows refl u [symmetric] due refl _ _ _ "1.prems"(3), of x1] x1(2) in_q
          by (cases "repeating u") simp_all
      qed
    qed
  qed
qed

lemma timer_event_views:
  assumes "timer_event (lift_ctl ctl) pick nows ch T = ret T'"
  shows "views (the_server (proc T')) = views (the_server (proc T))"
proof -
  let ?P = "\<lambda>(s, ins :: (table_order \<times> 64 word list) list). views s = views (the_server (proc T))"
  have check: "?P y'" if "run_check (lift_ctl ctl) cb y = ret y'" "?P y" for cb y y'
    using that by (auto simp: run_check_def elim!: obind_eq_retE split: if_splits list.splits
        dest!: CheckActiveConnection_views)
  have "?P y'" if "handleRead_run pick (run_check (lift_ctl ctl)) nows (tq, y) = ret (tq', y')" "?P y" for tq y tq' y'
    using that run_loop_keeps [of pick "run_check (lift_ctl ctl)" nows "timerNodeQueue tq" y, where P = ?P, OF _ that(2) check]
    by (auto simp: handleRead_run_def Let_def elim!: obind_eq_retE split: if_splits list.splits)
  then show ?thesis
    using assms
    by (fastforce simp: timer_event_def HandleEvent_def call_def elim!: obind_eq_retE split: if_splits)
qed

lemma main_ready_server: "main_ready fd ev T = ret T' \<Longrightarrow> the_server (proc T') = the_server (proc T)"
  by (auto simp: main_ready_def Let_def split: if_splits option.splits)

lemma main_poll_server: "main_poll evs T = ret T' \<Longrightarrow> the_server (proc T') = the_server (proc T)"
  by (induction evs T rule: main_poll.induct) (auto elim!: obind_eq_retE dest: main_ready_server)

lemma main_handle_views:
  assumes "main_handle (lift_ctl ctl) pick new_connect spare nows fd T = ret T'" and "quiet_connect new_connect"
  shows "views (the_server (proc T')) = views (the_server (proc T))"
  using assms
  by (auto simp: main_handle_def Let_def elim!: obind_eq_retE split: if_splits option.splits
      dest!: acceptor_event_views [OF _ assms(2)] timer_event_views)

lemma main_handle_all_views:
  assumes "main_handle_all (lift_ctl ctl) pick new_connect spare nows fds T = ret T'" and "quiet_connect new_connect"
  shows "views (the_server (proc T')) = views (the_server (proc T))"
  using assms(1)
  by (induction fds arbitrary: T) (auto elim!: obind_eq_retE dest: main_handle_views [OF _ assms(2)])

lemma main_round_views:
  assumes "main_round (lift_ctl ctl) pick new_connect spare nows nfds T = ret T'" and "quiet_connect new_connect"
  shows "views (the_server (proc T')) = views (the_server (proc T))"
  using assms(1)
  by (auto simp: main_round_def elim!: obind_eq_retE split: option.splits
      dest!: main_poll_server main_handle_all_views [OF _ assms(2)])

section \<open>Steps on one shared state\<close>

definition share :: "nat \<Rightarrow> ('k \<times> 'x) server \<Rightarrow> ('k \<times> 'x) server" where
  "share r s = s\<lparr>sub_reactors := map (\<lambda>(k, _). (k, snd (sub_reactors s ! r))) (sub_reactors s)\<rparr>"

text \<open>
  A round of the main reactor serves no command; a round of sub reactor \<open>r\<close> serves those its events bring,
  and what it has made of the shared state is what all reactors see from then on.
\<close>

inductive shared_work ::
  "'k epoll_ctl \<Rightarrow> ('k \<Rightarrow> int \<rightharpoonup> 32 word) \<Rightarrow> queue_top \<Rightarrow> (('k \<times> 'x) conn \<Rightarrow> ('k \<times> 'x) conn outcome)
    \<Rightarrow> (('k \<times> 'x) conn \<Rightarrow> ('k \<times> 'x) conn outcome) option \<Rightarrow> ('k \<times> 'x) timed \<Rightarrow> string list \<Rightarrow> ('k \<times> 'x) timed outcome \<Rightarrow> bool"
  for ctl interest pick on_message new_connect T where
  Main: "kernel_main (\<lambda>(k, x). interest k) T evs \<Longrightarrow> fresh_socket (\<lambda>(k, x). interest k) (proc T) \<Longrightarrow>
    \<forall>(order, _) \<in> set ins. walks_table order \<Longrightarrow>
    shared_work ctl interest pick on_message new_connect T []
      (main_round (lift_ctl ctl) pick new_connect spare nows (Some evs) (T\<lparr>checks := ins\<rparr>))"
| Sub: "kernel_reports (\<lambda>(k, x). interest k) (proc T) r evs \<Longrightarrow>
    shared_work ctl interest pick on_message new_connect T (served (lift_ctl ctl) on_message evs (the_server (proc T)))
      (obind (loop_round (lift_ctl ctl) on_message (Some evs) (the_server (proc T)))
         (\<lambda>s. ret (T\<lparr>proc := (proc T)\<lparr>the_server := share r s\<rparr>\<rparr>)))"

text \<open>A run, with the commands it has served, oldest first.\<close>

inductive shared_run ::
  "'k epoll_ctl \<Rightarrow> ('k \<Rightarrow> int \<rightharpoonup> 32 word) \<Rightarrow> queue_top \<Rightarrow> (('k \<times> 'x) conn \<Rightarrow> ('k \<times> 'x) conn outcome)
    \<Rightarrow> (('k \<times> 'x) conn \<Rightarrow> ('k \<times> 'x) conn outcome) option \<Rightarrow> ('k \<times> 'x) timed \<Rightarrow> string list \<Rightarrow> ('k \<times> 'x) timed \<Rightarrow> bool"
  for ctl interest pick on_message new_connect T0 where
  start: "shared_run ctl interest pick on_message new_connect T0 [] T0"
| step: "shared_run ctl interest pick on_message new_connect T0 cmds T \<Longrightarrow>
    shared_work ctl interest pick on_message new_connect T new (ret T') \<Longrightarrow>
    shared_run ctl interest pick on_message new_connect T0 (cmds @ new) T'"

text \<open>All reactors see the same state.\<close>

definition one_view :: "'x \<Rightarrow> ('k \<times> 'x) timed \<Rightarrow> bool" where
  "one_view x T \<longleftrightarrow> set (views (the_server (proc T))) \<subseteq> {x}"

lemma share_reactor:
  "i < length (sub_reactors s) \<Longrightarrow> sub_reactors (share r s) ! i = (fst (sub_reactors s ! i), snd (sub_reactors s ! r))"
  by (simp add: share_def case_prod_unfold)

lemma share_simps [simp]:
  "connections (share r s) = connections s" "length (sub_reactors (share r s)) = length (sub_reactors s)"
  "reactor (share r s) fd = reactor s fd"
  by (simp_all add: share_def reactor_def)

lemma process_ok_share:
  assumes "process_ok (\<lambda>(k, x). interest k) (p\<lparr>the_server := s\<rparr>)"
  shows "process_ok (\<lambda>(k, x). interest k) (p\<lparr>the_server := share r s\<rparr>)"
proof -
  have "sub_reactors (share r s) \<noteq> []" if "sub_reactors s \<noteq> []"
    using that by (simp add: share_def)
  then show ?thesis
    using assms
    by (auto simp: process_ok_def server_ok_def registered_def owned_def is_timer_def conn_ok_def agrees_def share_reactor
        case_prod_unfold)
qed

section \<open>A server program over a shared state\<close>

locale shared_program = shared_handler ctl interest E on_message rep exec + timer_order pick
  for ctl :: "'k epoll_ctl" and interest :: "'k \<Rightarrow> int \<rightharpoonup> 32 word" and E :: "fault set"
    and on_message :: "('k \<times> 'x) conn \<Rightarrow> ('k \<times> 'x) conn outcome"
    and rep :: "'x \<Rightarrow> 'a \<Rightarrow> bool" and exec :: "string \<Rightarrow> 'a \<Rightarrow> 'a" and pick :: queue_top +
  fixes new_connect :: "(('k \<times> 'x) conn \<Rightarrow> ('k \<times> 'x) conn outcome) option"
  assumes new_connect_law: "benign_connect (\<lambda>(k, x). interest k) new_connect"
    and quiet_law: "quiet_connect new_connect"
begin

abbreviation work :: "('k \<times> 'x) timed \<Rightarrow> string list \<Rightarrow> ('k \<times> 'x) timed outcome \<Rightarrow> bool" where
  "work \<equiv> shared_work ctl interest pick on_message new_connect"

text \<open>The main reactor does not call the message callback: its rounds are those of any timed program.\<close>

lemma main_program: "timed_program (lift_ctl ctl) watched {} ret new_connect pick"
  by (intro timed_program.intro server_program.intro message_handler.intro message_handler_axioms.intro
      server_program_axioms.intro lift_epoll epoll_instance_axioms timer_order_axioms new_connect_law safe_step_ret)

definition shared_ok :: "'a \<Rightarrow> ('k \<times> 'x) timed \<Rightarrow> bool" where
  "shared_ok a T \<longleftrightarrow> timed_ok watched T \<and> (\<exists>x. one_view x T \<and> rep x a)"

text \<open>Every step keeps the invariant and executes the commands it serves, one after the other.\<close>

lemma work_safe:
  assumes ok: "shared_ok a T" and "work T cmds m"
  shows "yields (E \<union> {Exit ''socket accept error'', Exit ''socket create error''})
    (\<lambda>T'. shared_ok (fold exec cmds a) T' \<and> dom (connections (the_server (proc T))) \<subseteq> dom (connections (the_server (proc T')))) m"
  using assms(2)
proof cases
  case (Main evs ins spare nows)
  have T: "timed_ok watched T" using ok by (simp add: shared_ok_def)
  show ?thesis
    unfolding Main(1,2)
  proof (rule yields_mono [OF timed_program.main_round_yields [OF main_program T Main(3-5)]])
    fix T'
    assume run: "main_round (lift_ctl ctl) pick new_connect spare nows (Some evs) (T\<lparr>checks := ins\<rparr>) = ret T'"
      and T': "timed_program.keeps watched T T'"
    have "views (the_server (proc T')) = views (the_server (proc T))"
      using main_round_views [OF run quiet_law] by simp
    then have "shared_ok a T'"
      using ok T' by (simp add: shared_ok_def one_view_def timed_program.keeps_def [OF main_program])
    then show "shared_ok (fold exec [] a) T' \<and> dom (connections (the_server (proc T))) \<subseteq> dom (connections (the_server (proc T')))"
      using T' by (simp add: timed_program.keeps_def [OF main_program])
  qed simp
next
  case (Sub r evs)
  let ?s = "the_server (proc T)" and ?cmds = "served (lift_ctl ctl) on_message evs (the_server (proc T))"
  have p: "process_ok watched (proc T)" "server_ok watched ?s" using ok by (simp_all add: shared_ok_def timed_ok_def process_ok_def)
  have r: "r < length (sub_reactors ?s)" "distinct (map fst evs)"
    "\<forall>(fd, ev) \<in> set evs. fd \<in> dom (connections ?s) \<and> ev AND EPOLLOUT = 0 \<and> reactor ?s fd = r"
    using Sub(3) p(1) by (fastforce simp: kernel_reports_def process_ok_def registered_def owned_def)+
  obtain x where x: "one_view x T" "rep x a" using ok by (auto simp: shared_ok_def)
  then have "rep (snd (sub_reactors ?s ! r)) a" using r(1) by (fastforce simp: one_view_def in_set_conv_nth)
  then have round: "yields E (moved r (fold exec ?cmds a) ?s) (loop_round (lift_ctl ctl) on_message (Some evs) ?s)"
    using p(2) r by (intro round_moves) auto
  show ?thesis
    unfolding Sub(1,2)
  proof (rule yields_bind [OF yields_mono [OF round]])
    fix s assume s: "moved r (fold exec ?cmds a) ?s s"
    then have "process_ok watched ((proc T)\<lparr>the_server := share r s\<rparr>)"
      by (intro process_ok_share process_ok_rest [OF p(1)]) (simp_all add: moved_def)
    then have "timed_ok watched (T\<lparr>proc := (proc T)\<lparr>the_server := share r s\<rparr>\<rparr>)"
      using ok by (simp add: shared_ok_def timed_ok_def)
    moreover have "one_view (snd (sub_reactors s ! r)) (T\<lparr>proc := (proc T)\<lparr>the_server := share r s\<rparr>\<rparr>)"
      by (auto simp: one_view_def share_def)
    ultimately show "yields (E \<union> {Exit ''socket accept error'', Exit ''socket create error''})
        (\<lambda>T'. shared_ok (fold exec ?cmds a) T' \<and> dom (connections ?s) \<subseteq> dom (connections (the_server (proc T'))))
        (ret (T\<lparr>proc := (proc T)\<lparr>the_server := share r s\<rparr>\<rparr>))"
      using s by (auto simp: shared_ok_def moved_def same_rest_def)
  qed auto
qed

text \<open>Along a run the shared state is what the whole history has made of it.\<close>

lemma run_ok:
  assumes "shared_run ctl interest pick on_message new_connect T0 cmds T" and "shared_ok a T0"
  shows "shared_ok (fold exec cmds a) T"
  using assms
proof induction
  case (step cmds T new T')
  then show ?case using work_safe [of "fold exec cmds a" T new "ret T'"] by simp
qed simp

end

end
