(* ===== verification/Kv_Process.thy ===== *)
theory Kv_Process
  imports Shared_Process Server_Mains
begin

text \<open>
  The storage server from its \<open>main\<close> on (\<open>example/kv_server.cpp\<close>): one static database behind the callbacks
  of all reactors. The command worker fulfils the contract of theory \<open>Shared_State\<close>, with the interpreter
  \<open>abs_cmd\<close> as its abstract meaning; so the database of a running server is what the commands of its
  history, executed one after the other, have made of it.
\<close>

section \<open>The worker as a shared state\<close>

lemma session_state_fold: "session_state cmds a = fold (\<lambda>cmd a. snd (abs_cmd cmd a)) cmds a"
  by (induction cmds arbitrary: a) simp_all

lemma session_state_append [simp]: "session_state (cmds @ cmds') a = session_state cmds' (session_state cmds a)"
  by (simp add: session_state_fold)

lemma kv_law:
  assumes "conn_ok interest fd c k" and "worker_rep w a"
  shows "yields {Empty_vector} (\<lambda>(c', k', w'). conn_ok interest fd c' k' \<and> (\<forall>fd'. fd' \<noteq> fd \<longrightarrow> interest k' fd' = interest k fd')
      \<and> worker_rep w' (if GetState c = Connected then snd (abs_cmd (ReadBuffer c) a) else a)) (kv_message (c, k, w))"
proof (cases "GetState c = Connected")
  case True
  have send: "yields {Empty_vector} (\<lambda>(c', k', w'). conn_ok interest fd c' k' \<and> (\<forall>fd'. fd' \<noteq> fd \<longrightarrow> interest k' fd' = interest k fd')
      \<and> worker_rep w' b) (obind (Send r c) (\<lambda>c. ret (c, k, w')))" if "worker_rep w' b" for r w' b
    by (rule yields_bind [OF Send_returns]) (use that conn_ok_send [OF assms(1)] in simp)
  have "yields {Empty_vector} (\<lambda>(c', k', w'). conn_ok interest fd c' k' \<and> (\<forall>fd'. fd' \<noteq> fd \<longrightarrow> interest k' fd' = interest k fd')
      \<and> worker_rep w' (snd (abs_cmd (ReadBuffer c) a)))
      (obind (dealWithCmd (ReadBuffer c) w) (\<lambda>(res, w). obind (Send res c) (\<lambda>c. ret (c, k, w))))"
    by (rule yields_bind [OF deal_yields [OF assms(2)]]) (auto intro: send)
  then show ?thesis using True by (simp add: kv_message_def)
next
  case False
  then show ?thesis using assms by (simp add: kv_message_def)
qed

lemma kv_program:
  assumes "epoll_instance ctl interest" and "timer_order pick"
  shows "shared_program ctl interest {Empty_vector} kv_message worker_rep (\<lambda>cmd a. snd (abs_cmd cmd a)) pick
    (Some print_connection)"
  by (intro shared_program.intro shared_handler.intro shared_handler_axioms.intro shared_program_axioms.intro assms kv_law)
    (auto simp: benign_connect_def quiet_connect_def print_connection_def same_wiring_def unshared)

interpretation kv: shared_program map_ctl "\<lambda>k. k" "{Empty_vector}" kv_message worker_rep
  "\<lambda>cmd a. snd (abs_cmd cmd a)" first_min "Some print_connection"
  by (rule kv_program) unfold_locales

section \<open>From main on\<close>

lemma unshared_TimerQueue: "unshared (TimerQueue_channel (lift_ctl ctl) timerfd (k, x)) x"
  unfolding TimerQueue_channel_def by (auto intro!: unshared)

lemma unshared_EventLoop: "unshared (EventLoop (lift_ctl ctl) fds (k, x)) x"
  by (cases "fst fds = -1") (simp_all add: EventLoop_def Epoll_def unshared unshared_TimerQueue)

lemma make_reactors_views: "make_reactors (lift_ctl ctl) fds (k, x) = ret ls \<Longrightarrow> set (map (snd \<circ> snd) ls) \<subseteq> {x}"
proof (induction fds arbitrary: ls)
  case (Cons fd fds)
  then show ?case using unshared_EventLoop [of ctl fd k x] by (fastforce simp: unshared_def elim!: obind_eq_retE)
qed simp

lemma new_Server_views:
  assumes "new_Server (lift_ctl ctl) env = ret p"
  shows "set (views (the_server p)) \<subseteq> {snd (empty_epoll env)}"
proof -
  obtain k x where "empty_epoll env = (k, x)" by (cases "empty_epoll env")
  then show ?thesis
    using assms make_reactors_views [of ctl "sub_fds env" k x]
    by (fastforce simp: new_Server_def Server_def elim!: obind_eq_retE)
qed

lemma kv_main_views:
  assumes "kv_main (lift_ctl ctl) env = ret (cbs, T)"
  shows "one_view (snd (empty_epoll env)) T"
  using assms
  by (fastforce simp: kv_main_def one_view_def start_timed_def Start_def idle_timers_def Let_def
      elim!: obind_eq_retE dest!: new_Server_views)

text \<open>
  \<open>serving_kv interest a T\<close>: the state is well formed and all reactors see one worker, which represents \<open>a\<close>.
\<close>

definition serving_kv :: "('k \<Rightarrow> int \<rightharpoonup> 32 word) \<Rightarrow> abs_worker \<Rightarrow> ('k \<times> worker) timed \<Rightarrow> bool" where
  "serving_kv interest a T \<longleftrightarrow> timed_ok (\<lambda>(k, w). interest k) T \<and> (\<exists>w. one_view w T \<and> worker_rep w a)"

lemma kv_run:
  assumes "epoll_instance ctl interest" and "timer_order pick" and "serving_kv interest a T0"
    and "shared_run ctl interest pick kv_message (Some print_connection) T0 cmds T"
  shows "serving_kv interest (session_state cmds a) T"
  using shared_program.run_ok [OF kv_program [OF assms(1,2)] assms(4), of a] assms(3)
  by (simp add: serving_kv_def session_state_fold shared_program.shared_ok_def [OF kv_program [OF assms(1,2)]])

lemma kv_work:
  assumes "epoll_instance ctl interest" and "timer_order pick" and "serving_kv interest a T"
    and "shared_work ctl interest pick kv_message (Some print_connection) T cmds m"
  shows "yields {Exit ''socket accept error'', Exit ''socket create error'', Empty_vector}
    (\<lambda>T'. serving_kv interest (session_state cmds a) T'
       \<and> dom (connections (the_server (proc T))) \<subseteq> dom (connections (the_server (proc T')))) m"
  using shared_program.work_safe [OF kv_program [OF assms(1,2)] _ assms(4), of a] assms(3)
  by (simp add: serving_kv_def session_state_fold shared_program.shared_ok_def [OF kv_program [OF assms(1,2)]])

lemma kv_main_serving:
  assumes "epoll_instance ctl interest" and "good_environment (\<lambda>(k, w). interest k) env"
    and "worker_rep (snd (empty_epoll env)) a"
  shows "\<exists>T. kv_main (lift_ctl ctl) env = ret (OnMessage kv_message (NewConnect print_connection no_callbacks), T)
    \<and> serving_kv interest a T"
proof -
  obtain T where T: "kv_main (lift_ctl ctl) env = ret (OnMessage kv_message (NewConnect print_connection no_callbacks), T)"
    "entered (\<lambda>(k, w). interest k) env [] T"
    using kv_main_enters [OF lift_epoll [OF assms(1)] assms(2)] by blast
  then show ?thesis
    using kv_main_views [OF T(1)] assms(3) by (auto simp: serving_kv_def entered_def)
qed

section \<open>The last write wins\<close>

text \<open>Commands that may change what is stored under a key: \<open>LOAD\<close>, and \<open>SET\<close> and \<open>DEL\<close> that name it.\<close>

definition touches :: "string \<Rightarrow> string \<Rightarrow> bool" where
  "touches k cmd \<longleftrightarrow> command_of cmd = LOAD
     \<or> command_of cmd \<in> {SET, DEL} \<and> 1 < length (words cmd) \<and> words cmd ! 1 = k"

lemma abs_cmd_sorted: "keys_sorted (abs_db a) \<Longrightarrow> keys_sorted (abs_db (snd (abs_cmd cmd a)))"
  by (cases "command_of cmd") (auto simp: abs_cmd_def keys_sorted_puts split: list.splits)

lemma abs_cmd_untouched:
  assumes "keys_sorted (abs_db a)" and "\<not> touches k cmd"
  shows "map_of (abs_db (snd (abs_cmd cmd a))) k = map_of (abs_db a) k"
  using assms by (cases "command_of cmd") (auto simp: abs_cmd_def touches_def split: list.splits)

lemma session_state_untouched:
  "keys_sorted (abs_db a) \<Longrightarrow> \<forall>cmd \<in> set cmds. \<not> touches k cmd \<Longrightarrow>
    map_of (abs_db (session_state cmds a)) k = map_of (abs_db a) k"
  by (induction cmds arbitrary: a) (simp_all add: abs_cmd_sorted abs_cmd_untouched)

lemma session_state_sorted: "keys_sorted (abs_db a) \<Longrightarrow> keys_sorted (abs_db (session_state cmds a))"
  by (induction cmds arbitrary: a) (simp_all add: abs_cmd_sorted)

lemma last_set_stored:
  assumes "keys_sorted (abs_db a)" and "command_of cmd = SET" and "words cmd = [c, k, v]"
    and "\<forall>cmd \<in> set post. \<not> touches k cmd"
  shows "map_of (abs_db (session_state (pre @ cmd # post) a)) k = Some v"
proof -
  let ?a = "session_state pre a"
  have sorted: "keys_sorted (abs_db ?a)" by (rule session_state_sorted [OF assms(1)])
  then have "map_of (abs_db (session_state post (snd (abs_cmd cmd ?a)))) k = map_of (abs_db (snd (abs_cmd cmd ?a))) k"
    using assms(4) by (intro session_state_untouched abs_cmd_sorted)
  then show ?thesis using assms(2,3) sorted by (simp add: abs_cmd_def)
qed

lemma kv_get_last_set:
  assumes "epoll_instance ctl interest" and "timer_order pick" and "serving_kv interest a T0"
    and "shared_run ctl interest pick kv_message (Some print_connection) T0 (earlier @ cmd # later) T"
    and "command_of cmd = SET" and "words cmd = [name, k, v]" and "\<forall>cmd \<in> set later. \<not> touches k cmd"
    and "command_of query = GET" and "words query = [get_name, k]"
    and "w \<in> set (views (the_server (proc T)))"
  shows "\<exists>w'. dealWithCmd query w = ret (''ok : '' @ v @ [newline], w')"
proof -
  let ?a = "session_state (earlier @ cmd # later) a"
  obtain w0 where w0: "worker_rep w0 a" using assms(3) by (auto simp: serving_kv_def)
  then have "keys_sorted (abs_db a)" using sl.rep_sorted by (auto simp: worker_rep_def)
  then have stored: "map_of (abs_db ?a) k = Some v" by (rule last_set_stored [OF _ assms(5-7)])
  have "worker_rep w ?a"
    using kv_run [OF assms(1-4)] assms(10) by (auto simp: serving_kv_def one_view_def)
  moreover have "words query \<noteq> []" "cmd_draws query ?a = 0" using assms(8,9) by (simp_all add: cmd_draws_def)
  ultimately obtain w' where "dealWithCmd query w = ret (fst (abs_cmd query ?a), w')"
    using deal_refines [of w ?a query 0] by auto
  moreover have "fst (abs_cmd query ?a) = ''ok : '' @ v @ [newline]"
    using stored assms(8,9) by (simp add: abs_cmd_def del: session_state_append)
  ultimately show ?thesis by simp
qed

end
