(* ===== verification/Parser_Race.thy ===== *)
theory Parser_Race
  imports HttpServer
begin

text \<open>
  The cursor \<open>worker_\<close> is one member of \<open>HttpServer\<close> (\<open>src/http/HttpServer.h\<close>), but \<open>onMessage\<close> runs in the
  threads of all sub reactors, without a lock. Here \<open>onMessage\<close> is split into steps: filling the cursor, one
  step per round of the loop of \<open>parseRequest\<close>, and the answer. Two handlers with their own connections and
  parsers make their steps in any order on the one cursor. (On a real machine their accesses may also
  overlap within a step.)
\<close>

section \<open>One handler\<close>

text \<open>One round of the loop of \<open>parseRequest\<close>; the first component is \<open>hasMore\<close>.\<close>

definition parse_round ::
  "bool \<Rightarrow> http_context \<Rightarrow> parse_worker \<Rightarrow> bool \<times> bool \<times> http_context \<times> parse_worker" where
  "parse_round ok c w =
     (if ctx_state c = ExpectRequestLine then
        (case findCRLF w of
           Some eol \<Rightarrow>
             (let (ok, r) = processRequestLine (line_to eol w) (ctx_request c);
                  c = c\<lparr>ctx_request := r\<rparr>
              in if ok then (True, ok, c\<lparr>ctx_state := ExpectHeaders\<rparr>, retrieveUntil (eol + 2) w)
                 else (False, ok, c, w))
         | None \<Rightarrow> (False, ok, c, w))
      else
        (let c = c\<lparr>ctx_state := ExpectHeaders\<rparr> in
         case findCRLF w of
           Some eol \<Rightarrow>
             (let line = line_to eol w; colon = std_find CHR '':'' line in
              if colon \<noteq> length line then
                (True, ok, c\<lparr>ctx_request := addHeader line colon (ctx_request c)\<rparr>, retrieveUntil (eol + 2) w)
              else (False, ok, c\<lparr>ctx_state := GotAll\<rparr>, retrieveUntil (eol + 2) w))
         | None \<Rightarrow> (False, ok, c, w)))"

lemma parse_loop_round:
  "parse_loop ok c w = (case parse_round ok c w of (again, ok, c, w) \<Rightarrow> if again then parse_loop ok c w else (ok, c, w))"
  by (subst parse_loop.simps) (auto simp: parse_round_def Let_def split: option.splits prod.splits)

lemma parse_round_shrinks:
  "parse_round ok c w = (True, ok', c', w') \<Longrightarrow> pw_size w' - pw_readerIndex w' < pw_size w - pw_readerIndex w"
  by (auto simp: parse_round_def Let_def dest: findCRLF_shrinks split: if_splits option.splits prod.splits)

datatype message_pc =
    Fill                       \<comment> \<open>\<open>worker_.SetStr(str)\<close>\<close>
  | Parse bool http_context    \<comment> \<open>in the loop of \<open>parseRequest\<close>\<close>
  | Answer bool http_context   \<comment> \<open>\<open>parseRequest\<close> has returned\<close>
  | Handled

text \<open>What \<open>onMessage\<close> does when \<open>parseRequest\<close> has returned.\<close>

definition message_answer ::
  "header_order \<Rightarrow> http_callback \<Rightarrow> bool \<Rightarrow> http_context \<Rightarrow> connection \<Rightarrow> connection outcome" where
  "message_answer iter cb ok ctx c =
     obind (if \<not> ok then obind (Send bad_request c) conn_shutdown else ret c) (\<lambda>c.
     if gotAll ctx then onRequest iter cb (ctx_request ctx) c else ret c)"

fun message_step ::
  "header_order \<Rightarrow> http_callback \<Rightarrow> message_pc \<Rightarrow> connection \<Rightarrow> parse_worker
    \<Rightarrow> (message_pc \<times> connection \<times> parse_worker) outcome" where
  "message_step iter cb Fill c w =
     (if \<not> isConnected c then ret (Handled, c, w)
      else ret (Parse False HttpContext, c, SetStr (ReadBuffer c) w))"
| "message_step iter cb (Parse ok ctx) c w =
     (let (again, ok, ctx, w) = parse_round ok ctx w in
      ret (if again then Parse ok ctx else Answer ok ctx, c, w))"
| "message_step iter cb (Answer ok ctx) c w = obind (message_answer iter cb ok ctx c) (\<lambda>c. ret (Handled, c, w))"
| "message_step iter cb Handled c w = ret (Handled, c, w)"

fun message_steps ::
  "header_order \<Rightarrow> http_callback \<Rightarrow> nat \<Rightarrow> message_pc \<times> connection \<times> parse_worker
    \<Rightarrow> (message_pc \<times> connection \<times> parse_worker) outcome" where
  "message_steps iter cb 0 x = ret x"
| "message_steps iter cb (Suc n) x =
     obind (message_step iter cb (fst x) (fst (snd x)) (snd (snd x))) (message_steps iter cb n)"

lemma message_steps_Left [simp]: "message_steps iter cb n (Handled, c, w) = ret (Handled, c, w)"
  by (induction n) simp_all

text \<open>The rounds of the parser one after the other are \<open>parse_loop\<close>, then comes the answer.\<close>

lemma message_steps_parse:
  "\<exists>n0. \<forall>n \<ge> n0. message_steps iter cb n (Parse ok ctx, c, w) =
     (case parse_loop ok ctx w of (ok, ctx, w) \<Rightarrow> obind (message_answer iter cb ok ctx c) (\<lambda>c. ret (Handled, c, w)))"
proof (induction "pw_size w - pw_readerIndex w" arbitrary: ok ctx w rule: less_induct)
  case less
  obtain again ok1 ctx1 w1 where r: "parse_round ok ctx w = (again, ok1, ctx1, w1)" by (metis prod_cases4)
  show ?case
  proof (cases again)
    case True
    then have "pw_size w1 - pw_readerIndex w1 < pw_size w - pw_readerIndex w"
      using parse_round_shrinks [of ok ctx w] r by simp
    then obtain n0 where n0: "\<And>n. n \<ge> n0 \<Longrightarrow> message_steps iter cb n (Parse ok1 ctx1, c, w1) =
        (case parse_loop ok1 ctx1 w1 of (ok, ctx, w) \<Rightarrow> obind (message_answer iter cb ok ctx c) (\<lambda>c. ret (Handled, c, w)))"
      using less [of w1 ok1 ctx1] by blast
    have "message_steps iter cb n (Parse ok ctx, c, w) =
        (case parse_loop ok ctx w of (ok, ctx, w) \<Rightarrow> obind (message_answer iter cb ok ctx c) (\<lambda>c. ret (Handled, c, w)))"
      if "n \<ge> Suc n0" for n
      using that n0 [of "n - 1"] r True by (cases n) (simp_all add: parse_loop_round [of ok ctx w])
    then show ?thesis by blast
  next
    case False
    have "message_steps iter cb n (Parse ok ctx, c, w) =
        (case parse_loop ok ctx w of (ok, ctx, w) \<Rightarrow> obind (message_answer iter cb ok ctx c) (\<lambda>c. ret (Handled, c, w)))"
      if "n \<ge> 2" for n
    proof -
      obtain k where "n = Suc (Suc k)" using \<open>n \<ge> 2\<close> by (metis add_2_eq_Suc le_Suc_ex)
      then show ?thesis using r False by (simp add: parse_loop_round [of ok ctx w] obind_assoc)
    qed
    then show ?thesis by blast
  qed
qed

text \<open>With nobody else at the cursor the steps are \<open>onMessage\<close>.\<close>

lemma message_steps_onMessage:
  "\<exists>n0. \<forall>n \<ge> n0. message_steps iter cb n (Fill, c, w) = obind (onMessage iter cb w c) (\<lambda>(w, c). ret (Handled, c, w))"
proof (cases "isConnected c")
  case False
  have "message_steps iter cb n (Fill, c, w) = obind (onMessage iter cb w c) (\<lambda>(w, c). ret (Handled, c, w))" if "n \<ge> 1" for n
    using that False by (cases n) (simp_all add: onMessage_def)
  then show ?thesis by blast
next
  case True
  obtain ok ctx w' where p: "parseRequest HttpContext (SetStr (ReadBuffer c) w) = (ok, ctx, w')" by (metis prod_cases3)
  obtain n0 where n0: "\<And>n. n \<ge> n0 \<Longrightarrow> message_steps iter cb n (Parse False HttpContext, c, SetStr (ReadBuffer c) w) =
      obind (message_answer iter cb ok ctx c) (\<lambda>c. ret (Handled, c, w'))"
    using message_steps_parse [of iter cb False HttpContext c "SetStr (ReadBuffer c) w"] p by (auto simp: parseRequest_def)
  have "message_steps iter cb n (Fill, c, w) = obind (onMessage iter cb w c) (\<lambda>(w, c). ret (Handled, c, w))" if "n \<ge> Suc n0" for n
    using that n0 [of "n - 1"] True p by (cases n) (simp_all add: onMessage_def message_answer_def obind_assoc)
  then show ?thesis by blast
qed

section \<open>Two handlers\<close>

text \<open>A schedule says for every step whether the first handler makes it.\<close>

fun two_messages ::
  "header_order \<Rightarrow> http_callback \<Rightarrow> bool list \<Rightarrow> (message_pc \<times> connection) \<times> (message_pc \<times> connection) \<times> parse_worker
    \<Rightarrow> ((message_pc \<times> connection) \<times> (message_pc \<times> connection) \<times> parse_worker) outcome" where
  "two_messages iter cb [] x = ret x"
| "two_messages iter cb (b # bs) ((p, c), (q, d), w) =
     (if b then obind (message_step iter cb p c w) (\<lambda>(p, c, w). two_messages iter cb bs ((p, c), (q, d), w))
      else obind (message_step iter cb q d w) (\<lambda>(q, d, w). two_messages iter cb bs ((p, c), (q, d), w)))"

lemma two_messages_first:
  "two_messages iter cb (replicate n True @ bs) ((p, c), y, w) =
     obind (message_steps iter cb n (p, c, w)) (\<lambda>(p, c, w). two_messages iter cb bs ((p, c), y, w))"
  by (induction n arbitrary: p c w) (cases y; auto simp: obind_assoc intro!: obind_cong)+

lemma two_messages_second:
  "two_messages iter cb (replicate n False @ bs) (x, (q, d), w) =
     obind (message_steps iter cb n (q, d, w)) (\<lambda>(q, d, w). two_messages iter cb bs (x, (q, d), w))"
  by (induction n arbitrary: q d w) (cases x; auto simp: obind_assoc intro!: obind_cong)+

text \<open>One after the other, each handler answers its own connection.\<close>

lemma messages_in_turn:
  assumes "onMessage iter cb w c = ret (w1, c1)" and "onMessage iter cb w1 d = ret (w2, d1)"
  shows "\<exists>n0. \<forall>n k. n0 \<le> n \<longrightarrow> n0 \<le> k \<longrightarrow>
    two_messages iter cb (replicate n True @ replicate k False) ((Fill, c), (Fill, d), w) = ret ((Handled, c1), (Handled, d1), w2)"
proof -
  obtain n1 where n1: "\<And>n. n \<ge> n1 \<Longrightarrow> message_steps iter cb n (Fill, c, w) = ret (Handled, c1, w1)"
    using message_steps_onMessage [of iter cb c w] assms(1) by auto
  obtain n2 where n2: "\<And>n. n \<ge> n2 \<Longrightarrow> message_steps iter cb n (Fill, d, w1) = ret (Handled, d1, w2)"
    using message_steps_onMessage [of iter cb d w1] assms(2) by auto
  have "two_messages iter cb (replicate n True @ replicate k False) ((Fill, c), (Fill, d), w) = ret ((Handled, c1), (Handled, d1), w2)"
    if "max n1 n2 \<le> n" "max n1 n2 \<le> k" for n k
    using that n1 [of n] n2 [of k] two_messages_second [of iter cb k "[]" "(Handled, c1)" Fill d w1]
    by (simp add: two_messages_first)
  then show ?thesis by blast
qed

text \<open>
  The second handler fills the cursor after the first one has: the first finds the second one's request
  and uses it up, the second finds nothing.
\<close>

lemma messages_swapped:
  fixes cb :: http_callback and m v path query hs
  defines "req \<equiv> \<lparr>req_method = m, req_version = v, req_path = path, req_query = query,
      req_headers = add_headers hs (\<lambda>_. None)\<rparr>"
  defines "resp \<equiv> cb req (HttpResponse True)"
  assumes "m \<noteq> Invalid" and "v \<noteq> Unknown" and "target_ok path query" and "\<forall>h \<in> set hs. header_ok h"
    and "read_buffer d = request_text m path query v hs" and "CHR 0x00 \<notin> set (read_buffer d)"
    and "sendable c" and "closeConnection resp \<or> length (body resp) < 10 ^ 13"
    and "accepted (length (c_string (reply_text iter resp))) (outcomes (conn_sock c))
           = Some (length (c_string (reply_text iter resp)))"
    and "sendable d" and "accepted (length bad_request) (outcomes (conn_sock d)) = Some (length bad_request)"
  shows "\<exists>n0 c' d' w'. (\<forall>n k. n0 \<le> n \<longrightarrow> 2 \<le> k \<longrightarrow>
      two_messages iter cb (True # False # replicate n True @ replicate k False) ((Fill, c), (Fill, d), w)
        = ret ((Handled, c'), (Handled, d'), w'))
    \<and> sent c' = (fst (sent c) @ c_string (reply_text iter resp), snd (sent c) \<or> closeConnection resp)
    \<and> sent d' = (fst (sent d) @ bad_request, True)"
proof -
  let ?w = "SetStr (ReadBuffer d) (SetStr (ReadBuffer c) w)"
  have conn: "isConnected c" "isConnected d" using assms(9,12) by (simp_all add: sendable_def)
  have "unread ?w = request_text m path query v hs @ []"
    using assms(7,8) by (simp add: ReadBuffer_def ToStr_def)
  from parse_request_text [OF assms(3-6) this] obtain w1 where
    parse: "parse_loop False HttpContext ?w = (True, \<lparr>ctx_state = GotAll, ctx_request = req\<rparr>, w1)" "unread w1 = []"
    by (auto simp: req_def parseRequest_def)
  obtain c1 where c1: "onRequest iter cb req c = ret c1"
    "sent c1 = (fst (sent c) @ c_string (reply_text iter resp), snd (sent c) \<or> closeConnection resp)"
    using onRequest_answer [OF assms(9), of cb req iter] assms(10,11) by (auto simp: resp_def)
  obtain n0 where n0: "\<And>n. n \<ge> n0 \<Longrightarrow> message_steps iter cb n (Parse False HttpContext, c, ?w) = ret (Handled, c1, w1)"
    using message_steps_parse [of iter cb False HttpContext c ?w] parse(1) c1(1)
    by (auto simp: message_answer_def gotAll_def)
  have "CHR 0x00 \<notin> set bad_request" by (simp add: bad_request_def crlf_def newline_def)
  from send_and_shut [OF assms(12,13) this] obtain d1 where
    d1: "obind (Send bad_request d) conn_shutdown = ret d1" "sent d1 = (fst (sent d) @ bad_request, True)" by blast
  have "findCRLF w1 = None" by (rule no_line) (simp add: parse(2))
  then have round: "parse_round False HttpContext w1 = (False, False, HttpContext, w1)"
    by (simp add: parse_round_def HttpContext_def)
  have second: "message_steps iter cb k (Parse False HttpContext, d, w1) = ret (Handled, d1, w1)" if "2 \<le> k" for k
  proof -
    obtain j where "k = Suc (Suc j)" using \<open>2 \<le> k\<close> by (metis add_2_eq_Suc le_Suc_ex)
    then show ?thesis
      using round d1(1) by (simp add: message_answer_def gotAll_def HttpContext_def flip: obind_assoc)
  qed
  have "two_messages iter cb (True # False # replicate n True @ replicate k False) ((Fill, c), (Fill, d), w)
      = ret ((Handled, c1), (Handled, d1), w1)" if "n0 \<le> n" "2 \<le> k" for n k
    using conn n0 [OF that(1)] second [OF that(2)]
      two_messages_second [of iter cb k "[]" "(Handled, c1)" "Parse False HttpContext" d w1]
    by (simp add: two_messages_first)
  then show ?thesis using c1(2) d1(2) by blast
qed

end
