(* ===== verification/Accept_Race.thy ===== *)
theory Accept_Race
  imports Server
begin

text \<open>
  \<open>Server::NewConnection\<close> runs in the main thread, but the constructor of \<open>Connection\<close> already registers the
  new channel with the epoll instance of a sub reactor, whose thread may be handed an event of it from then
  on, while the main thread is still installing its callbacks. Here \<open>NewConnection\<close>
  (\<open>src/network/Server.cpp\<close>), with the constructor (\<open>src/network/Connection.cpp\<close>), is split into steps, and the
  event of the other thread may come after any of them.
\<close>

section \<open>Building a connection step by step\<close>

datatype build_pc =
    Make            \<comment> \<open>the socket, the channel, \<open>SetCloseCallback\<close>\<close>
  | Register        \<comment> \<open>\<open>channel_->EnableRead()\<close>\<close>
  | Edge            \<comment> \<open>\<open>channel_->UseET()\<close>\<close>
  | Fill_in         \<comment> \<open>the buffers, \<open>state_ = State::Connected\<close>\<close>
  | Give_delete     \<comment> \<open>\<open>SetDeleteConnectionCallback\<close>\<close>
  | Give_message    \<comment> \<open>\<open>SetOnMessageCallback\<close>, which sets the channel's read callback\<close>
  | File            \<comment> \<open>\<open>connections_[fd] = std::move(conn)\<close>\<close>
  | Greet           \<comment> \<open>\<open>new_connect_callback_\<close>\<close>
  | Built

text \<open>A connection that is not in the table yet, and which callbacks it has.\<close>

record building =
  draft :: connection
  has_delete :: bool
  has_message :: bool

text \<open>Before the first step there is no connection; \<open>blank so\<close> only names its socket.\<close>

definition blank :: "sock \<Rightarrow> building" where
  "blank so = \<lparr>draft = \<lparr>conn_sock = so, conn_channel = Channel (sock_fd so), conn_state = State_Invalid,
     read_buffer = [], send_buffer = [], conn_context = 0\<rparr>, has_delete = False, has_message = False\<rparr>"

definition put_reactor :: "nat \<Rightarrow> 'k \<Rightarrow> 'k server \<Rightarrow> 'k server" where
  "put_reactor r k s = s\<lparr>sub_reactors := (sub_reactors s)[r := k]\<rparr>"

fun build_step ::
  "'k epoll_ctl \<Rightarrow> ('k conn \<Rightarrow> 'k conn outcome) option \<Rightarrow> int \<Rightarrow> build_pc \<Rightarrow> building \<Rightarrow> 'k server
    \<Rightarrow> (build_pc \<times> building \<times> 'k server) outcome" where
  "build_step ctl new_connect spare Make b s =
     obind (ErrorIf (sock_fd (conn_sock (draft b)) = -1) ''new connection error'') (\<lambda>_.
     if sub_reactors s = [] then fail Division_by_zero
     else obind (ErrorIf (spare = -1) ''socket create error'') (\<lambda>_. ret (Register, b, s)))"
| "build_step ctl new_connect spare Register b s =
     (let r = reactor s (sock_fd (conn_sock (draft b))) in
      obind (EnableRead ctl (conn_channel (draft b)) (sub_reactors s ! r)) (\<lambda>(ch, k).
      ret (Edge, b\<lparr>draft := (draft b)\<lparr>conn_channel := ch\<rparr>\<rparr>, put_reactor r k s)))"
| "build_step ctl new_connect spare Edge b s =
     (let r = reactor s (sock_fd (conn_sock (draft b))) in
      obind (UseET ctl (conn_channel (draft b)) (sub_reactors s ! r)) (\<lambda>(ch, k).
      ret (Fill_in, b\<lparr>draft := (draft b)\<lparr>conn_channel := ch\<rparr>\<rparr>, put_reactor r k s)))"
| "build_step ctl new_connect spare Fill_in b s =
     ret (Give_delete, b\<lparr>draft := (draft b)\<lparr>conn_state := Connected, read_buffer := [], send_buffer := []\<rparr>\<rparr>, s)"
| "build_step ctl new_connect spare Give_delete b s = ret (Give_message, b\<lparr>has_delete := True\<rparr>, s)"
| "build_step ctl new_connect spare Give_message b s = ret (File, b\<lparr>has_message := True\<rparr>, s)"
| "build_step ctl new_connect spare File b s =
     ret (Greet, b, s\<lparr>connections := (connections s)(sock_fd (conn_sock (draft b)) \<mapsto> draft b)\<rparr>)"
| "build_step ctl new_connect spare Greet b s =
     (let fd = sock_fd (conn_sock (draft b)); r = reactor s fd in
      case connections s fd of
        None \<Rightarrow> fail Bad_pointer
      | Some c \<Rightarrow>
          obind (case new_connect of None \<Rightarrow> ret (c, sub_reactors s ! r) | Some cb \<Rightarrow> cb (c, sub_reactors s ! r))
            (\<lambda>ck. ret (Built, b, store fd r ck s)))"
| "build_step ctl new_connect spare Built b s = ret (Built, b, s)"

fun build_steps ::
  "'k epoll_ctl \<Rightarrow> ('k conn \<Rightarrow> 'k conn outcome) option \<Rightarrow> int \<Rightarrow> nat \<Rightarrow> build_pc \<times> building \<times> 'k server
    \<Rightarrow> (build_pc \<times> building \<times> 'k server) outcome" where
  "build_steps ctl new_connect spare 0 x = ret x"
| "build_steps ctl new_connect spare (Suc n) x =
     obind (build_step ctl new_connect spare (fst x) (fst (snd x)) (snd (snd x))) (build_steps ctl new_connect spare n)"

text \<open>
  The event of the other thread. The sub reactor holds a pointer to the channel, and the table has not got the
  connection yet, so the callbacks run on the unfinished connection and the whole server. \<open>SetCloseCallback\<close>
  is done first of all, the read callback is there once \<open>SetOnMessageCallback\<close> has been called, and the
  delete callback that \<open>Close\<close> calls is empty until \<open>SetDeleteConnectionCallback\<close>. It looks
  the descriptor up in the table, where an earlier connection of the same descriptor may still be. Once
  the connection is in the table the event is that of the loop.
\<close>

definition draft_delete :: "'k epoll_ctl \<Rightarrow> building \<Rightarrow> 'k server delete_callback" where
  "draft_delete ctl b fd = (\<lambda>(c, s).
     if has_delete b then obind (DeleteConnection ctl fd s) (\<lambda>s. ret (c, s)) else fail Bad_function)"

definition on_reactor :: "('k conn \<Rightarrow> 'k conn outcome) \<Rightarrow> 'k server conn \<Rightarrow> 'k server conn outcome" where
  "on_reactor on_message = (\<lambda>(c, s).
     let r = reactor s (sock_fd (conn_sock c)) in
     obind (on_message (c, sub_reactors s ! r)) (\<lambda>(c, k). ret (c, put_reactor r k s)))"

definition early_event ::
  "'k epoll_ctl \<Rightarrow> ('k conn \<Rightarrow> 'k conn outcome) \<Rightarrow> 32 word \<Rightarrow> build_pc \<times> building \<times> 'k server
    \<Rightarrow> (build_pc \<times> building \<times> 'k server) outcome" where
  "early_event ctl on_message ev = (\<lambda>(pc, b, s).
     if pc \<in> {Greet, Built}
     then obind (connection_event ctl on_message (sock_fd (conn_sock (draft b))) ev s) (\<lambda>s. ret (pc, b, s))
     else
       (let c = (draft b)\<lparr>conn_channel := SetReadyEvents ev (conn_channel (draft b))\<rparr> in
        obind (HandleEvent (\<lambda>(c, s). ready_events (conn_channel c))
                 (if has_message b then Some (Business (draft_delete ctl b) (on_reactor on_message)) else None) None
                 (Some (Close (draft_delete ctl b))) (c, s))
          (\<lambda>(c, s). ret (pc, b\<lparr>draft := c\<rparr>, s))))"

section \<open>With nobody else at work\<close>

lemma put_reactor_simps [simp]:
  "sub_reactors (put_reactor r k s) = (sub_reactors s)[r := k]" "connections (put_reactor r k s) = connections s"
  "reactor (put_reactor r k s) fd = reactor s fd" "put_reactor r k' (put_reactor r k s) = put_reactor r k' s"
  by (simp_all add: put_reactor_def reactor_def)

lemma file_reactor [simp]: "reactor (s\<lparr>connections := m\<rparr>) fd = reactor s fd"
  by (simp add: reactor_def)

lemma store_put_reactor [simp]:
  "store fd r ck ((put_reactor r k s)\<lparr>connections := (connections s)(fd \<mapsto> c)\<rparr>) = store fd r ck s"
  by (cases ck) (simp add: store_def put_reactor_def)

text \<open>The eight steps one after the other are \<open>NewConnection\<close>.\<close>

lemma build_steps_NewConnection:
  "obind (build_steps ctl new_connect spare 8 (Make, blank so, s)) (\<lambda>(pc, b, s). ret s) = NewConnection ctl new_connect spare so s"
proof (cases "sub_reactors s = []")
  case True
  then show ?thesis by (simp add: eval_nat_numeral NewConnection_def blank_def obind_def ErrorIf_def ret_def fail_def)
next
  case False
  then show ?thesis
    using reactor_less [OF False, of "sock_fd so"]
    by (auto simp: eval_nat_numeral NewConnection_def Connection_def blank_def obind_def ErrorIf_def ret_def fail_def Let_def
        split: sum.splits option.splits)
qed

section \<open>An event before the callbacks are there\<close>

context epoll_instance
begin

lemma read_registers:
  assumes "interest k fd = None" and "EnableRead ctl (Channel fd) k = ret (ch, k')"
  shows "interest k' fd \<noteq> None"
proof -
  let ?ch = "(Channel fd)\<lparr>listen_events := listen_events (Channel fd) OR (EPOLLIN OR EPOLLPRI)\<rparr>"
  have "agrees interest ?ch k" using assms(1) by (simp add: agrees_def Channel_def)
  then obtain c l where "EnableRead ctl (Channel fd) k = ret (c, l)" "interest l = (interest k)(fd \<mapsto> listen_events ?ch)"
    unfolding EnableRead_def by (rule update_ok) (simp add: Channel_def)
  then show ?thesis using assms(2) by (simp add: ret_def)
qed

text \<open>From the registration to the message callback: the reactor knows the channel, which has no read callback.\<close>

lemma built_so_far:
  assumes "sock_fd so \<noteq> -1" and "spare \<noteq> -1" and "sub_reactors s \<noteq> []"
    and new: "interest (sub_reactors s ! reactor s (sock_fd so)) (sock_fd so) = None" and "2 \<le> n" and "n \<le> 5"
  shows "\<exists>pc b s'. build_steps ctl new_connect spare n (Make, blank so, s) = ret (pc, b, s')
    \<and> pc \<in> {Edge, Fill_in, Give_delete, Give_message} \<and> \<not> has_message b \<and> conn_sock (draft b) = so
    \<and> interest (sub_reactors s' ! reactor s' (sock_fd so)) (sock_fd so) \<noteq> None"
proof -
  obtain ch1 k1 ch k' where ch: "EnableRead ctl (Channel (sock_fd so)) (sub_reactors s ! reactor s (sock_fd so)) = ret (ch1, k1)"
    "UseET ctl ch1 k1 = ret (ch, k')" "interest k' (sock_fd so) \<noteq> None"
    using enable_et_ok [OF new] by (metis fun_upd_same option.distinct(1))
  have "interest k1 (sock_fd so) \<noteq> None" by (rule read_registers [OF new ch(1)])
  moreover have "n \<in> {2, 3, 4, 5}" using assms(5,6) by auto
  ultimately show ?thesis
    using assms(1-3) ch reactor_less [OF assms(3), of "sock_fd so"]
    by (auto simp: eval_nat_numeral blank_def Let_def)
qed

text \<open>Input that is reported then is a call of an empty function.\<close>

lemma early_input_fails:
  assumes "pc \<notin> {Greet, Built}" and "\<not> has_message b" and "ev AND EPOLLIN \<noteq> 0"
  shows "early_event ctl on_message ev (pc, b, s) = fail Bad_function"
  using assms by (auto simp: early_event_def HandleEvent_def call_def SetReadyEvents_def Let_def
      bit.conj_disj_distrib or_eq_0_iff)

end

text \<open>
  And the end of the input of a client that has left between \<open>SetOnMessageCallback\<close> and the entry in the
  table closes the connection, but \<open>DeleteConnection\<close> does not find it: it is filed
  closed, and stays registered with its reactor, of which the kernel has nothing more to report, until the
  periodic check finds it idle, if the server makes one.
\<close>

lemma early_end_stays:
  assumes "has_delete b" and "has_message b" and c: "draft b = c" "conn_state c = Connected" "nonblocking (conn_sock c)"
    and eof: "incoming (conn_sock c) = Read_bytes [] # rs" and fd: "fd = sock_fd (conn_sock c)" "connections s fd = None"
    and "sub_reactors s \<noteq> []" and quiet: "\<And>c k. conn_state c = Closed \<Longrightarrow> on_message (c, k) = ret (c, k)"
  shows "\<exists>b' s'. obind (early_event ctl on_message EPOLLIN (File, b, s)) (build_steps ctl None spare 2) = ret (Built, b', s')
    \<and> (\<exists>c'. connections s' fd = Some c' \<and> conn_state c' = Closed \<and> in_epoll (conn_channel c') = in_epoll (conn_channel c))
    \<and> sub_reactors s' = sub_reactors s"
  using assms reactor_less [OF assms(9), of fd]
  by (simp add: early_event_def HandleEvent_def call_def SetReadyEvents_def Business_def Read_def IsNonBlocking_def
      ReadNonBlocking_def Close_def draft_delete_def DeleteConnection_def on_reactor_def Let_def epoll_masks
      eval_nat_numeral store_def put_reactor_def reactor_def)

end
