(* ===== verification/Process_Properties.thy ===== *)
theory Process_Properties
  imports Thread_Properties Kv_Process Parser_Race Accept_Race
begin

text \<open>
  The properties of the storage server as a whole, from \<open>main\<close> on and with all its reactors and connections
  on one database; of the HTTP server's parser when two reactors are at it at once; and of a connection that
  is told of input before it is complete.
\<close>

section \<open>The storage server from main on\<close>










section \<open>Two requests at once\<close>

text \<open>
  C24. Two reactors of the HTTP server handle a message each, and the second one fills the shared cursor
  after the first one has and before the first one parses. Then the client of the first reactor is sent the
  reply to the request of the other client, whatever it has sent itself, and the other client, whose
  request is complete and correct, is told that it is a bad one.
\<close>

theorem http_answers_swapped:
  fixes cb :: http_callback and m v path query hs
  defines "req \<equiv> \<lparr>req_method = m, req_version = v, req_path = path, req_query = query,
      req_headers = add_headers hs (\<lambda>_. None)\<rparr>"
  defines "resp \<equiv> cb req (HttpResponse True)"
  assumes "m \<noteq> Invalid" and "v \<noteq> Unknown" and "target_ok path query" and "\<forall>h \<in> set hs. header_ok h"
    and "read_buffer d = request_text m path query v hs" and "CHR 0x00 \<notin> set (read_buffer d)"
    and "sendable c" and "closeConnection resp \<or> length (body resp) < 10 ^ 13"
    and "accepted (length (c_string (reply_text iter resp))) (outcomes (conn_sock c))
           = Some (length (c_string (reply_text iter resp)))"
    and "sendable d" and "accepted (length bad_request) (outcomes (conn_sock d)) = Some (length bad_request)"
  shows "\<exists>n0 c' d' w'. (\<forall>n k. n0 \<le> n \<longrightarrow> 2 \<le> k \<longrightarrow>
      two_messages iter cb (True # False # replicate n True @ replicate k False) ((Fill, c), (Fill, d), w)
        = ret ((Handled, c'), (Handled, d'), w'))
    \<and> sent c' = (fst (sent c) @ c_string (reply_text iter resp), snd (sent c) \<or> closeConnection resp)
    \<and> sent d' = (fst (sent d) @ bad_request, True)"
  unfolding resp_def req_def by (rule messages_swapped) (use assms in \<open>simp_all add: resp_def req_def\<close>)

theorem http_answers_swapped_witness:
  "\<exists>n k c' d' w'. two_messages no_headers defaultHttpCallback (True # False # replicate n True @ replicate k False)
      ((Fill, sample_conn\<lparr>read_buffer := ''GET /mine''\<rparr>),
       (Fill, sample_conn\<lparr>read_buffer := simple_get, conn_sock := sample_sock\<lparr>outcomes := [Wrote 28]\<rparr>\<rparr>), ParseWorker_init)
      = ret ((Handled, c'), (Handled, d'), w')
    \<and> sent c' = (not_found_text, True) \<and> sent d' = (bad_request, True)"
proof -
  let ?c = "sample_conn\<lparr>read_buffer := ''GET /mine''\<rparr>"
  let ?d = "sample_conn\<lparr>read_buffer := simple_get, conn_sock := sample_sock\<lparr>outcomes := [Wrote 28]\<rparr>\<rparr>"
  have "closeConnection (defaultHttpCallback req (HttpResponse True))" for req
    by (simp add: defaultHttpCallback_def setCloseConnection_def)
  moreover have "accepted 46 (outcomes sample_sock) = Some 46" by (simp add: sample_sock_def)
  moreover have "sendable ?d" "sent ?d = ([], False)" "length bad_request = 28"
    by (simp_all add: sendable_def isConnected_def sample_conn_def sample_sock_def never_writes_def isWriting_def
        Channel_def sent_def bad_request_def crlf_def)
  ultimately have "\<exists>n0 c' d' w'. (\<forall>n k. n0 \<le> n \<longrightarrow> 2 \<le> k \<longrightarrow>
      two_messages no_headers defaultHttpCallback (True # False # replicate n True @ replicate k False)
        ((Fill, ?c), (Fill, ?d), ParseWorker_init) = ret ((Handled, c'), (Handled, d'), w'))
    \<and> sent c' = (not_found_text, True) \<and> sent d' = (bad_request, True)"
    using http_answers_swapped [of Get Http11 "''/''" "[]" "[]" ?d ?c defaultHttpCallback no_headers ParseWorker_init] simple_get_ok
    by (simp add: not_found_reply simple_get_text)
  then show ?thesis by blast
qed

section \<open>A connection that is not ready\<close>

text \<open>
  C25. The main reactor accepts a client and is anywhere between the registration of its descriptor with a
  sub reactor, in the constructor, and the setting of the read callback. When input is reported then, the
  sub reactor's thread calls an empty function, which ends the server, whatever the message callback.
\<close>

theorem early_input_kills_server:
  assumes "epoll_instance ctl interest" and "sock_fd so \<noteq> -1" and "spare \<noteq> -1" and "sub_reactors s \<noteq> []"
    and "interest (sub_reactors s ! reactor s (sock_fd so)) (sock_fd so) = None"
    and "2 \<le> n" and "n \<le> 5" and "ev AND EPOLLIN \<noteq> 0"
  shows "\<exists>pc b s'. build_steps ctl new_connect spare n (Make, blank so, s) = ret (pc, b, s')
    \<and> interest (sub_reactors s' ! reactor s' (sock_fd so)) (sock_fd so) \<noteq> None
    \<and> early_event ctl on_message ev (pc, b, s') = fail Bad_function"
proof -
  note ei = assms(1)
  from epoll_instance.built_so_far [OF ei assms(2-7)] obtain pc b s' where
    b: "build_steps ctl new_connect spare n (Make, blank so, s) = ret (pc, b, s')"
    "pc \<in> {Edge, Fill_in, Give_delete, Give_message}" "\<not> has_message b"
    "interest (sub_reactors s' ! reactor s' (sock_fd so)) (sock_fd so) \<noteq> None" by metis
  moreover have "early_event ctl on_message ev (pc, b, s') = fail Bad_function"
    by (rule epoll_instance.early_input_fails [OF ei]) (use b(2,3) assms(8) in auto)
  ultimately show ?thesis by blast
qed

theorem early_input_kills_server_witness:
  "\<exists>pc b s'. build_steps map_ctl None 9 5 (Make, blank (sample_sock\<lparr>sock_fd := 8\<rparr>), sample_server) = ret (pc, b, s')
    \<and> (sub_reactors s' ! reactor s' 8) 8 \<noteq> None
    \<and> early_event map_ctl echo_message EPOLLIN (pc, b, s') = fail Bad_function"
proof -
  let ?so = "sample_sock\<lparr>sock_fd := 8\<rparr>"
  have new: "(sub_reactors sample_server ! reactor sample_server (sock_fd ?so)) (sock_fd ?so) = None"
    by (simp add: sample_reactor) (simp add: sample_server_def)
  have s: "sock_fd ?so \<noteq> -1" "(9::int) \<noteq> -1" "sub_reactors sample_server \<noteq> []" "(2::nat) \<le> 5" "(5::nat) \<le> 5"
    "EPOLLIN AND EPOLLIN \<noteq> 0" by (simp_all add: sample_server_def epoll_masks)
  show ?thesis
    using early_input_kills_server [of map_ctl "\<lambda>k. k" ?so 9 sample_server 5 EPOLLIN None echo_message]
      sample_epoll s new by simp
qed

end
