(* ===== verification/Spec2Isabelle.thy ===== *)
theory Spec2Isabelle
  imports Process_Properties
begin

text \<open>
  A verification library for My-Network-Library, a C++ network library with an HTTP server, a
  key-value store on a skip list, timers and an asynchronous logger (\<open>src/\<close> below is the directory of
  that name in the repository).

  \<^bold>\<open>The program.\<close> \<open>src/network\<close> has one event loop per thread (\<open>EventLoop\<close>, \<open>Epoll\<close>, \<open>Channel\<close>), connections
  with a read and a send buffer (\<open>Connection\<close>, \<open>Buffer\<close>, \<open>Socket\<close>), the server's table of connections
  (\<open>Server\<close>) and a thread pool. \<open>src/http\<close> parses what a connection has read and answers it through a
  callback of the user. \<open>src/timer\<close> runs callbacks from a priority queue behind a timer descriptor, for
  instance the server's check for idle connections. \<open>src/storage\<close> is a skip list of strings with a text
  file behind it and a worker for command lines. \<open>src/logger\<close> formats records and writes them to a file in
  a thread of its own.

  \<^bold>\<open>Conventions.\<close> Theory \<open>Prelude\<close> holds the outcomes: a computation does not return (\<open>None\<close>), ends
  abnormally with a \<open>fault\<close> (undefined behaviour, a thrown exception, a process exit through \<open>ErrorIf\<close>), or
  returns a value. Classes are records with the source's fields, pointers into a buffer are
  offsets, \<open>std::string\<close> is \<open>string\<close>, \<open>size_t\<close> of the timers is \<open>64 word\<close> and \<open>uint32_t\<close> event masks are
  \<open>32 word\<close>. What the operating system and the environment decide is an input: random numbers, clock
  readings, the results of \<open>read\<close>, \<open>write\<close>, \<open>fwrite\<close> and \<open>epoll_ctl\<close>, the iteration order of unordered maps and
  the choice of a priority queue among equal keys. There is no fuel: loops are recursive functions
  with a termination proof, or recursions over the list of the inputs they consume (which return
  \<open>None\<close> when it is used up), or, for walks along pointers, partial functions whose termination is part
  of the theorems.

  \<^bold>\<open>Storage.\<close>
  \<^item> \<open>Node\<close>, \<open>SkipList\<close>: \<open>Node.h\<close> and the operations of \<open>SkipList.h\<close> over an explicit heap;
  \<^item> \<open>SkipList_Levels\<close>: the shape of a skip list (\<open>chains\<close>: every level links exactly the nodes that reach
    it, in key order) and what each inner loop does to it;
  \<^item> \<open>KV_Contract\<close>: the contract of a store of pairs as a locale, with its client lemmas;
  \<^item> \<open>SkipList_Correct\<close>: \<open>sl_rep s xs\<close>, the skip list \<open>s\<close> is well formed and holds the sorted list \<open>xs\<close>; the
    operations refine \<open>put\<close>, \<open>del\<close> and \<open>map_of\<close>, which interprets the contract;
  \<^item> \<open>StoreFile\<close>, \<open>SkipList_IO\<close>: the file format, loading into any store that keeps the contract, dumping and
    displaying;
  \<^item> \<open>SkipList_Threads\<close>: \<open>searchElement\<close>, which takes no lock, read by read (\<open>search_step\<close>) beside the writes of
    insertions (\<open>insert_trace\<close>) and a deletion of another thread; \<open>calm\<close> is what a search needs of a state and
    \<open>grows\<close> what it needs of a write;
  \<^item> \<open>Storage_Tests\<close>: the test drivers \<open>storage/test/test.cpp\<close> and \<open>stress_test.cpp\<close>, on lists with \<open>int\<close> keys;
  \<^item> \<open>SkipListWorker\<close>, \<open>SkipListWorker_Correct\<close>: the command worker, an abstract interpreter, and the proof
    that the worker refines it;
  \<^item> \<open>Storage_Properties\<close>: the properties.

  \<^bold>\<open>Network and HTTP.\<close>
  \<^item> \<open>Epoll\<close>: channels, their dispatch and their registration; the locale \<open>epoll_instance\<close> states what
    \<open>epoll_ctl\<close> promises, and the life of a channel is proved in it never to end the process;
  \<^item> \<open>Connection\<close>: buffers, the read and write loops, sending and closing, with what a burst of reads
    collects and what a run of writes delivers;
  \<^item> \<open>Server\<close>: the table of connections; \<open>server_ok\<close> is its invariant, kept by accepting, deleting, events
    and the periodic check; \<open>burst_event\<close> reduces an input event to the message callback;
  \<^item> \<open>EventLoop\<close>: a round of \<open>EventLoop::Loop\<close> on the table, which equals its events in turn; the locale
    \<open>message_handler\<close> is the contract between the loop and a message callback;
  \<^item> \<open>Socket\<close>: \<open>InetAddress\<close> with byte order and dotted texts, listening, accepting and connecting;
  \<^item> \<open>Acceptor\<close>: the acceptor and what one event on the listening socket does;
  \<^item> \<open>Server_Process\<close>: the constructors, \<open>Server::Start\<close>, and the process as a relation \<open>process_work\<close> of accepts,
    rounds of a reactor and checks; \<open>process_ok\<close> is its invariant, and the locale \<open>server_program\<close> proves it
    for every program whose callbacks keep the contract;
  \<^item> \<open>Timed_Server\<close>: the check for idle connections as the callback of a timer in the main reactor's queue, and
    the rounds of the main reactor (\<open>main_round\<close>), which handle the acceptor and the timer descriptor; the
    relation \<open>timed_work\<close>, its invariant \<open>timed_ok\<close> and the locale \<open>timed_program\<close>;
  \<^item> \<open>Close_Race\<close>: \<open>Connection::deleteConnection\<close> in two threads at once, access by access, under every schedule;
  \<^item> \<open>Descriptors\<close>: the descriptors a server opens per client and never closes;
  \<^item> \<open>ParseWorker\<close>, \<open>HttpRequest\<close>, \<open>HttpContext\<close>, \<open>HttpServer\<close>: the cursor, requests and responses, the parser
    and the handlers; \<open>Http_Example\<close> is the callback of \<open>example/http_server.cpp\<close>;
  \<^item> \<open>Network_Properties\<close>: the properties.

  \<^bold>\<open>Programs.\<close>
  \<^item> \<open>Server_Programs\<close>: the callbacks of \<open>example/server.cpp\<close>, \<open>example/timer_server.cpp\<close> and of the HTTP server, each
    an interpretation of \<open>server_program\<close>;
  \<^item> \<open>Kv_Server\<close>: \<open>example/kv_server.cpp\<close>; a session of commands refines the abstract interpreter;
  \<^item> \<open>Example_Client\<close>: \<open>example/client.cpp\<close>;
  \<^item> \<open>Server_Mains\<close>: the callback setters and the \<open>main\<close> functions of the example servers up to the point where
    the loop begins, which \<open>entered\<close> describes, and the interpretations of \<open>timed_program\<close>;
  \<^item> \<open>Program_Properties\<close>, \<open>Thread_Properties\<close>: the properties.

  \<^bold>\<open>Reactors that share an object.\<close>
  \<^item> \<open>Shared_State\<close>: the object a callback shares between all reactors is the second component of every
    reactor's state; \<open>served\<close> lists what a round has brought to the callback, and the locale \<open>shared_handler\<close> follows the
    object through events and rounds;
  \<^item> \<open>Shared_Process\<close>: the whole process, whose reactors always have the same view of the object (\<open>views\<close>, \<open>share\<close>): the step
    relation \<open>shared_work\<close> with the history of messages in \<open>shared_run\<close>, and the locale \<open>shared_program\<close>;
  \<^item> \<open>Kv_Process\<close>: the storage server as an interpretation of it, from its \<open>main\<close> on;
  \<^item> \<open>Parser_Race\<close>: \<open>HttpServer::onMessage\<close> of two reactors at once on the one cursor, step by step;
  \<^item> \<open>Accept_Race\<close>: \<open>Server::NewConnection\<close> step by step beside an event of the new channel in the sub reactor;
  \<^item> \<open>Process_Properties\<close>: the properties.

  \<^bold>\<open>Timers, logger, thread pool.\<close>
  \<^item> \<open>TimerQueue\<close>: nodes, queue and handler; the locale \<open>timer_order\<close> is the contract of
    \<open>std::priority_queue\<close>; \<open>handle_loop_settles\<close> counts the callbacks that run in one
    event, \<open>single_events\<close> bounds those of a repeating timer over all events;
  \<^item> \<open>LogStream\<close>: fixed buffers, integer formatting at every width, log records;
  \<^item> \<open>LogTime\<close>: time texts, file names, the global settings and the \<open>LOG_\<close> statements;
  \<^item> \<open>LogFile\<close>, \<open>AsyncLogging\<close>: the file and the double buffering as a step relation with one step per
    critical section; \<open>async_ok\<close> and \<open>complete\<close> are its invariants;
  \<^item> \<open>LogThread\<close>: the logger's \<open>Thread\<close>, owner and child as interleaved steps;
  \<^item> \<open>Log_Pipeline\<close>: log statements into the asynchronous logger, as \<open>logger/test/LogTest.cpp\<close> sets it up;
  \<^item> \<open>ThreadPool\<close>: the pool as a step relation;
  \<^item> \<open>Runtime_Properties\<close>: the properties.

  This theory adds the property that spans the layers, from an epoll event to the reply on the wire.

  \<^bold>\<open>Not modelled.\<close> The steps of \<open>timed_work\<close> and \<open>shared_work\<close> are whole rounds of a reactor; in the second the object
  shared by the reactors is worked on by one round at a time, which its mutex does not ensure for the searches of
  the skip list. Four races below that grain are modelled: a search beside insertions or a deletion, the double
  deletion of a connection, two requests on one parser, and an event of a connection that is still being made. The
  others are not: \<open>connections_\<close> itself is inserted into and searched without a lock. The steps of a race are taken to
  be sequentially consistent, and accesses of two threads do not overlap within a step. Destructors that close
  descriptors have no effect (\<open>Loop\<close> never returns and connections stay in their table, so those of a server are not
  reached). The text \<open>snprintf\<close> makes of floating point numbers is a parameter, the
  diagnostics printed on the terminal are left out, except where a test program's own output is its result. The
  class \<open>noncopyable\<close> and CMake's generated files have no behaviour of their own.
\<close>

section \<open>From an event to the reply\<close>

text \<open>
  C2. When the kernel reports input on an open connection of the server's table and the chunks it
  then delivers make up a complete request, the one event leads through epoll dispatch, the read
  loop, the parser and the user's callback to exactly the callback's reply on the wire.
\<close>

theorem request_event_is_answered:
  fixes cb :: http_callback and m v path query hs
  defines "resp \<equiv> cb \<lparr>req_method = m, req_version = v, req_path = path, req_query = query,
      req_headers = add_headers hs (\<lambda>_. None)\<rparr> (HttpResponse True)"
  assumes "connections s fd = Some c" and "sendable c"
    and "burst (incoming (conn_sock c)) = Some chunks" and "\<forall>b \<in> set chunks. CHR 0x00 \<notin> set b"
    and "concat chunks = request_text m path query v hs @ remaining"
    and "m \<noteq> Invalid" and "v \<noteq> Unknown" and "target_ok path query" and "\<forall>h \<in> set hs. header_ok h"
    and "closeConnection resp \<or> length (body resp) < 10 ^ 13"
    and "accepted (length (c_string (reply_text iter resp))) (outcomes (conn_sock c))
           = Some (length (c_string (reply_text iter resp)))"
  shows "\<exists>s' c'. connection_event ctl (http_on_message iter cb w) fd EPOLLIN s = ret s'
    \<and> connections s' fd = Some c'
    \<and> sent c' = (fst (sent c) @ c_string (reply_text iter resp), snd (sent c) \<or> closeConnection resp)"
proof -
  let ?c1 = "after_read chunks c"
  have c: "isConnected c" "nonblocking (conn_sock c)" using assms(3) by (simp_all add: sendable_def)
  have nul: "CHR 0x00 \<notin> set (concat chunks)" using assms(5) by auto
  have "sendable ?c1" using assms(3)
    by (simp add: sendable_def isConnected_def never_writes_def isWriting_def SetReadyEvents_def)
  then obtain w' c' where c': "onMessage iter cb w ?c1 = ret (w', c')"
    "sent c' = (fst (sent c) @ c_string (reply_text iter resp), snd (sent c) \<or> closeConnection resp)"
    using onMessage_answer [OF assms(7-10), of ?c1 remaining cb iter w] assms(6,11,12) nul
    by (auto simp: resp_def sent_def)
  have "ready_events (conn_channel c') = EPOLLIN"
    using onMessage_channel [OF c'(1)] by (simp add: SetReadyEvents_def)
  moreover have "http_on_message iter cb w (?c1, sub_reactors s ! reactor s fd)
      = ret (c', sub_reactors s ! reactor s fd)"
    using c'(1) by (simp add: http_on_message_def)
  ultimately show ?thesis
    using burst_event [where on_message = "http_on_message iter cb w", OF assms(2) c assms(4) nul] c'(2) by auto
qed

theorem request_event_is_answered_witness:
  "\<exists>s' c'. connection_event map_ctl (http_on_message no_headers defaultHttpCallback ParseWorker_init) 7 EPOLLIN
      (sample_server\<lparr>connections := [7 \<mapsto> sample_conn\<lparr>conn_sock := sample_sock\<lparr>incoming :=
         [Read_bytes (take 5 simple_get), Read_EINTR, Read_bytes (drop 5 simple_get), Read_EAGAIN]\<rparr>\<rparr>]\<rparr>) = ret s'
    \<and> connections s' 7 = Some c' \<and> sent c' = (not_found_text, True)"
proof -
  let ?chunks = "[take 5 simple_get, drop 5 simple_get]"
  let ?c = "sample_conn\<lparr>conn_sock := sample_sock\<lparr>incoming :=
    [Read_bytes (take 5 simple_get), Read_EINTR, Read_bytes (drop 5 simple_get), Read_EAGAIN]\<rparr>\<rparr>"
  let ?s = "sample_server\<lparr>connections := [7 \<mapsto> ?c]\<rparr>"
  let ?req = "\<lparr>req_method = Get, req_version = Http11, req_path = ''/'', req_query = [],
      req_headers = add_headers [] (\<lambda>_. None)\<rparr>"
  have "burst (incoming (conn_sock ?c)) = Some ?chunks" by (simp add: simple_get_def)
  moreover have "sendable ?c" "sent ?c = ([], False)"
    by (simp_all add: sendable_def isConnected_def sample_conn_def sample_sock_def never_writes_def
        isWriting_def Channel_def sent_def)
  moreover have "\<forall>b \<in> set ?chunks. CHR 0x00 \<notin> set b"
    using simple_get_ok(2) by (auto dest: in_set_takeD in_set_dropD)
  moreover have "concat ?chunks = request_text Get ''/'' [] Http11 [] @ []"
    by (simp flip: simple_get_text)
  moreover have "closeConnection (defaultHttpCallback ?req (HttpResponse True))"
    by (simp add: defaultHttpCallback_def setCloseConnection_def)
  moreover have "accepted 46 (outcomes (conn_sock ?c)) = Some 46" by (simp add: sample_sock_def)
  ultimately show ?thesis
    using request_event_is_answered [of ?s 7 ?c ?chunks Get "''/''" "[]" Http11 "[]" "[]" defaultHttpCallback
        no_headers map_ctl ParseWorker_init] simple_get_ok(1)
    by (simp add: not_found_reply)
qed

end
